(* ===== verification/Scy_Prelude.thy ===== *)
theory Scy_Prelude
  imports Main "HOL-Library.Word"
begin

text \<open>
  The vocabulary every component of the development shares: the fixed-width integers and byte
  strings of the C++ sources, the outcomes a call can have (a value, a thrown exception, a failed
  assertion, or undefined behaviour), the arithmetic of \<^verbatim>\<open>size_t\<close>, and generic lemmas on
  results, lists and words that the component proofs rest on.

  Outcomes. A C++ call that may not return normally has a result in \<open>err + 'a\<close>:
    \<^item> \<open>OutOfRange\<close>, \<open>RuntimeError\<close>, \<open>LengthError\<close>: the exceptions
      \<^verbatim>\<open>std::out_of_range\<close>, \<^verbatim>\<open>std::runtime_error\<close>, \<^verbatim>\<open>std::length_error\<close>; all three
      derive from \<^verbatim>\<open>std::exception\<close>, so a \<^verbatim>\<open>catch (std::exception&)\<close> handles them
      (\<open>catchable\<close>);
    \<^item> \<open>AssertFail\<close>: an \<^verbatim>\<open>assert\<close> that does not hold (assertions are modelled as enabled);
    \<^item> \<open>Undefined\<close>: the C++ standard gives the execution no meaning, in this code base always an
      access outside the memory a pointer refers to;
    \<^item> \<open>Diverges\<close>: the call does not return, because a loop of it does not end.
  The last three are not exceptions and no handler of the program stops them.
\<close>

unbundle bit_operations_syntax

named_theorems scy_defs \<open>definitions of operations, unfolded by the component proofs\<close>

named_theorems codec_simps \<open>decoding undoes encoding\<close>

type_synonym u8 = "8 word"
type_synonym u16 = "16 word"
type_synonym u32 = "32 word"
type_synonym u64 = "64 word"
type_synonym bytes = "u8 list"

datatype err = OutOfRange | RuntimeError | LengthError | AssertFail | Undefined | Diverges

type_synonym 'a result = "err + 'a"

fun catchable :: "err \<Rightarrow> bool" where
  "catchable OutOfRange = True"
| "catchable RuntimeError = True"
| "catchable LengthError = True"
| "catchable AssertFail = False"
| "catchable Undefined = False"
| "catchable Diverges = False"

text \<open>Sequencing: the rest of a block runs only when the call before it returned.\<close>

definition bind_r :: "'a result \<Rightarrow> ('a \<Rightarrow> 'b result) \<Rightarrow> 'b result" where
  "bind_r m f = (case m of Inl e \<Rightarrow> Inl e | Inr x \<Rightarrow> f x)"

definition assert_r :: "bool \<Rightarrow> 'a result \<Rightarrow> 'a result" where
  "assert_r c m = (if c then m else Inl AssertFail)"

subsection \<open>size_t arithmetic\<close>

text \<open>
  A \<^verbatim>\<open>size_t\<close> is a natural number below \<open>2 ^ 64\<close>; its sums and differences wrap around.
\<close>

abbreviation size_max :: nat where
  "size_max \<equiv> 2 ^ 64"

definition size_add :: "nat \<Rightarrow> nat \<Rightarrow> nat" where
  "size_add a b = (a + b) mod size_max"

definition size_sub :: "nat \<Rightarrow> nat \<Rightarrow> nat" where
  "size_sub a b = (a + size_max - b) mod size_max"

subsection \<open>Results\<close>

lemma bind_r_simps [simp]:
  "bind_r (Inl e) f = Inl e"
  "bind_r (Inr x) f = f x"
  by (simp_all add: bind_r_def)

lemma bind_r_eq_Inr:
  "bind_r m f = Inr y \<longleftrightarrow> (\<exists>x. m = Inr x \<and> f x = Inr y)"
  by (cases m) auto

lemma bind_r_eq_Inl:
  "bind_r m f = Inl e \<longleftrightarrow> m = Inl e \<or> (\<exists>x. m = Inr x \<and> f x = Inl e)"
  by (cases m) auto

lemma bind_r_cong [fundef_cong]:
  "m = m' \<Longrightarrow> (\<And>x. m' = Inr x \<Longrightarrow> f x = g x) \<Longrightarrow> bind_r m f = bind_r m' g"
  by (cases m') auto

lemma bind_r_assoc: "bind_r (bind_r m f) g = bind_r m (\<lambda>x. bind_r (f x) g)"
  by (cases m) auto

lemma assert_r_simps [simp]:
  "assert_r True m = m"
  "assert_r False m = Inl AssertFail"
  by (simp_all add: assert_r_def)

lemma assert_r_eq_Inr: "assert_r c m = Inr y \<longleftrightarrow> c \<and> m = Inr y"
  by (simp add: assert_r_def)

lemma assert_r_eq_Inl: "assert_r c m = Inl e \<longleftrightarrow> \<not> c \<and> e = AssertFail \<or> c \<and> m = Inl e"
  by (auto simp: assert_r_def)

lemma assert_r_cong [fundef_cong]:
  "c = d \<Longrightarrow> (d \<Longrightarrow> m = m') \<Longrightarrow> assert_r c m = assert_r d m'"
  by (simp add: assert_r_def)

lemmas result_convs = bind_r_eq_Inr bind_r_eq_Inl assert_r_eq_Inr assert_r_eq_Inl

subsection \<open>size_t within range\<close>

lemma size_add_small: "a + b < size_max \<Longrightarrow> size_add a b = a + b"
  by (simp add: size_add_def)

lemma size_sub_le: "b \<le> a \<Longrightarrow> a < size_max \<Longrightarrow> size_sub a b = a - b"
  by (simp add: size_sub_def mod_if)

lemma size_sub_wrap: "a < b \<Longrightarrow> b \<le> size_max \<Longrightarrow> size_sub a b = a + size_max - b"
  by (simp add: size_sub_def)

subsection \<open>Lists\<close>

lemma take_drop_append_mid [simp]:
  "length xs = n \<Longrightarrow> take (length ys) (drop n (xs @ ys @ zs)) = ys"
  by simp

lemma overwrite_take [simp]:
  "pos + length bs \<le> length mem \<Longrightarrow>
   take (pos + length bs) (take pos mem @ bs @ drop (pos + length bs) mem) = take pos mem @ bs"
  by (cases bs) auto

subsection \<open>Bits of bytes\<close>

lemma u8_high_bit [simp]: "8 \<le> n \<Longrightarrow> \<not> bit (w :: u8) n"
  using bit_imp_le_length by fastforce

lemma byte_join:
  "push_bit 8 (drop_bit (k + 8) v) OR ucast (ucast (drop_bit k v) :: u8) = drop_bit k (v :: 'a::len word)"
  by (rule bit_word_eqI) (auto simp: bit_simps not_le algebra_simps dest: bit_imp_le_length)

lemma byte_join0: "push_bit 8 (drop_bit 8 v) OR ucast (ucast v :: u8) = (v :: 'a::len word)"
  using byte_join [of 0 v] by simp

lemma byte_top:
  "LENGTH('a) \<le> k + 8 \<Longrightarrow> ucast (ucast (drop_bit k v) :: u8) = drop_bit k (v :: 'a::len word)"
  by (rule bit_word_eqI) (auto simp: bit_simps not_le dest: bit_imp_le_length)

lemmas byte_joins =
  byte_top byte_join [of 8, simplified] byte_join [of 16, simplified] byte_join [of 24, simplified]
  byte_join [of 32, simplified] byte_join [of 40, simplified] byte_join [of 48, simplified]
  byte_join0

text \<open>A big-endian combination of bytes in Horner form, so that \<open>byte_joins\<close> folds it.\<close>

lemma horner4:
  "push_bit 24 a OR push_bit 16 b OR push_bit 8 c OR d =
   push_bit 8 (push_bit 8 (push_bit 8 a OR b) OR c) OR (d :: 'a::len word)"
  by (simp add: push_bit_or or.assoc)

lemma horner8:
  "push_bit 56 a OR push_bit 48 b OR push_bit 40 c OR push_bit 32 d OR
   push_bit 24 e OR push_bit 16 f OR push_bit 8 g OR h =
   push_bit 8 (push_bit 8 (push_bit 8 (push_bit 8 (push_bit 8 (push_bit 8
     (push_bit 8 a OR b) OR c) OR d) OR e) OR f) OR g) OR (h :: 'a::len word)"
  by (simp add: push_bit_or or.assoc)

lemma xor_cancel [simp]: "(x XOR y) XOR y = (x :: 'a::len word)"
  by (simp add: xor.assoc)

end
