(* ===== verification/Stateful.thy ===== *)
theory Stateful
  imports Scy_Prelude
begin

text \<open>
  \<^verbatim>\<open>src/base/include/scy/stateful.h\<close> and \<^verbatim>\<open>stateful.cpp\<close>: states as numbers, and the
  state change protocol every state machine of the program inherits.

  \<^verbatim>\<open>Stateful<T>\<close> is a base class whose derived classes override \<^verbatim>\<open>onStateChange\<close>, so
  \<open>setState\<close> takes the access to the state field, the overridden hook and the emission of the
  \<^verbatim>\<open>StateChange\<close> signal as arguments. What a derived class has to provide for
  \<open>setState\<close> to work is the locale \<open>stateful\<close>.
\<close>

type_synonym state_id = u32

definition stateEquals :: "state_id \<Rightarrow> state_id \<Rightarrow> bool" where
  "stateEquals cur i \<longleftrightarrow> cur = i"

definition stateBetween :: "state_id \<Rightarrow> state_id \<Rightarrow> state_id \<Rightarrow> bool" where
  "stateBetween cur lid rid \<longleftrightarrow> lid \<le> cur \<and> cur \<le> rid"

definition beforeStateChange :: "state_id \<Rightarrow> state_id \<Rightarrow> bool" where
  "beforeStateChange cur new = (if cur = new then False else True)"

definition setState ::
    "('o \<Rightarrow> state_id) \<Rightarrow> (state_id \<Rightarrow> 'o \<Rightarrow> 'o) \<Rightarrow> (state_id \<Rightarrow> state_id \<Rightarrow> 'o \<Rightarrow> 'o) \<Rightarrow>
     (state_id \<Rightarrow> state_id \<Rightarrow> 'o \<Rightarrow> 'o) \<Rightarrow> state_id \<Rightarrow> 'o \<Rightarrow> bool \<times> 'o" where
  "setState get put onStateChange emit new x =
     (if beforeStateChange (get x) new then
        (let oldState = get x;
             x = put new x;
             x = onStateChange (get x) oldState x;
             x = emit (get x) oldState x
         in (True, x))
      else (False, x))"

locale stateful =
  fixes get :: "'o \<Rightarrow> state_id" and put :: "state_id \<Rightarrow> 'o \<Rightarrow> 'o"
    and onStateChange :: "state_id \<Rightarrow> state_id \<Rightarrow> 'o \<Rightarrow> 'o"
    and emit :: "state_id \<Rightarrow> state_id \<Rightarrow> 'o \<Rightarrow> 'o"
  assumes get_put: "get (put i x) = i"
    and get_hook: "get (onStateChange n o' x) = get x"
    and get_emit: "get (emit n o' x) = get x"
begin

text \<open>The call tells whether the state changed; afterwards the object is in the new state.\<close>

lemma setState_result: "fst (setState get put onStateChange emit new x) \<longleftrightarrow> get x \<noteq> new"
  by (simp add: setState_def beforeStateChange_def Let_def)

lemma setState_state: "get (snd (setState get put onStateChange emit new x)) = new"
  by (simp add: setState_def beforeStateChange_def Let_def get_put get_hook get_emit)

lemma setState_same: "get x = new \<Longrightarrow> setState get put onStateChange emit new x = (False, x)"
  by (simp add: setState_def beforeStateChange_def)

lemma setState_change:
  "get x \<noteq> new \<Longrightarrow>
   setState get put onStateChange emit new x =
     (True, emit new (get x) (onStateChange new (get x) (put new x)))"
  by (simp add: setState_def beforeStateChange_def Let_def get_put get_hook)

end

end
