(* ===== verification/Byte_Order.thy ===== *)
theory Byte_Order
  imports Scy_Prelude
begin

text \<open>
  \<^verbatim>\<open>src/base/include/scy/byteorder.h\<close>: storing and loading fixed-width integers in big- and
  little-endian order, and the conversions between host and network order.

  Memory is the list of bytes a pointer refers to, lowest address first. \<open>be\<close> says whether the
  host is big endian (\<^verbatim>\<open>isBigEndian()\<close>): \<open>store\<close> and \<open>load\<close> are the host's own
  representation of an integer variable, which the source reaches with \<^verbatim>\<open>reinterpret_cast\<close>.
\<close>

datatype byte_order = Network | Host

definition get8 :: "bytes \<Rightarrow> nat \<Rightarrow> u8" where
  "get8 memory offset = memory ! offset"

definition setBE16 :: "u16 \<Rightarrow> bytes" where
  "setBE16 v = [ucast (drop_bit 8 v), ucast v]"

definition setBE32 :: "u32 \<Rightarrow> bytes" where
  "setBE32 v = [ucast (drop_bit 24 v), ucast (drop_bit 16 v), ucast (drop_bit 8 v), ucast v]"

definition setBE64 :: "u64 \<Rightarrow> bytes" where
  "setBE64 v =
     [ucast (drop_bit 56 v), ucast (drop_bit 48 v), ucast (drop_bit 40 v), ucast (drop_bit 32 v),
      ucast (drop_bit 24 v), ucast (drop_bit 16 v), ucast (drop_bit 8 v), ucast v]"

definition getBE16 :: "bytes \<Rightarrow> u16" where
  "getBE16 m = push_bit 8 (ucast (get8 m 0)) OR ucast (get8 m 1)"

definition getBE32 :: "bytes \<Rightarrow> u32" where
  "getBE32 m =
     push_bit 24 (ucast (get8 m 0)) OR push_bit 16 (ucast (get8 m 1)) OR
     push_bit 8 (ucast (get8 m 2)) OR ucast (get8 m 3)"

definition getBE64 :: "bytes \<Rightarrow> u64" where
  "getBE64 m =
     push_bit 56 (ucast (get8 m 0)) OR push_bit 48 (ucast (get8 m 1)) OR
     push_bit 40 (ucast (get8 m 2)) OR push_bit 32 (ucast (get8 m 3)) OR
     push_bit 24 (ucast (get8 m 4)) OR push_bit 16 (ucast (get8 m 5)) OR
     push_bit 8 (ucast (get8 m 6)) OR ucast (get8 m 7)"

definition setLE16 :: "u16 \<Rightarrow> bytes" where
  "setLE16 v = [ucast v, ucast (drop_bit 8 v)]"

definition setLE32 :: "u32 \<Rightarrow> bytes" where
  "setLE32 v = [ucast v, ucast (drop_bit 8 v), ucast (drop_bit 16 v), ucast (drop_bit 24 v)]"

definition setLE64 :: "u64 \<Rightarrow> bytes" where
  "setLE64 v =
     [ucast v, ucast (drop_bit 8 v), ucast (drop_bit 16 v), ucast (drop_bit 24 v),
      ucast (drop_bit 32 v), ucast (drop_bit 40 v), ucast (drop_bit 48 v), ucast (drop_bit 56 v)]"

definition getLE16 :: "bytes \<Rightarrow> u16" where
  "getLE16 m = ucast (get8 m 0) OR push_bit 8 (ucast (get8 m 1))"

definition getLE32 :: "bytes \<Rightarrow> u32" where
  "getLE32 m =
     ucast (get8 m 0) OR push_bit 8 (ucast (get8 m 1)) OR
     push_bit 16 (ucast (get8 m 2)) OR push_bit 24 (ucast (get8 m 3))"

definition getLE64 :: "bytes \<Rightarrow> u64" where
  "getLE64 m =
     ucast (get8 m 0) OR push_bit 8 (ucast (get8 m 1)) OR
     push_bit 16 (ucast (get8 m 2)) OR push_bit 24 (ucast (get8 m 3)) OR
     push_bit 32 (ucast (get8 m 4)) OR push_bit 40 (ucast (get8 m 5)) OR
     push_bit 48 (ucast (get8 m 6)) OR push_bit 56 (ucast (get8 m 7))"

text \<open>The host's own representation of an integer in memory.\<close>

definition store16 :: "bool \<Rightarrow> u16 \<Rightarrow> bytes" where
  "store16 be v = (if be then setBE16 v else setLE16 v)"

definition store32 :: "bool \<Rightarrow> u32 \<Rightarrow> bytes" where
  "store32 be v = (if be then setBE32 v else setLE32 v)"

definition store64 :: "bool \<Rightarrow> u64 \<Rightarrow> bytes" where
  "store64 be v = (if be then setBE64 v else setLE64 v)"

definition load16 :: "bool \<Rightarrow> bytes \<Rightarrow> u16" where
  "load16 be m = (if be then getBE16 m else getLE16 m)"

definition load32 :: "bool \<Rightarrow> bytes \<Rightarrow> u32" where
  "load32 be m = (if be then getBE32 m else getLE32 m)"

definition load64 :: "bool \<Rightarrow> bytes \<Rightarrow> u64" where
  "load64 be m = (if be then getBE64 m else getLE64 m)"

text \<open>\<^verbatim>\<open>isBigEndian\<close> looks at the first byte of the integer 1 in memory.\<close>

definition isBigEndian :: "bool \<Rightarrow> bool" where
  "isBigEndian be \<longleftrightarrow> get8 (store32 be 1) 0 = 0"

text \<open>
  \<^verbatim>\<open>hostToNetwork16\<close> fills the memory of a local variable with \<^verbatim>\<open>setBE16\<close> and
  returns the variable; \<^verbatim>\<open>networkToHost16\<close> reads its argument's memory with
  \<^verbatim>\<open>getBE16\<close>. Likewise at 32 and 64 bits.
\<close>

definition hostToNetwork16 :: "bool \<Rightarrow> u16 \<Rightarrow> u16" where
  "hostToNetwork16 be n = load16 be (setBE16 n)"

definition hostToNetwork32 :: "bool \<Rightarrow> u32 \<Rightarrow> u32" where
  "hostToNetwork32 be n = load32 be (setBE32 n)"

definition hostToNetwork64 :: "bool \<Rightarrow> u64 \<Rightarrow> u64" where
  "hostToNetwork64 be n = load64 be (setBE64 n)"

definition networkToHost16 :: "bool \<Rightarrow> u16 \<Rightarrow> u16" where
  "networkToHost16 be n = getBE16 (store16 be n)"

definition networkToHost32 :: "bool \<Rightarrow> u32 \<Rightarrow> u32" where
  "networkToHost32 be n = getBE32 (store32 be n)"

definition networkToHost64 :: "bool \<Rightarrow> u64 \<Rightarrow> u64" where
  "networkToHost64 be n = getBE64 (store64 be n)"

subsection \<open>Little endian is big endian reversed\<close>

lemma setLE_rev:
  "setLE16 a = rev (setBE16 a)" "setLE32 b = rev (setBE32 b)" "setLE64 c = rev (setBE64 c)"
  by (simp_all add: setLE16_def setBE16_def setLE32_def setBE32_def setLE64_def setBE64_def)

lemma getLE_rev:
  "length m = 2 \<Longrightarrow> getLE16 m = getBE16 (rev m)"
  "length n = 4 \<Longrightarrow> getLE32 n = getBE32 (rev n)"
  "length k = 8 \<Longrightarrow> getLE64 k = getBE64 (rev k)"
  by (simp_all add: getLE16_def getBE16_def getLE32_def getBE32_def getLE64_def getBE64_def
      get8_def rev_nth or.commute or.left_commute or.assoc)

lemma isBigEndian_host [simp]: "isBigEndian be = be"
  by (cases be) (simp_all add: isBigEndian_def store32_def setBE32_def setLE32_def get8_def)

lemma length_setBE [simp]:
  "length (setBE16 a) = 2" "length (setBE32 b) = 4" "length (setBE64 c) = 8"
  by (simp_all add: setBE16_def setBE32_def setBE64_def)

lemma length_setLE [simp]:
  "length (setLE16 a) = 2" "length (setLE32 b) = 4" "length (setLE64 c) = 8"
  by (simp_all add: setLE_rev)

lemma length_store [simp]:
  "length (store16 be a) = 2" "length (store32 be b) = 4" "length (store64 be c) = 8"
  by (simp_all add: store16_def store32_def store64_def)

subsection \<open>Loading undoes storing\<close>

lemma getBE64_setBE64: "getBE64 (setBE64 c) = c"
  by (simp add: getBE64_def setBE64_def get8_def horner8 byte_joins)

lemma getBE_setBE [simp, codec_simps]:
  "getBE16 (setBE16 a) = a" "getBE32 (setBE32 b) = b" "getBE64 (setBE64 c) = c"
  by (simp_all add: getBE16_def setBE16_def getBE32_def setBE32_def getBE64_setBE64
      get8_def horner4 byte_joins)

lemma getLE_setLE [simp, codec_simps]:
  "getLE16 (setLE16 a) = a" "getLE32 (setLE32 b) = b" "getLE64 (setLE64 c) = c"
  by (simp_all add: getLE_rev setLE_rev)

lemma load_store [simp, codec_simps]:
  "load16 be (store16 be a) = a" "load32 be (store32 be b) = b" "load64 be (store64 be c) = c"
  by (simp_all add: load16_def store16_def load32_def store32_def load64_def store64_def)

subsection \<open>Storing undoes loading\<close>

lemma length2E: "length m = 2 \<Longrightarrow> (\<And>a b. m = [a, b] \<Longrightarrow> P) \<Longrightarrow> P"
  by (auto simp: numeral_2_eq_2 length_Suc_conv)

lemma length4E: "length m = 4 \<Longrightarrow> (\<And>a b c d. m = [a, b, c, d] \<Longrightarrow> P) \<Longrightarrow> P"
  by (auto simp: eval_nat_numeral length_Suc_conv)

lemma length8E:
  "length m = 8 \<Longrightarrow> (\<And>a b c d e f g h. m = [a, b, c, d, e, f, g, h] \<Longrightarrow> P) \<Longrightarrow> P"
  by (auto simp: eval_nat_numeral length_Suc_conv)

lemma setBE16_getBE16 [simp]: "length m = 2 \<Longrightarrow> setBE16 (getBE16 m) = m"
  by (erule length2E)
    (auto simp: getBE16_def setBE16_def get8_def bit_simps intro!: bit_word_eqI)

lemma setBE32_getBE32 [simp]: "length m = 4 \<Longrightarrow> setBE32 (getBE32 m) = m"
  by (erule length4E)
    (auto simp: getBE32_def setBE32_def get8_def bit_simps intro!: bit_word_eqI)

lemma setBE64_getBE64 [simp]: "length m = 8 \<Longrightarrow> setBE64 (getBE64 m) = m"
  by (erule length8E, simp add: getBE64_def setBE64_def get8_def, intro conjI)
    (rule bit_word_eqI, simp add: bit_simps)+

lemma store_load [simp, codec_simps]:
  "length m = 2 \<Longrightarrow> store16 be (load16 be m) = m"
  "length n = 4 \<Longrightarrow> store32 be (load32 be n) = n"
  "length k = 8 \<Longrightarrow> store64 be (load64 be k) = k"
  by (simp_all add: load16_def store16_def load32_def store32_def load64_def store64_def
      getLE_rev setLE_rev)

subsection \<open>Host order and network order\<close>

lemma store_hostToNetwork [simp]:
  "store16 be (hostToNetwork16 be a) = setBE16 a"
  "store32 be (hostToNetwork32 be b) = setBE32 b"
  "store64 be (hostToNetwork64 be c) = setBE64 c"
  by (simp_all add: hostToNetwork16_def hostToNetwork32_def hostToNetwork64_def)

lemma networkToHost_load [simp]:
  "length m = 2 \<Longrightarrow> networkToHost16 be (load16 be m) = getBE16 m"
  "length n = 4 \<Longrightarrow> networkToHost32 be (load32 be n) = getBE32 n"
  "length k = 8 \<Longrightarrow> networkToHost64 be (load64 be k) = getBE64 k"
  by (simp_all add: networkToHost16_def networkToHost32_def networkToHost64_def)

lemma networkToHost_hostToNetwork [simp, codec_simps]:
  "networkToHost16 be (hostToNetwork16 be a) = a"
  "networkToHost32 be (hostToNetwork32 be b) = b"
  "networkToHost64 be (hostToNetwork64 be c) = c"
  by (simp_all add: networkToHost16_def networkToHost32_def networkToHost64_def)

end
