(* ===== verification/Text_Util.thy ===== *)
theory Text_Util
  imports Scy_Prelude
begin

text \<open>
  Numbers as text: \<^verbatim>\<open>util::itostr\<close> and \<^verbatim>\<open>util::strtoi\<close> of
  \<^verbatim>\<open>src/base/include/scy/util.h\<close>, which the reader, the address class and the protocol
  parsers call, and the character classes of the C library they use. Text is a \<open>string\<close>;
  a byte string is turned into text and back byte by byte.
\<close>

definition text_of_bytes :: "bytes \<Rightarrow> string" where
  "text_of_bytes bs = map (\<lambda>b. char_of (unat b)) bs"

definition bytes_of_text :: "string \<Rightarrow> bytes" where
  "bytes_of_text s = map (\<lambda>c. word_of_nat (of_char c)) s"

definition is_digit :: "char \<Rightarrow> bool" where
  "is_digit c \<longleftrightarrow> 48 \<le> (of_char c :: nat) \<and> (of_char c :: nat) \<le> 57"

definition is_space :: "char \<Rightarrow> bool" where
  "is_space c \<longleftrightarrow> (of_char c :: nat) = 32 \<or> (9 \<le> (of_char c :: nat) \<and> (of_char c :: nat) \<le> 13)"

definition digit_val :: "char \<Rightarrow> nat" where
  "digit_val c = of_char c - 48"

definition digit_char :: "nat \<Rightarrow> char" where
  "digit_char d = char_of (48 + d)"

text \<open>\<^verbatim>\<open>oss << t\<close> of an unsigned integer: its decimal digits, no leading zero.\<close>

fun itostr :: "nat \<Rightarrow> string" where
  "itostr n = (if n < 10 then [digit_char n] else itostr (n div 10) @ [digit_char (n mod 10)])"

declare itostr.simps [simp del]

definition dec_value :: "string \<Rightarrow> nat" where
  "dec_value s = foldl (\<lambda>acc c. 10 * acc + digit_val c) 0 s"

text \<open>
  \<^verbatim>\<open>iss >> x\<close> at an unsigned type of \<open>w\<close> bits: white space, an optional sign, then the
  longest run of digits. No digit, or a value out of range, sets the fail bit, and
  \<^verbatim>\<open>strtoi\<close> returns 0. A minus sign negates modulo \<open>2 ^ w\<close>.
\<close>

definition strtoi :: "nat \<Rightarrow> string \<Rightarrow> nat" where
  "strtoi w s =
     (let s1 = dropWhile is_space s;
          neg = (s1 \<noteq> [] \<and> hd s1 = CHR ''-'');
          s2 = (if s1 \<noteq> [] \<and> (hd s1 = CHR ''-'' \<or> hd s1 = CHR ''+'') then tl s1 else s1);
          ds = takeWhile is_digit s2;
          v = dec_value ds
      in if ds = [] \<or> 2 ^ w \<le> v then 0
         else if neg then (2 ^ w - v) mod 2 ^ w else v)"

subsection \<open>Bytes and text\<close>

lemma text_of_bytes_of_text [simp]: "text_of_bytes (bytes_of_text s) = s"
  by (simp add: text_of_bytes_def bytes_of_text_def comp_def unat_of_nat take_bit_eq_mod)

lemma bytes_of_text_of_bytes [simp]: "bytes_of_text (text_of_bytes bs) = bs"
proof -
  have "unat b mod 256 = unat b" for b :: u8
  proof -
    have "unat b < 2 ^ LENGTH(8)" by (rule unsigned_less)
    then show ?thesis by simp
  qed
  then show ?thesis
    by (simp add: text_of_bytes_def bytes_of_text_def comp_def)
qed

subsection \<open>Decimal digits\<close>

lemma of_char_digit_char [simp]: "d < 10 \<Longrightarrow> (of_char (digit_char d) :: nat) = 48 + d"
  by (simp add: digit_char_def)

lemma digit_char_digit [simp]:
  "d < 10 \<Longrightarrow> is_digit (digit_char d)"
  "d < 10 \<Longrightarrow> digit_val (digit_char d) = d"
  by (simp_all add: is_digit_def digit_val_def)

lemma itostr_nonempty [simp]: "itostr n \<noteq> []"
  by (subst itostr.simps) simp

lemma itostr_digits: "list_all is_digit (itostr n)"
proof (induction n rule: itostr.induct)
  case (1 n)
  then show ?case by (simp add: itostr.simps [of n])
qed

lemma itostr_only_digits: "\<not> is_digit c \<Longrightarrow> c \<notin> set (itostr n)"
  using itostr_digits [of n] by (auto simp: list_all_iff)

lemma dec_value_snoc [simp]: "dec_value (s @ [c]) = 10 * dec_value s + digit_val c"
  by (simp add: dec_value_def)

lemma dec_value_itostr [simp, codec_simps]: "dec_value (itostr n) = n"
proof (induction n rule: itostr.induct)
  case (1 n)
  show ?case
  proof (cases "n < 10")
    case True
    then show ?thesis using dec_value_snoc [of "[]"]
      by (simp add: itostr.simps [of n] dec_value_def)
  next
    case False
    with 1 show ?thesis by (simp add: itostr.simps [of n])
  qed
qed

lemma is_digit_not_space: "is_digit c \<Longrightarrow> \<not> is_space c"
  by (auto simp: is_digit_def is_space_def)

lemma is_digit_not_sign: "is_digit c \<Longrightarrow> c \<noteq> CHR ''-'' \<and> c \<noteq> CHR ''+''"
  by (auto simp: is_digit_def)

lemma digits_only:
  assumes "list_all is_digit s"
  shows "takeWhile is_digit s = s" and "dropWhile is_space s = s"
proof -
  show "takeWhile is_digit s = s"
    using assms by (auto simp: takeWhile_eq_all_conv list_all_iff)
  show "dropWhile is_space s = s"
    using assms by (cases s) (auto dest: is_digit_not_space)
qed

text \<open>Parsing the printed form of a number that fits gives the number back.\<close>

lemma strtoi_itostr [codec_simps]: "n < 2 ^ w \<Longrightarrow> strtoi w (itostr n) = n"
proof -
  assume n: "n < 2 ^ w"
  have d: "list_all is_digit (itostr n)" by (rule itostr_digits)
  then have hd: "is_digit (hd (itostr n))"
    by (cases "itostr n") auto
  then have "hd (itostr n) \<noteq> CHR ''-''" "hd (itostr n) \<noteq> CHR ''+''"
    by (auto dest: is_digit_not_sign)
  with n show ?thesis
    by (simp add: strtoi_def Let_def digits_only [OF d])
qed

lemma strtoi_bound: "strtoi w s < 2 ^ w"
  by (simp add: strtoi_def Let_def)

end
