(* ===== verification/Bit_Buffer.thy ===== *)
theory Bit_Buffer
  imports Byte_Order Text_Util
begin

text \<open>
  \<^verbatim>\<open>src/base/src/buffer.cpp\<close>: the binary reader \<^verbatim>\<open>BitReader\<close>, the writer
  \<^verbatim>\<open>BitWriter\<close> over memory of fixed size, and \<^verbatim>\<open>DynamicBitWriter\<close>, which inserts
  into a growing vector. Every wire format of the library is read and written through them.

  A reader holds the memory its pointer refers to, a position and a limit. The position and the
  limit are \<^verbatim>\<open>size_t\<close> values, and \<^verbatim>\<open>available()\<close> is their wrapping difference. A
  read that passes the check of the source but leaves the memory is \<open>Undefined\<close>. The writers
  share one record: \<open>wr_dynamic\<close> is \<open>None\<close> for a \<^verbatim>\<open>BitWriter\<close> (\<open>wr_mem\<close> is
  the memory of \<open>wr_limit\<close> bytes) and \<open>Some offset\<close> for a \<^verbatim>\<open>DynamicBitWriter\<close>
  (\<open>wr_mem\<close> is the vector). \<open>be\<close> is the byte order of the host.
\<close>

subsection \<open>BitReader\<close>

record bit_reader =
  rd_bytes :: bytes
  rd_position :: nat
  rd_limit :: nat
  rd_order :: byte_order

definition rd_init :: "bytes \<Rightarrow> nat \<Rightarrow> byte_order \<Rightarrow> bit_reader" where
  "rd_init bs n order =
     \<lparr>rd_bytes = bs, rd_position = 0, rd_limit = n, rd_order = order\<rparr>"

definition rd_of_buffer :: "bytes \<Rightarrow> bit_reader" where
  "rd_of_buffer buf = rd_init buf (length buf) Network"

definition rd_seek :: "bit_reader \<Rightarrow> nat \<Rightarrow> bit_reader result" where
  "rd_seek r val =
     (if val > rd_limit r then Inl OutOfRange else Inr (r\<lparr>rd_position := val\<rparr>))"

definition rd_skip :: "bit_reader \<Rightarrow> nat \<Rightarrow> bit_reader result" where
  "rd_skip r val =
     (if val > rd_limit r then Inl OutOfRange
      else Inr (r\<lparr>rd_position := size_add (rd_position r) val\<rparr>))"

definition rd_available :: "bit_reader \<Rightarrow> nat" where
  "rd_available r = size_sub (rd_limit r) (rd_position r)"

text \<open>The bytes from the current position: what a copy of \<open>len\<close> bytes from there reads.\<close>

definition rd_substr :: "bit_reader \<Rightarrow> nat \<Rightarrow> bytes result" where
  "rd_substr r len =
     (if rd_position r + len > length (rd_bytes r) then Inl Undefined
      else Inr (take len (drop (rd_position r) (rd_bytes r))))"

definition rd_toString :: "bit_reader \<Rightarrow> bytes result" where
  "rd_toString r = rd_substr r (rd_available r)"

definition rd_get :: "bit_reader \<Rightarrow> nat \<Rightarrow> (bytes \<times> bit_reader) result" where
  "rd_get r len =
     (if len > rd_available r then Inl OutOfRange
      else bind_r (rd_substr r len) (\<lambda>bs.
        Inr (bs, r\<lparr>rd_position := size_add (rd_position r) len\<rparr>)))"

definition rd_get_string :: "bit_reader \<Rightarrow> bytes \<Rightarrow> nat \<Rightarrow> (bytes \<times> bit_reader) result" where
  "rd_get_string r val len =
     (if len > rd_available r then Inl OutOfRange
      else bind_r (rd_substr r len) (\<lambda>bs.
        Inr (val @ bs, r\<lparr>rd_position := size_add (rd_position r) len\<rparr>)))"

definition rd_getU8 :: "bit_reader \<Rightarrow> (u8 \<times> bit_reader) result" where
  "rd_getU8 r = bind_r (rd_get r 1) (\<lambda>(m, r'). Inr (get8 m 0, r'))"

definition rd_getU16 :: "bool \<Rightarrow> bit_reader \<Rightarrow> (u16 \<times> bit_reader) result" where
  "rd_getU16 be r = bind_r (rd_get r 2) (\<lambda>(m, r').
     let v = load16 be m in Inr (if rd_order r = Network then networkToHost16 be v else v, r'))"

text \<open>Three bytes go into a zeroed 32-bit variable, at offset 1 in network order or on a
  big-endian host, at offset 0 otherwise.\<close>

definition rd_getU24 :: "bool \<Rightarrow> bit_reader \<Rightarrow> (u32 \<times> bit_reader) result" where
  "rd_getU24 be r = bind_r (rd_get r 3) (\<lambda>(m, r').
     let v = load32 be (if rd_order r = Network \<or> be then 0 # m else m @ [0])
     in Inr (if rd_order r = Network then networkToHost32 be v else v, r'))"

definition rd_getU32 :: "bool \<Rightarrow> bit_reader \<Rightarrow> (u32 \<times> bit_reader) result" where
  "rd_getU32 be r = bind_r (rd_get r 4) (\<lambda>(m, r').
     let v = load32 be m in Inr (if rd_order r = Network then networkToHost32 be v else v, r'))"

definition rd_getU64 :: "bool \<Rightarrow> bit_reader \<Rightarrow> (u64 \<times> bit_reader) result" where
  "rd_getU64 be r = bind_r (rd_get r 8) (\<lambda>(m, r').
     let v = load64 be m in Inr (if rd_order r = Network then networkToHost64 be v else v, r'))"

definition rd_peek :: "bit_reader \<Rightarrow> u8 result" where
  "rd_peek r =
     (if rd_limit r > rd_position r then
        (if rd_position r < length (rd_bytes r) then Inr (rd_bytes r ! rd_position r)
         else Inl Undefined)
      else Inr 0)"

text \<open>The peeking functions: read, put the position back, and answer 0 when the read threw.\<close>

definition rd_peek_with ::
    "(bit_reader \<Rightarrow> ('a::zero \<times> bit_reader) result) \<Rightarrow> nat \<Rightarrow> bit_reader \<Rightarrow> ('a \<times> bit_reader) result"
  where
  "rd_peek_with getter width r =
     (case getter r of
        Inr (v, r') \<Rightarrow> Inr (v, r'\<lparr>rd_position := size_sub (rd_position r') width\<rparr>)
      | Inl OutOfRange \<Rightarrow> Inr (0, r)
      | Inl e \<Rightarrow> Inl e)"

definition rd_peekU8 :: "bit_reader \<Rightarrow> (u8 \<times> bit_reader) result" where
  "rd_peekU8 = rd_peek_with rd_getU8 1"

definition rd_peekU16 :: "bool \<Rightarrow> bit_reader \<Rightarrow> (u16 \<times> bit_reader) result" where
  "rd_peekU16 be = rd_peek_with (rd_getU16 be) 2"

definition rd_peekU24 :: "bool \<Rightarrow> bit_reader \<Rightarrow> (u32 \<times> bit_reader) result" where
  "rd_peekU24 be = rd_peek_with (rd_getU24 be) 3"

definition rd_peekU32 :: "bool \<Rightarrow> bit_reader \<Rightarrow> (u32 \<times> bit_reader) result" where
  "rd_peekU32 be = rd_peek_with (rd_getU32 be) 4"

definition rd_peekU64 :: "bool \<Rightarrow> bit_reader \<Rightarrow> (u64 \<times> bit_reader) result" where
  "rd_peekU64 be = rd_peek_with (rd_getU64 be) 8"

subsection \<open>BitReader: text\<close>

text \<open>
  The scanning loop \<^verbatim>\<open>while (_limit > _position + len && P(_bytes[_position + len])) len++\<close>
  of the text functions, and their common tail that moves the position.
\<close>

function rd_scan :: "(u8 \<Rightarrow> bool) \<Rightarrow> bit_reader \<Rightarrow> nat \<Rightarrow> nat result" where
  "rd_scan P r len =
     (if rd_limit r > rd_position r + len then
        (if rd_position r + len \<ge> length (rd_bytes r) then Inl Undefined
         else if P (rd_bytes r ! (rd_position r + len)) then rd_scan P r (Suc len)
         else Inr len)
      else Inr len)"
  by pat_completeness auto
termination
  by (relation "measure (\<lambda>(P, r, len). rd_limit r - (rd_position r + len))") auto

declare rd_scan.simps [simp del]

definition rd_advance :: "bit_reader \<Rightarrow> nat \<Rightarrow> bit_reader" where
  "rd_advance r len =
     r\<lparr>rd_position := (if rd_limit r > rd_position r + len then rd_position r + len
                       else rd_limit r)\<rparr>"

definition word_char :: "u8 \<Rightarrow> bool" where
  "word_char b \<longleftrightarrow> b \<noteq> 32 \<and> b \<noteq> 9 \<and> b \<noteq> 10 \<and> b \<noteq> 13"

definition rd_skipToChar :: "u8 \<Rightarrow> bit_reader \<Rightarrow> (nat \<times> bit_reader) result" where
  "rd_skipToChar c r =
     bind_r (rd_scan (\<lambda>b. b \<noteq> c) r 0) (\<lambda>len. Inr (len, rd_advance r len))"

definition rd_skipWhitespace :: "bit_reader \<Rightarrow> (nat \<times> bit_reader) result" where
  "rd_skipWhitespace r =
     bind_r (rd_scan (\<lambda>b. b = 32) r 0) (\<lambda>len. Inr (len, rd_advance r len))"

definition rd_skipToNextLine :: "bit_reader \<Rightarrow> (nat \<times> bit_reader) result" where
  "rd_skipToNextLine r =
     bind_r (rd_scan (\<lambda>b. b \<noteq> 10) r 0) (\<lambda>len.
       let len = Suc len in Inr (len, rd_advance r len))"

definition rd_skipNextWord :: "bit_reader \<Rightarrow> (nat \<times> bit_reader) result" where
  "rd_skipNextWord r =
     bind_r (rd_skipWhitespace r) (\<lambda>(len, r).
     bind_r (rd_scan word_char r len) (\<lambda>len.
       Inr (len, rd_advance r len)))"

definition rd_readToNext :: "bytes \<Rightarrow> u8 \<Rightarrow> bit_reader \<Rightarrow> (nat \<times> bytes \<times> bit_reader) result" where
  "rd_readToNext val c r =
     bind_r (rd_scan (\<lambda>b. b \<noteq> c) r 0) (\<lambda>len.
     bind_r (rd_substr r len) (\<lambda>bs.
       Inr (len, val @ bs, rd_advance r len)))"

definition rd_readNextWord :: "bytes \<Rightarrow> bit_reader \<Rightarrow> (nat \<times> bytes \<times> bit_reader) result" where
  "rd_readNextWord val r =
     bind_r (rd_skipWhitespace r) (\<lambda>(len, r).
     bind_r (rd_scan word_char r len) (\<lambda>len.
     bind_r (rd_substr r len) (\<lambda>bs.
       Inr (len, val @ bs, rd_advance r len))))"

definition rd_readNextNumber :: "nat \<Rightarrow> bit_reader \<Rightarrow> (nat \<times> nat \<times> bit_reader) result" where
  "rd_readNextNumber val r =
     bind_r (rd_skipWhitespace r) (\<lambda>(len, r).
     bind_r (rd_scan (\<lambda>b. 48 \<le> b \<and> b \<le> 57) r len) (\<lambda>len.
       if len = 0 then Inr (len, val, rd_advance r len)
       else bind_r (rd_substr r len) (\<lambda>bs.
         Inr (len, strtoi 32 (text_of_bytes bs), rd_advance r len))))"

definition rd_readLine :: "bytes \<Rightarrow> bit_reader \<Rightarrow> (nat \<times> bytes \<times> bit_reader) result" where
  "rd_readLine val r =
     bind_r (rd_scan (\<lambda>b. b \<noteq> 10) r 0) (\<lambda>len.
     bind_r (rd_substr r len) (\<lambda>bs.
       let len = Suc len in Inr (len, val @ bs, rd_advance r len)))"

subsection \<open>BitWriter and DynamicBitWriter\<close>

record bit_writer =
  wr_mem :: bytes
  wr_position :: nat
  wr_limit :: nat
  wr_order :: byte_order
  wr_dynamic :: "nat option"

definition wr_init :: "bytes \<Rightarrow> nat \<Rightarrow> byte_order \<Rightarrow> bit_writer" where
  "wr_init mem n order =
     \<lparr>wr_mem = mem, wr_position = 0, wr_limit = n, wr_order = order, wr_dynamic = None\<rparr>"

text \<open>
  \<^verbatim>\<open>BitWriter(Buffer&)\<close> writes into the vector's storage up to its capacity, which is 256
  when it was 0; \<open>storage\<close> is that storage. \<^verbatim>\<open>DynamicBitWriter(Buffer&, offset)\<close> starts
  with the same limit (the capacity \<open>cap\<close>) and inserts at \<open>offset\<close>.
\<close>

definition wr_of_buffer :: "bytes \<Rightarrow> bit_writer" where
  "wr_of_buffer storage =
     (let storage = (if length storage = 0 then replicate 256 0 else storage)
      in wr_init storage (length storage) Network)"

definition dwr_init :: "bytes \<Rightarrow> nat \<Rightarrow> nat \<Rightarrow> byte_order \<Rightarrow> bit_writer" where
  "dwr_init buf cap offset order =
     \<lparr>wr_mem = buf, wr_position = 0, wr_limit = (if cap = 0 then 256 else cap),
      wr_order = order, wr_dynamic = Some offset\<rparr>"

definition wr_available :: "bit_writer \<Rightarrow> nat" where
  "wr_available w = size_sub (wr_limit w) (wr_position w)"

definition wr_skip :: "bit_writer \<Rightarrow> nat \<Rightarrow> bit_writer result" where
  "wr_skip w val =
     (if size_add (wr_position w) val > wr_limit w then Inl OutOfRange
      else Inr (w\<lparr>wr_position := size_add (wr_position w) val\<rparr>))"

definition wr_seek :: "bit_writer \<Rightarrow> nat \<Rightarrow> bit_writer result" where
  "wr_seek w val =
     (if val > wr_limit w then Inl OutOfRange else Inr (w\<lparr>wr_position := val\<rparr>))"

definition wr_toString :: "bit_writer \<Rightarrow> bytes result" where
  "wr_toString w =
     (if wr_position w > length (wr_mem w) then Inl Undefined
      else Inr (take (wr_position w) (wr_mem w)))"

definition bw_put :: "bit_writer \<Rightarrow> bytes \<Rightarrow> bit_writer result" where
  "bw_put w val =
     (let len = length val; pos = wr_position w in
      if size_add pos len > wr_limit w then Inl OutOfRange
      else if pos + len > length (wr_mem w) then Inl Undefined
      else Inr (w\<lparr>wr_mem := take pos (wr_mem w) @ val @ drop (pos + len) (wr_mem w),
                  wr_position := size_add pos len\<rparr>))"

text \<open>
  The vector grows at the position. Taking the address of its first byte afterwards is counted as
  harmless also when nothing was put into an empty vector.
\<close>

definition dw_put :: "nat \<Rightarrow> bit_writer \<Rightarrow> bytes \<Rightarrow> bit_writer result" where
  "dw_put offset w val =
     (let at = offset + wr_position w in
      if at > length (wr_mem w) then Inl Undefined
      else let mem = take at (wr_mem w) @ val @ drop at (wr_mem w)
           in Inr (w\<lparr>wr_mem := mem, wr_limit := length mem,
                     wr_position := size_add (wr_position w) (length val)\<rparr>))"

text \<open>\<^verbatim>\<open>put\<close> and \<^verbatim>\<open>update\<close> are virtual: the class of the writer selects them.\<close>

definition wr_put :: "bit_writer \<Rightarrow> bytes \<Rightarrow> bit_writer result" where
  "wr_put w val = (case wr_dynamic w of None \<Rightarrow> bw_put w val | Some off \<Rightarrow> dw_put off w val)"

definition wr_putU8 :: "bit_writer \<Rightarrow> u8 \<Rightarrow> bit_writer result" where
  "wr_putU8 w val = wr_put w [val]"

definition wr_putU16 :: "bool \<Rightarrow> bit_writer \<Rightarrow> u16 \<Rightarrow> bit_writer result" where
  "wr_putU16 be w val =
     (let v = (if wr_order w = Network then hostToNetwork16 be val else val)
      in wr_put w (store16 be v))"

definition wr_putU24 :: "bool \<Rightarrow> bit_writer \<Rightarrow> u32 \<Rightarrow> bit_writer result" where
  "wr_putU24 be w val =
     (let v = (if wr_order w = Network then hostToNetwork32 be val else val);
          m = store32 be v
      in wr_put w (if wr_order w = Network \<or> be then take 3 (drop 1 m) else take 3 m))"

definition wr_putU32 :: "bool \<Rightarrow> bit_writer \<Rightarrow> u32 \<Rightarrow> bit_writer result" where
  "wr_putU32 be w val =
     (let v = (if wr_order w = Network then hostToNetwork32 be val else val)
      in wr_put w (store32 be v))"

definition wr_putU64 :: "bool \<Rightarrow> bit_writer \<Rightarrow> u64 \<Rightarrow> bit_writer result" where
  "wr_putU64 be w val =
     (let v = (if wr_order w = Network then hostToNetwork64 be val else val)
      in wr_put w (store64 be v))"

definition bw_update :: "bit_writer \<Rightarrow> bytes \<Rightarrow> nat \<Rightarrow> (bool \<times> bit_writer) result" where
  "bw_update w val pos =
     (let len = length val in
      if size_add pos len > wr_available w then Inr (False, w)
      else if pos + len > length (wr_mem w) then Inl Undefined
      else Inr (True, w\<lparr>wr_mem := take pos (wr_mem w) @ val @ drop (pos + len) (wr_mem w)\<rparr>))"

definition dw_update :: "nat \<Rightarrow> bit_writer \<Rightarrow> bytes \<Rightarrow> nat \<Rightarrow> (bool \<times> bit_writer) result" where
  "dw_update offset w val pos =
     (if size_add pos (length val) > wr_available w then Inr (False, w)
      else if offset + pos > length (wr_mem w) then Inl Undefined
      else Inr (True, w\<lparr>wr_mem := take (offset + pos) (wr_mem w) @ val @
                                   drop (offset + pos) (wr_mem w)\<rparr>))"

definition wr_update :: "bit_writer \<Rightarrow> bytes \<Rightarrow> nat \<Rightarrow> (bool \<times> bit_writer) result" where
  "wr_update w val pos =
     (case wr_dynamic w of None \<Rightarrow> bw_update w val pos | Some off \<Rightarrow> dw_update off w val pos)"

definition wr_updateU8 :: "bit_writer \<Rightarrow> u8 \<Rightarrow> nat \<Rightarrow> (bool \<times> bit_writer) result" where
  "wr_updateU8 w val pos = wr_update w [val] pos"

definition wr_updateU16 :: "bool \<Rightarrow> bit_writer \<Rightarrow> u16 \<Rightarrow> nat \<Rightarrow> (bool \<times> bit_writer) result" where
  "wr_updateU16 be w val pos =
     (let v = (if wr_order w = Network then hostToNetwork16 be val else val)
      in wr_update w (store16 be v) pos)"

definition wr_updateU24 :: "bool \<Rightarrow> bit_writer \<Rightarrow> u32 \<Rightarrow> nat \<Rightarrow> (bool \<times> bit_writer) result" where
  "wr_updateU24 be w val pos =
     (let v = (if wr_order w = Network then hostToNetwork32 be val else val);
          m = store32 be v
      in wr_update w (if wr_order w = Network \<or> be then take 3 (drop 1 m) else take 3 m) pos)"

definition wr_updateU32 :: "bool \<Rightarrow> bit_writer \<Rightarrow> u32 \<Rightarrow> nat \<Rightarrow> (bool \<times> bit_writer) result" where
  "wr_updateU32 be w val pos =
     (let v = (if wr_order w = Network then hostToNetwork32 be val else val)
      in wr_update w (store32 be v) pos)"

definition wr_updateU64 :: "bool \<Rightarrow> bit_writer \<Rightarrow> u64 \<Rightarrow> nat \<Rightarrow> (bool \<times> bit_writer) result" where
  "wr_updateU64 be w val pos =
     (let v = (if wr_order w = Network then hostToNetwork64 be val else val)
      in wr_update w (store64 be v) pos)"


subsection \<open>A reader within its memory\<close>

definition reader_ok :: "bit_reader \<Rightarrow> bool" where
  "reader_ok r \<longleftrightarrow> rd_position r \<le> rd_limit r \<and> rd_limit r \<le> length (rd_bytes r) \<and>
                 rd_limit r < size_max"

definition rd_rest :: "bit_reader \<Rightarrow> bytes" where
  "rd_rest r = drop (rd_position r) (take (rd_limit r) (rd_bytes r))"

text \<open>The reader that has consumed \<open>pre\<close> and has \<open>suf\<close> in front of it.\<close>

definition rd_at :: "bytes \<Rightarrow> bytes \<Rightarrow> bit_reader" where
  "rd_at pre suf = \<lparr>rd_bytes = pre @ suf, rd_position = length pre,
                    rd_limit = length pre + length suf, rd_order = Network\<rparr>"

lemma rd_at_sel [simp]:
  "rd_bytes (rd_at pre suf) = pre @ suf" "rd_position (rd_at pre suf) = length pre"
  "rd_limit (rd_at pre suf) = length pre + length suf" "rd_order (rd_at pre suf) = Network"
  by (simp_all add: rd_at_def)

lemma rd_of_buffer_at: "rd_of_buffer buf = rd_at [] buf"
  by (simp add: rd_of_buffer_def rd_init_def rd_at_def)

lemma rd_at_ok: "length pre + length suf < size_max \<Longrightarrow> reader_ok (rd_at pre suf)"
  by (simp add: reader_ok_def)

lemma rd_at_position:
  "(rd_at pre (bs @ suf))\<lparr>rd_position := length pre + length bs\<rparr> = rd_at (pre @ bs) suf"
  by (simp add: rd_at_def)

lemma rd_available_ok: "reader_ok r \<Longrightarrow> rd_available r = rd_limit r - rd_position r"
  by (simp add: reader_ok_def rd_available_def size_sub_le)

lemma rd_rest_length: "reader_ok r \<Longrightarrow> length (rd_rest r) = rd_limit r - rd_position r"
  by (simp add: reader_ok_def rd_rest_def)

lemma rd_get_ok:
  assumes "reader_ok r"
  shows "rd_get r n =
    (if n \<le> length (rd_rest r)
     then Inr (take n (rd_rest r), r\<lparr>rd_position := rd_position r + n\<rparr>) else Inl OutOfRange)"
  using assms
  by (auto simp: rd_get_def rd_available_ok rd_rest_length rd_substr_def)
    (auto simp: reader_ok_def rd_rest_def size_add_small drop_take min_def)

lemma rd_getU_error:
  assumes "reader_ok r"
  shows "length (rd_rest r) < 1 \<Longrightarrow> rd_getU8 r = Inl OutOfRange"
    and "length (rd_rest r) < 2 \<Longrightarrow> rd_getU16 be r = Inl OutOfRange"
    and "length (rd_rest r) < 3 \<Longrightarrow> rd_getU24 be r = Inl OutOfRange"
    and "length (rd_rest r) < 4 \<Longrightarrow> rd_getU32 be r = Inl OutOfRange"
    and "length (rd_rest r) < 8 \<Longrightarrow> rd_getU64 be r = Inl OutOfRange"
  using assms
  by (simp_all add: rd_getU8_def rd_getU16_def rd_getU24_def rd_getU32_def rd_getU64_def rd_get_ok)

text \<open>Reading what stands at the position of \<open>rd_at\<close>.\<close>

lemma rd_get_at:
  assumes "length pre + length bs + length suf < size_max"
  shows "rd_get (rd_at pre (bs @ suf)) (length bs) = Inr (bs, rd_at (pre @ bs) suf)"
proof -
  from assms have "reader_ok (rd_at pre (bs @ suf))" by (simp add: rd_at_ok)
  then show ?thesis
    by (simp add: rd_get_ok rd_rest_def rd_at_position [symmetric])
qed

lemma rd_get_string_at:
  assumes "length pre + length bs + length suf < size_max"
  shows "rd_get_string (rd_at pre (bs @ suf)) val (length bs) = Inr (val @ bs, rd_at (pre @ bs) suf)"
  using rd_get_at [OF assms]
  by (auto simp: rd_get_def rd_get_string_def bind_r_eq_Inr split: if_splits)

lemma rd_getU8_at [simp]:
  "length pre + 1 + length suf < size_max \<Longrightarrow>
   rd_getU8 (rd_at pre (b # suf)) = Inr (b, rd_at (pre @ [b]) suf)"
  using rd_get_at [of pre "[b]" suf] by (simp add: rd_getU8_def get8_def)

lemma rd_getU16_at [simp]:
  "length pre + 2 + length suf < size_max \<Longrightarrow>
   rd_getU16 be (rd_at pre (setBE16 v @ suf)) = Inr (v, rd_at (pre @ setBE16 v) suf)"
  using rd_get_at [of pre "setBE16 v" suf] by (simp add: rd_getU16_def)

lemma rd_getU32_at [simp]:
  "length pre + 4 + length suf < size_max \<Longrightarrow>
   rd_getU32 be (rd_at pre (setBE32 v @ suf)) = Inr (v, rd_at (pre @ setBE32 v) suf)"
  using rd_get_at [of pre "setBE32 v" suf] by (simp add: rd_getU32_def)

lemma rd_getU64_at [simp]:
  "length pre + 8 + length suf < size_max \<Longrightarrow>
   rd_getU64 be (rd_at pre (setBE64 v @ suf)) = Inr (v, rd_at (pre @ setBE64 v) suf)"
  using rd_get_at [of pre "setBE64 v" suf] by (simp add: rd_getU64_def)

text \<open>The three low-order bytes of a 32-bit value, in network order.\<close>

definition bytes24 :: "u32 \<Rightarrow> bytes" where
  "bytes24 v = tl (setBE32 v)"

lemma length_bytes24 [simp]: "length (bytes24 v) = 3"
  by (simp add: bytes24_def)

lemma bytes24_setBE32: "unat v < 2 ^ 24 \<Longrightarrow> 0 # bytes24 v = setBE32 v"
proof -
  assume "unat v < 2 ^ 24"
  then have "unat (drop_bit 24 v) = 0"
    by (simp only: unat_drop_bit_eq) (simp add: drop_bit_eq_div)
  then have "drop_bit 24 v = 0"
    by (simp only: unat_eq_zero)
  then show ?thesis by (simp add: bytes24_def setBE32_def)
qed

lemma rd_getU24_at:
  "unat v < 2 ^ 24 \<Longrightarrow> length pre + 3 + length suf < size_max \<Longrightarrow>
   rd_getU24 be (rd_at pre (bytes24 v @ suf)) = Inr (v, rd_at (pre @ bytes24 v) suf)"
  using rd_get_at [of pre "bytes24 v" suf]
  by (simp add: rd_getU24_def bytes24_setBE32)

lemma rd_skip_at:
  "length pre + length bs + length suf < size_max \<Longrightarrow>
   rd_skip (rd_at pre (bs @ suf)) (length bs) = Inr (rd_at (pre @ bs) suf)"
  by (simp add: rd_skip_def size_add_small rd_at_position)

subsection \<open>Text scanning\<close>

lemma rd_scan_ok:
  assumes "reader_ok r"
  shows "rd_scan P r len = Inr (len + length (takeWhile P (drop len (rd_rest r))))"
  using assms
proof (induction P r len rule: rd_scan.induct)
  case (1 P r len)
  show ?case
  proof (cases "rd_position r + len < rd_limit r")
    case False
    then show ?thesis by (subst rd_scan.simps) (simp add: rd_rest_def)
  next
    case True
    with 1(2) have at: "drop len (rd_rest r) =
        rd_bytes r ! (rd_position r + len) # drop (Suc len) (rd_rest r)"
      using Cons_nth_drop_Suc [of "rd_position r + len" "take (rd_limit r) (rd_bytes r)"]
      by (simp add: reader_ok_def rd_rest_def add.commute)
    have len: "rd_position r + len < length (rd_bytes r)"
      using True 1(2) by (simp add: reader_ok_def)
    show ?thesis
      using 1(1) [OF True] 1(2) True at len
      by (subst rd_scan.simps) (simp add: not_le [symmetric])
  qed
qed

lemma rd_substr_ok:
  "reader_ok r \<Longrightarrow> n \<le> length (rd_rest r) \<Longrightarrow> rd_substr r n = Inr (take n (rd_rest r))"
  by (simp add: rd_rest_length) (auto simp: rd_substr_def reader_ok_def rd_rest_def drop_take)

lemma rd_advance_ok: "reader_ok r \<Longrightarrow> reader_ok (rd_advance r n)"
  by (auto simp: reader_ok_def rd_advance_def)

lemma rd_rest_advance: "reader_ok r \<Longrightarrow> rd_rest (rd_advance r n) = drop n (rd_rest r)"
  by (auto simp: reader_ok_def rd_advance_def rd_rest_def add.commute)

text \<open>The reader at position \<open>p\<close> of a whole buffer.\<close>

definition rd_pos :: "bytes \<Rightarrow> nat \<Rightarrow> bit_reader" where
  "rd_pos buf p = (rd_of_buffer buf)\<lparr>rd_position := p\<rparr>"

lemma rd_pos_sel [simp]:
  "rd_bytes (rd_pos buf p) = buf" "rd_position (rd_pos buf p) = p"
  "rd_limit (rd_pos buf p) = length buf" "rd_order (rd_pos buf p) = Network"
  "(rd_pos buf p)\<lparr>rd_position := q\<rparr> = rd_pos buf q"
  by (simp_all add: rd_pos_def rd_of_buffer_def rd_init_def)

lemma rd_of_buffer_pos: "rd_of_buffer buf = rd_pos buf 0"
  by (simp add: rd_pos_def rd_of_buffer_def rd_init_def)

lemma rd_pos_ok: "p \<le> length buf \<Longrightarrow> length buf < size_max \<Longrightarrow> reader_ok (rd_pos buf p)"
  by (simp add: reader_ok_def)

lemma rd_rest_pos [simp]: "rd_rest (rd_pos buf p) = drop p buf"
  by (simp add: rd_rest_def)

lemma rd_get_pos:
  assumes "p \<le> length buf" and "length buf < size_max"
  shows "rd_get (rd_pos buf p) n =
    (if p + n \<le> length buf then Inr (take n (drop p buf), rd_pos buf (p + n)) else Inl OutOfRange)"
  using assms by (auto simp: rd_get_ok rd_pos_ok)

lemma rd_get_string_pos:
  assumes "p \<le> length buf" and "length buf < size_max"
  shows "rd_get_string (rd_pos buf p) val n =
    (if p + n \<le> length buf then Inr (val @ take n (drop p buf), rd_pos buf (p + n)) else Inl OutOfRange)"
  using rd_get_pos [OF assms, of n]
  by (auto simp: rd_get_string_def rd_get_def result_convs split: if_splits)

lemma rd_getU_pos:
  assumes "p \<le> length buf" and "length buf < size_max"
  shows "rd_getU8 (rd_pos buf p) =
      (if p + 1 \<le> length buf then Inr (buf ! p, rd_pos buf (p + 1)) else Inl OutOfRange)"
    and "rd_getU16 be (rd_pos buf p) =
      (if p + 2 \<le> length buf then Inr (getBE16 (take 2 (drop p buf)), rd_pos buf (p + 2)) else Inl OutOfRange)"
    and "rd_getU32 be (rd_pos buf p) =
      (if p + 4 \<le> length buf then Inr (getBE32 (take 4 (drop p buf)), rd_pos buf (p + 4)) else Inl OutOfRange)"
    and "rd_getU64 be (rd_pos buf p) =
      (if p + 8 \<le> length buf then Inr (getBE64 (take 8 (drop p buf)), rd_pos buf (p + 8)) else Inl OutOfRange)"
  using assms
  by (simp_all add: rd_getU8_def rd_getU16_def rd_getU32_def rd_getU64_def rd_get_pos get8_def Let_def)

subsection \<open>Byte sinks\<close>

text \<open>
  What the serialisers of the library rely on when they write: \<open>holds w bs n\<close> says that the
  writer has received exactly \<open>bs\<close> so far and takes \<open>n\<close> more bytes. Both writer classes
  provide it; the serialisers (STUN attributes and messages, WebSocket frames) are verified once
  against this interface.
\<close>

locale byte_sink =
  fixes holds :: "bit_writer \<Rightarrow> bytes \<Rightarrow> nat \<Rightarrow> bool"
  assumes holds_order: "holds w bs n \<Longrightarrow> wr_order w = Network"
    and holds_position: "holds w bs n \<Longrightarrow> wr_position w = length bs"
    and holds_mem: "holds w bs n \<Longrightarrow> take (length bs) (wr_mem w) = bs"
    and holds_size: "holds w bs n \<Longrightarrow> length (wr_mem w) < size_max"
    and put_holds: "holds w bs (length cs + n) \<Longrightarrow>
      \<exists>w'. wr_put w cs = Inr w' \<and> holds w' (bs @ cs) n"
begin

lemma holds_toString: "holds w bs n \<Longrightarrow> wr_toString w = Inr bs"
  using holds_mem [of w bs n] holds_position [of w bs n]
  by (auto simp: wr_toString_def dest!: arg_cong [where f = length])

lemma putU8_holds:
  "holds w bs (1 + n) \<Longrightarrow> \<exists>w'. wr_putU8 w v = Inr w' \<and> holds w' (bs @ [v]) n"
  using put_holds [of w bs "[v]" n] by (simp add: wr_putU8_def)

lemma putU16_holds:
  "holds w bs (2 + n) \<Longrightarrow> \<exists>w'. wr_putU16 be w v = Inr w' \<and> holds w' (bs @ setBE16 v) n"
  using put_holds [of w bs "setBE16 v" n] holds_order [of w bs "2 + n"]
  by (simp add: wr_putU16_def)

lemma putU24_holds:
  "holds w bs (3 + n) \<Longrightarrow> \<exists>w'. wr_putU24 be w v = Inr w' \<and> holds w' (bs @ bytes24 v) n"
  using put_holds [of w bs "bytes24 v" n] holds_order [of w bs "3 + n"]
  by (simp add: wr_putU24_def bytes24_def drop_Suc)

lemma putU32_holds:
  "holds w bs (4 + n) \<Longrightarrow> \<exists>w'. wr_putU32 be w v = Inr w' \<and> holds w' (bs @ setBE32 v) n"
  using put_holds [of w bs "setBE32 v" n] holds_order [of w bs "4 + n"]
  by (simp add: wr_putU32_def)

lemma putU64_holds:
  "holds w bs (8 + n) \<Longrightarrow> \<exists>w'. wr_putU64 be w v = Inr w' \<and> holds w' (bs @ setBE64 v) n"
  using put_holds [of w bs "setBE64 v" n] holds_order [of w bs "8 + n"]
  by (simp add: wr_putU64_def)

end

text \<open>A \<^verbatim>\<open>BitWriter\<close> over \<open>wr_limit\<close> bytes of memory.\<close>

definition fixed_holds :: "bit_writer \<Rightarrow> bytes \<Rightarrow> nat \<Rightarrow> bool" where
  "fixed_holds w bs n \<longleftrightarrow> wr_dynamic w = None \<and> wr_order w = Network \<and>
     wr_position w = length bs \<and> take (length bs) (wr_mem w) = bs \<and>
     wr_limit w = length (wr_mem w) \<and> wr_limit w < size_max \<and> length bs + n \<le> wr_limit w"

text \<open>
  A \<^verbatim>\<open>DynamicBitWriter\<close> created on a vector that held \<open>tail\<close>: what it receives is
  inserted in front of \<open>tail\<close>; \<open>n\<close> only keeps the size below that of the address space.
\<close>

definition dynamic_holds :: "bytes \<Rightarrow> bit_writer \<Rightarrow> bytes \<Rightarrow> nat \<Rightarrow> bool" where
  "dynamic_holds tail w bs n \<longleftrightarrow> wr_dynamic w = Some 0 \<and> wr_order w = Network \<and>
     wr_position w = length bs \<and> wr_mem w = bs @ tail \<and> length (wr_mem w) + n < size_max"

interpretation fixed: byte_sink fixed_holds
proof unfold_locales
  fix w :: bit_writer and bs cs :: bytes and n :: nat
  assume h: "fixed_holds w bs (length cs + n)"
  then have sz: "length bs + length cs < size_max" and le: "length bs + length cs \<le> wr_limit w"
    and mem: "length bs + length cs \<le> length (wr_mem w)"
    by (auto simp: fixed_holds_def)
  let ?w = "w\<lparr>wr_mem := bs @ cs @ drop (length bs + length cs) (wr_mem w),
              wr_position := length bs + length cs\<rparr>"
  have "wr_put w cs = Inr ?w"
    using h sz le mem by (simp add: wr_put_def bw_put_def fixed_holds_def size_add_small Let_def)
  moreover have "fixed_holds ?w (bs @ cs) n"
    using h by (auto simp: fixed_holds_def)
  ultimately show "\<exists>w'. wr_put w cs = Inr w' \<and> fixed_holds w' (bs @ cs) n" by blast
qed (simp_all add: fixed_holds_def)

interpretation dynamic: byte_sink "dynamic_holds tail" for tail
proof unfold_locales
  fix w :: bit_writer and bs cs :: bytes and n :: nat
  assume h: "dynamic_holds tail w bs (length cs + n)"
  let ?m = "bs @ cs @ tail"
  let ?w = "w\<lparr>wr_mem := ?m, wr_limit := length ?m, wr_position := length bs + length cs\<rparr>"
  have "length bs + length cs < size_max"
    using h by (auto simp: dynamic_holds_def)
  then have "wr_put w cs = Inr ?w"
    using h by (simp add: wr_put_def dw_put_def dynamic_holds_def size_add_small Let_def)
  moreover have "dynamic_holds tail ?w (bs @ cs) n"
    using h by (auto simp: dynamic_holds_def)
  ultimately show "\<exists>w'. wr_put w cs = Inr w' \<and> dynamic_holds tail w' (bs @ cs) n" by blast
qed (auto simp: dynamic_holds_def)

lemma wr_init_holds:
  "length mem < size_max \<Longrightarrow> fixed_holds (wr_init mem (length mem) Network) [] (length mem)"
  by (simp add: fixed_holds_def wr_init_def)

lemma dwr_init_holds:
  "length buf + n < size_max \<Longrightarrow> dynamic_holds buf (dwr_init buf cap 0 Network) [] n"
  by (simp add: dynamic_holds_def dwr_init_def)

subsection \<open>Sequences of fields\<close>

text \<open>A field a protocol writes with one call of the writer and reads with one of the reader.\<close>

datatype field = F8 u8 | F16 u16 | F24 u32 | F32 u32 | F64 u64 | FBytes bytes

fun put_field :: "bool \<Rightarrow> bit_writer \<Rightarrow> field \<Rightarrow> bit_writer result" where
  "put_field be w (F8 v) = wr_putU8 w v"
| "put_field be w (F16 v) = wr_putU16 be w v"
| "put_field be w (F24 v) = wr_putU24 be w v"
| "put_field be w (F32 v) = wr_putU32 be w v"
| "put_field be w (F64 v) = wr_putU64 be w v"
| "put_field be w (FBytes bs) = wr_put w bs"

fun put_fields :: "bool \<Rightarrow> bit_writer \<Rightarrow> field list \<Rightarrow> bit_writer result" where
  "put_fields be w [] = Inr w"
| "put_fields be w (f # fs) = bind_r (put_field be w f) (\<lambda>w. put_fields be w fs)"

text \<open>Reading needs the kinds of the fields only; their values here are ignored.\<close>

fun get_field :: "bool \<Rightarrow> field \<Rightarrow> bit_reader \<Rightarrow> (field \<times> bit_reader) result" where
  "get_field be (F8 _) r = bind_r (rd_getU8 r) (\<lambda>(v, r). Inr (F8 v, r))"
| "get_field be (F16 _) r = bind_r (rd_getU16 be r) (\<lambda>(v, r). Inr (F16 v, r))"
| "get_field be (F24 _) r = bind_r (rd_getU24 be r) (\<lambda>(v, r). Inr (F24 v, r))"
| "get_field be (F32 _) r = bind_r (rd_getU32 be r) (\<lambda>(v, r). Inr (F32 v, r))"
| "get_field be (F64 _) r = bind_r (rd_getU64 be r) (\<lambda>(v, r). Inr (F64 v, r))"
| "get_field be (FBytes bs) r = bind_r (rd_get r (length bs)) (\<lambda>(v, r). Inr (FBytes v, r))"

fun get_fields :: "bool \<Rightarrow> field list \<Rightarrow> bit_reader \<Rightarrow> (field list \<times> bit_reader) result" where
  "get_fields be [] r = Inr ([], r)"
| "get_fields be (f # fs) r =
     bind_r (get_field be f r) (\<lambda>(x, r).
     bind_r (get_fields be fs r) (\<lambda>(xs, r). Inr (x # xs, r)))"

text \<open>The wire image of a field in network order, and the values a field can carry.\<close>

fun field_bytes :: "field \<Rightarrow> bytes" where
  "field_bytes (F8 v) = [v]"
| "field_bytes (F16 v) = setBE16 v"
| "field_bytes (F24 v) = bytes24 v"
| "field_bytes (F32 v) = setBE32 v"
| "field_bytes (F64 v) = setBE64 v"
| "field_bytes (FBytes bs) = bs"

fun field_ok :: "field \<Rightarrow> bool" where
  "field_ok (F24 v) \<longleftrightarrow> unat v < 2 ^ 24"
| "field_ok _ \<longleftrightarrow> True"

abbreviation fields_bytes :: "field list \<Rightarrow> bytes" where
  "fields_bytes fs \<equiv> concat (map field_bytes fs)"

context byte_sink
begin

lemma put_field_holds:
  "holds w bs (length (field_bytes f) + n) \<Longrightarrow>
   \<exists>w'. put_field be w f = Inr w' \<and> holds w' (bs @ field_bytes f) n"
  by (cases f) (simp_all add: putU8_holds putU16_holds putU24_holds putU32_holds putU64_holds put_holds)

lemma put_fields_holds:
  "holds w bs (length (fields_bytes fs) + n) \<Longrightarrow>
   \<exists>w'. put_fields be w fs = Inr w' \<and> holds w' (bs @ fields_bytes fs) n"
proof (induction fs arbitrary: w bs)
  case Nil
  then show ?case by simp
next
  case (Cons f fs)
  then obtain w1 where w1: "put_field be w f = Inr w1"
    "holds w1 (bs @ field_bytes f) (length (fields_bytes fs) + n)"
    using put_field_holds [of w bs f "length (fields_bytes fs) + n" be] by (auto simp: add.assoc)
  with Cons.IH [OF w1(2)] show ?case by simp
qed

end

lemma get_field_at:
  "field_ok f \<Longrightarrow> length pre + length (field_bytes f) + length suf < size_max \<Longrightarrow>
   get_field be f (rd_at pre (field_bytes f @ suf)) = Inr (f, rd_at (pre @ field_bytes f) suf)"
  by (cases f) (simp_all add: rd_getU24_at rd_get_at)

lemma get_fields_at:
  "list_all field_ok fs \<Longrightarrow> length pre + length (fields_bytes fs) + length suf < size_max \<Longrightarrow>
   get_fields be fs (rd_at pre (fields_bytes fs @ suf)) = Inr (fs, rd_at (pre @ fields_bytes fs) suf)"
proof (induction fs arbitrary: pre)
  case (Cons f fs)
  then show ?case
    using get_field_at [of f pre "fields_bytes fs @ suf" be] Cons.IH [of "pre @ field_bytes f"]
    by (simp add: add.assoc)
qed simp

subsection \<open>Properties\<close>

text \<open>What a read of \<open>n\<close> bytes may do: throw for want of bytes, or move the position by \<open>n\<close>.\<close>

definition read_step :: "bit_reader \<Rightarrow> nat \<Rightarrow> ('a \<times> bit_reader) result \<Rightarrow> bool" where
  "read_step r n res \<longleftrightarrow>
     (case res of
        Inl e \<Rightarrow> e = OutOfRange \<and> length (rd_rest r) < n
      | Inr (v, r') \<Rightarrow> n \<le> length (rd_rest r) \<and> reader_ok r' \<and>
          r' = r\<lparr>rd_position := rd_position r + n\<rparr>)"


text \<open>
  C6 (round trip). A sequence of fields of any kinds and sizes, written in network order by a
  \<^verbatim>\<open>DynamicBitWriter\<close> on a host of one byte order, produces the same bytes on every host,
  and a \<^verbatim>\<open>BitReader\<close> on a host of any byte order reads the same field values back and
  consumes exactly the bytes written. (Values of 24-bit fields must fit in 24 bits.)
\<close>

theorem field_roundtrip:
  assumes "list_all field_ok fs" and "length (fields_bytes fs) < size_max"
  shows "\<exists>w. put_fields be (dwr_init [] cap 0 Network) fs = Inr w \<and>
             wr_mem w = fields_bytes fs \<and>
             get_fields be' fs (rd_of_buffer (wr_mem w)) = Inr (fs, rd_at (wr_mem w) [])"
proof -
  let ?bs = "fields_bytes fs"
  obtain w where w: "put_fields be (dwr_init [] cap 0 Network) fs = Inr w"
    "dynamic_holds [] w ?bs 0"
    using dynamic.put_fields_holds [of "[]" "dwr_init [] cap 0 Network" "[]" fs 0 be]
      dwr_init_holds [of "[]" "length ?bs" cap] assms(2) by auto
  then have "wr_mem w = ?bs" by (simp add: dynamic_holds_def)
  then show ?thesis
    using w(1) get_fields_at [OF assms(1), of "[]" "[]" be'] assms(2)
    by (simp add: rd_of_buffer_at)
qed

theorem field_roundtrip_witness:
  "\<exists>w. put_fields True (dwr_init [] 0 0 Network) [F16 1, F24 70000, FBytes [9], F64 5] = Inr w \<and>
       wr_mem w = [0, 1, 1, 17, 112, 9, 0, 0, 0, 0, 0, 0, 0, 5] \<and>
       get_fields False [F16 1, F24 70000, FBytes [9], F64 5] (rd_of_buffer (wr_mem w)) =
         Inr ([F16 1, F24 70000, FBytes [9], F64 5], rd_at (wr_mem w) [])"
proof -
  let ?fs = "[F16 1, F24 70000, FBytes [9], F64 5]"
  have b: "fields_bytes ?fs = [0, 1, 1, 17, 112, 9, 0, 0, 0, 0, 0, 0, 0, 5]"
    by (simp add: setBE16_def bytes24_def setBE32_def setBE64_def drop_bit_eq_div)
  show ?thesis
    using field_roundtrip [of ?fs True 0 False] unfolding b by simp
qed

text \<open>
  C19 (safety). On a reader whose position is within its limit and whose limit is within its
  memory, every typed read and every read of \<open>n\<close> bytes either throws \<^verbatim>\<open>std::out_of_range\<close>, exactly when fewer bytes
  are left than it needs, or returns a value and moves the position forward by its width; no read
  leaves the memory, and the reader is again within its limit.
\<close>

theorem typed_reads_safe:
  assumes "reader_ok r"
  shows "read_step r 1 (rd_getU8 r) \<and> read_step r 2 (rd_getU16 be r) \<and>
         read_step r 3 (rd_getU24 be r) \<and> read_step r 4 (rd_getU32 be r) \<and>
         read_step r 8 (rd_getU64 be r) \<and> read_step r n (rd_get r n)"
  using assms
  by (auto simp: rd_getU8_def rd_getU16_def rd_getU24_def rd_getU32_def rd_getU64_def rd_get_ok
      Let_def reader_ok_def rd_rest_length read_step_def)

theorem typed_reads_safe_witness:
  "reader_ok (rd_at [7] [1, 2, 3]) \<and>
   read_step (rd_at [7] [1, 2, 3]) 2 (rd_getU16 True (rd_at [7] [1, 2, 3])) \<and>
   read_step (rd_at [7] [1, 2, 3]) 4 (rd_getU32 True (rd_at [7] [1, 2, 3]))"
  using typed_reads_safe [of "rd_at [7] [1, 2, 3]" True] by (simp add: rd_at_ok)

text \<open>
  \<^verbatim>\<open>readLine\<close> appends to its argument the bytes up to the next newline or
  the limit, returns their number plus one, and leaves the reader after that newline: at the start
  of the next line, or at the limit. It never leaves the memory.
\<close>

theorem readLine_correct:
  assumes "reader_ok r"
  shows "\<exists>r'. rd_readLine val r =
                Inr (Suc (length (takeWhile (\<lambda>b. b \<noteq> 10) (rd_rest r))),
                     val @ takeWhile (\<lambda>b. b \<noteq> 10) (rd_rest r), r') \<and>
              reader_ok r' \<and> rd_rest r' = tl (dropWhile (\<lambda>b. b \<noteq> 10) (rd_rest r))"
proof -
  let ?line = "takeWhile (\<lambda>b. b \<noteq> 10) (rd_rest r)"
  have "rd_readLine val r = Inr (Suc (length ?line), val @ ?line, rd_advance r (Suc (length ?line)))"
    using assms
    by (simp add: rd_readLine_def rd_scan_ok rd_substr_ok length_takeWhile_le takeWhile_eq_take
        Let_def flip: takeWhile_eq_take)
  moreover have "rd_rest (rd_advance r (Suc (length ?line))) =
      tl (dropWhile (\<lambda>b. b \<noteq> 10) (rd_rest r))"
    using assms rd_rest_advance [of r "Suc (length ?line)"]
    by (simp add: dropWhile_eq_drop drop_Suc tl_drop)
  ultimately show ?thesis
    using rd_advance_ok [OF assms] by blast
qed

theorem readLine_correct_witness:
  "\<exists>r'. rd_readLine [] (rd_at [] [72, 105, 10, 33]) = Inr (3, [72, 105], r') \<and>
        reader_ok r' \<and> rd_rest r' = [33]"
  using readLine_correct [of "rd_at [] [72, 105, 10, 33]" "[]"]
  by (simp add: rd_at_ok rd_rest_def numeral_3_eq_3)

text \<open>
  \<^verbatim>\<open>BitReader::skip\<close> compares the number of bytes to skip with the limit and not
  with what is left. After it has passed the limit, \<^verbatim>\<open>available()\<close> wraps around to a huge
  number, the check of every later read passes, and the read leaves the memory: on a reader whose
  limit is the end of its memory, skipping \<open>n\<close> bytes with fewer than \<open>n\<close> left, where \<open>n\<close>
  is at most the limit, succeeds, and reading any number of bytes afterwards is undefined.
\<close>

theorem skip_past_limit:
  assumes "reader_ok r" and "rd_limit r = length (rd_bytes r)"
    and "length (rd_rest r) < n" and "n \<le> rd_limit r" and "2 * rd_limit r < size_max"
    and "k \<le> rd_limit r"
  shows "\<exists>r'. rd_skip r n = Inr r' \<and> rd_limit r' < rd_position r' \<and> rd_get r' k = Inl Undefined"
proof -
  let ?r = "r\<lparr>rd_position := rd_position r + n\<rparr>"
  have past: "rd_limit r < rd_position r + n" and pos: "rd_position r + n < size_max"
    using assms by (auto simp: rd_rest_length reader_ok_def)
  then have skip: "rd_skip r n = Inr ?r"
    using assms(4) by (simp add: rd_skip_def size_add_small)
  have "rd_available ?r = rd_limit r + size_max - (rd_position r + n)"
    using past pos by (simp add: rd_available_def size_sub_wrap)
  moreover have "k + (rd_position r + n) \<le> rd_limit r + size_max"
    using assms(1,4,5,6) unfolding reader_ok_def by linarith
  ultimately have "k \<le> rd_available ?r"
    by simp
  then have "rd_get ?r k = Inl Undefined"
    using past assms(2) by (simp add: rd_get_def rd_substr_def)
  with skip past show ?thesis by simp
qed

theorem skip_past_limit_witness:
  "\<exists>r'. rd_skip (rd_at [1] [2]) 2 = Inr r' \<and> rd_limit r' < rd_position r' \<and>
        rd_get r' 1 = Inl Undefined"
  by (rule skip_past_limit) (simp_all add: rd_at_ok rd_rest_def)

text \<open>
  \<^verbatim>\<open>readNextWord\<close> counts the leading blanks twice: \<^verbatim>\<open>skipWhitespace\<close> has
  already moved the position past them when their number is used as the start of the word scan.
  Reading the next word of a buffer that ends with \<open>k \<ge> 2\<close> blanks and a one-byte word copies
  \<open>k\<close> bytes from the word on and so leaves the memory.
\<close>

theorem readNextWord_overrun:
  assumes "2 \<le> k" and "word_char b" and "length pre + k + 1 < size_max"
  shows "rd_readNextWord val (rd_at pre (replicate k 32 @ [b])) = Inl Undefined"
proof -
  let ?r = "rd_at pre (replicate k 32 @ [b])"
  have b: "b \<noteq> 32" using assms(2) by (simp add: word_char_def)
  have ok: "reader_ok ?r" using assms(3) by (simp add: rd_at_ok)
  have scan: "rd_scan (\<lambda>c. c = 32) ?r 0 = Inr k"
    using b by (simp add: rd_scan_ok [OF ok] rd_rest_def takeWhile_append)
  let ?r1 = "rd_advance ?r k"
  have pos: "rd_position ?r1 = length pre + k" "rd_limit ?r1 = length pre + k + 1"
    "length (rd_bytes ?r1) = length pre + k + 1"
    by (simp_all add: rd_advance_def)
  have "rd_scan word_char ?r1 k = Inr k"
    using pos assms(1) by (subst rd_scan.simps) simp
  moreover have "rd_substr ?r1 k = Inl Undefined"
    using pos assms(1) by (simp add: rd_substr_def)
  ultimately show ?thesis
    using scan by (simp add: rd_readNextWord_def rd_skipWhitespace_def)
qed

theorem readNextWord_overrun_witness:
  "rd_readNextWord [] (rd_at [] [32, 32, 97]) = Inl Undefined"
proof -
  have "rd_at [] (replicate 2 32 @ [97]) = rd_at [] [32, 32, 97 :: u8]"
    by code_simp
  then show ?thesis
    using readNextWord_overrun [of 2 97 "[]" "[]"] by (simp add: word_char_def)
qed

text \<open>
  \<^verbatim>\<open>BitWriter::update\<close> compares the end of the range to overwrite with the
  space that is left after the position, and not with the limit. On a writer whose memory is full
  no byte can be updated any more: \<^verbatim>\<open>update\<close> returns false and changes nothing, whatever
  the range.
\<close>

theorem update_full_writer:
  assumes "wr_dynamic w = None" and "wr_position w = wr_limit w"
    and "val \<noteq> []" and "pos + length val < size_max" and "wr_limit w < size_max"
  shows "wr_update w val pos = Inr (False, w)"
  using assms by (simp add: wr_update_def bw_update_def wr_available_def size_sub_le size_add_small)

theorem update_full_writer_witness:
  "wr_update \<lparr>wr_mem = [1, 2], wr_position = 2, wr_limit = 2, wr_order = Network,
     wr_dynamic = None\<rparr> [9] 0 =
   Inr (False, \<lparr>wr_mem = [1, 2], wr_position = 2, wr_limit = 2, wr_order = Network,
     wr_dynamic = None\<rparr>)"
  by (rule update_full_writer) simp_all

end
