(* ===== verification/Net_Address.thy ===== *)
theory Net_Address
  imports Byte_Order Text_Util
begin

text \<open>
  \<^verbatim>\<open>src/net/src/address.cpp\<close>: socket addresses, their construction from text, their printing
  and their comparison, with the IPv4 text parser \<^verbatim>\<open>inet_pton4\<close> of the bundled libuv, which
  decides which host names the class accepts.

  An address holds what its \<^verbatim>\<open>sockaddr\<close> holds: the class that was created (\<open>na_family\<close>),
  the \<^verbatim>\<open>sin_family\<close> field, the address bytes in network order, and the port field as the host
  reads it, that is in network order. The platform supplies the byte order, the IPv6 text
  functions of libuv and the service database.
\<close>

datatype address_family = IPv4 | IPv6

datatype sockaddr_family = AF_UNSPEC | AF_INET | AF_INET6

record net_address =
  na_family :: address_family
  sin_family :: sockaddr_family
  sin_addr :: bytes
  sin_port :: u16

record net_platform =
  big_endian :: bool
  inet_pton6 :: "string \<Rightarrow> bytes option"
  inet_ntop6 :: "bytes \<Rightarrow> string option"
  getservbyname :: "string \<Rightarrow> u16 option"

text \<open>\<^verbatim>\<open>htons\<close>, \<^verbatim>\<open>ntohs\<close>, \<^verbatim>\<open>htonl\<close> and \<^verbatim>\<open>ntohl\<close> of the C library.\<close>

definition htons :: "bool \<Rightarrow> u16 \<Rightarrow> u16" where
  "htons be v = load16 be (setBE16 v)"

definition ntohs :: "bool \<Rightarrow> u16 \<Rightarrow> u16" where
  "ntohs be v = getBE16 (store16 be v)"

definition ntohl :: "bool \<Rightarrow> u32 \<Rightarrow> u32" where
  "ntohl be v = getBE32 (store32 be v)"

subsection \<open>libuv: IPv4 addresses as text\<close>

text \<open>
  The loop of \<^verbatim>\<open>inet_pton4\<close>: \<open>saw\<close> is \<^verbatim>\<open>saw_digit\<close>, \<open>dn\<close> the octets before the one
  \<^verbatim>\<open>tp\<close> points to and \<open>cur\<close> that octet.
\<close>

fun pton4_loop :: "string \<Rightarrow> bool \<Rightarrow> nat \<Rightarrow> nat list \<Rightarrow> nat \<Rightarrow> nat list option" where
  "pton4_loop [] saw octets dn cur = (if octets < 4 then None else Some (dn @ [cur]))"
| "pton4_loop (ch # src) saw octets dn cur =
     (if is_digit ch then
        (let nw = cur * 10 + digit_val ch in
         if saw \<and> cur = 0 then None
         else if nw > 255 then None
         else if \<not> saw then
           (if octets + 1 > 4 then None else pton4_loop src True (octets + 1) dn nw)
         else pton4_loop src saw octets dn nw)
      else if ch = CHR ''.'' \<and> saw then
        (if octets = 4 then None else pton4_loop src False octets (dn @ [cur]) 0)
      else None)"

definition inet_pton4 :: "string \<Rightarrow> bytes option" where
  "inet_pton4 src =
     map_option (map word_of_nat) (pton4_loop (takeWhile (\<lambda>c. c \<noteq> CHR 0x00) src) False 0 [] 0)"

definition inet_ntop4 :: "bytes \<Rightarrow> string" where
  "inet_ntop4 src =
     itostr (unat (src ! 0)) @ ''.'' @ itostr (unat (src ! 1)) @ ''.'' @
     itostr (unat (src ! 2)) @ ''.'' @ itostr (unat (src ! 3))"

subsection \<open>Address\<close>

definition address_default :: net_address where
  "address_default =
     \<lparr>na_family = IPv4, sin_family = AF_UNSPEC, sin_addr = [0, 0, 0, 0], sin_port = 0\<rparr>"

text \<open>
  The two base classes built from address bytes and a port in network order. The IPv6 class sets
  the family field and then clears the whole structure; the IPv4 class does it the other way round.
\<close>

definition IPv4AddressBase :: "bytes \<Rightarrow> u16 \<Rightarrow> net_address" where
  "IPv4AddressBase addr port =
     \<lparr>na_family = IPv4, sin_family = AF_INET, sin_addr = addr, sin_port = port\<rparr>"

definition IPv6AddressBase :: "bytes \<Rightarrow> u16 \<Rightarrow> net_address" where
  "IPv6AddressBase addr port =
     \<lparr>na_family = IPv6, sin_family = AF_UNSPEC, sin_addr = addr, sin_port = port\<rparr>"

definition address_init :: "'a net_platform_scheme \<Rightarrow> string \<Rightarrow> u16 \<Rightarrow> net_address result" where
  "address_init env host port =
     (case inet_pton4 host of
        Some ia \<Rightarrow> Inr (IPv4AddressBase ia (htons (big_endian env) port))
      | None \<Rightarrow>
         (case inet_pton6 env host of
            Some ia \<Rightarrow> Inr (IPv6AddressBase ia (htons (big_endian env) port))
          | None \<Rightarrow> Inl RuntimeError))"

definition address_host :: "'a net_platform_scheme \<Rightarrow> net_address \<Rightarrow> string result" where
  "address_host env a =
     (case na_family a of
        IPv4 \<Rightarrow> Inr (inet_ntop4 (sin_addr a))
      | IPv6 \<Rightarrow> (case inet_ntop6 env (sin_addr a) of
                   Some s \<Rightarrow> Inr s | None \<Rightarrow> Inl RuntimeError))"

definition address_port :: "'a net_platform_scheme \<Rightarrow> net_address \<Rightarrow> u16" where
  "address_port env a = ntohs (big_endian env) (sin_port a)"

definition address_valid :: "'a net_platform_scheme \<Rightarrow> net_address \<Rightarrow> bool result" where
  "address_valid env a =
     bind_r (address_host env a) (\<lambda>h. Inr (h \<noteq> ''0.0.0.0'' \<and> address_port env a \<noteq> 0))"

definition address_toString :: "'a net_platform_scheme \<Rightarrow> net_address \<Rightarrow> string result" where
  "address_toString env a =
     bind_r (address_host env a) (\<lambda>h.
       Inr ((if na_family a = IPv6 then ''['' else []) @ h @
            (if na_family a = IPv6 then '']'' else []) @ '':'' @
            itostr (unat (address_port env a))))"

definition resolveService :: "'a net_platform_scheme \<Rightarrow> string \<Rightarrow> u16 result" where
  "resolveService env service =
     (let port = strtoi 16 service in
      if port > 0 then Inr (word_of_nat port)
      else (case getservbyname env service of
              Some s_port \<Rightarrow> Inr (ntohs (big_endian env) s_port)
            | None \<Rightarrow> Inl RuntimeError))"

text \<open>\<^verbatim>\<open>Address(const std::string& hostAndPort)\<close>: a host, in brackets or up to the first
  colon, a colon, and a port number or service name.\<close>

definition split_host_port :: "string \<Rightarrow> (string \<times> string) result" where
  "split_host_port s =
     (if hd s = CHR ''['' then
        (let host = takeWhile (\<lambda>c. c \<noteq> CHR '']'') (tl s);
             rest = dropWhile (\<lambda>c. c \<noteq> CHR '']'') (tl s)
         in if rest = [] then Inl RuntimeError
            else (case tl rest of
                    [] \<Rightarrow> Inl RuntimeError
                  | c # port \<Rightarrow> if c = CHR '':'' then Inr (host, port) else Inl RuntimeError))
      else
        (let host = takeWhile (\<lambda>c. c \<noteq> CHR '':'') s
         in (case dropWhile (\<lambda>c. c \<noteq> CHR '':'') s of
               [] \<Rightarrow> Inl RuntimeError
             | c # port \<Rightarrow> Inr (host, port))))"

definition address_of_string :: "'a net_platform_scheme \<Rightarrow> string \<Rightarrow> net_address result" where
  "address_of_string env s =
     assert_r (s \<noteq> [])
       (bind_r (split_host_port s) (\<lambda>(host, port).
        bind_r (resolveService env port) (\<lambda>p. address_init env host p)))"

definition address_of_host_service :: "'a net_platform_scheme \<Rightarrow> string \<Rightarrow> string \<Rightarrow> net_address result" where
  "address_of_host_service env addr port = bind_r (resolveService env port) (\<lambda>p. address_init env addr p)"

text \<open>\<^verbatim>\<open>Address(const struct sockaddr*, socklen_t)\<close>: 16 and 28 are the sizes of the two structures.\<close>

definition address_of_sockaddr :: "net_address \<Rightarrow> nat \<Rightarrow> net_address result" where
  "address_of_sockaddr addr len =
     (if len = 16 then Inr (addr\<lparr>na_family := IPv4\<rparr>)
      else if len = 28 then Inr (addr\<lparr>na_family := IPv6\<rparr>)
      else Inl RuntimeError)"

definition validateIP :: "'a net_platform_scheme \<Rightarrow> string \<Rightarrow> bool" where
  "validateIP env s \<longleftrightarrow> inet_pton4 s \<noteq> None \<or> inet_pton6 env s \<noteq> None"

definition address_eq :: "'a net_platform_scheme \<Rightarrow> net_address \<Rightarrow> net_address \<Rightarrow> bool result" where
  "address_eq env a b =
     bind_r (address_host env a) (\<lambda>ha. bind_r (address_host env b) (\<lambda>hb.
       Inr (ha = hb \<and> address_port env a = address_port env b)))"

definition address_ne :: "'a net_platform_scheme \<Rightarrow> net_address \<Rightarrow> net_address \<Rightarrow> bool result" where
  "address_ne env a b =
     bind_r (address_host env a) (\<lambda>ha. bind_r (address_host env b) (\<lambda>hb.
       Inr (ha \<noteq> hb \<or> address_port env a \<noteq> address_port env b)))"

fun family_rank :: "address_family \<Rightarrow> nat" where
  "family_rank IPv4 = 0"
| "family_rank IPv6 = 1"

definition address_less :: "'a net_platform_scheme \<Rightarrow> net_address \<Rightarrow> net_address \<Rightarrow> bool" where
  "address_less env a b \<longleftrightarrow>
     (if family_rank (na_family a) < family_rank (na_family b) then True
      else address_port env a < address_port env b)"

subsection \<open>Ports\<close>

lemma ntohs_htons [simp, codec_simps]: "ntohs be (htons be v) = v"
  by (simp add: ntohs_def htons_def)

lemma htons_ntohs [simp]: "htons be (ntohs be v) = v"
  by (simp add: ntohs_def htons_def)

lemma htons_0 [simp]: "htons be 0 = 0"
  by (simp add: htons_def load16_def setBE16_def getBE16_def getLE16_def get8_def)

lemma ntohs_ntohs [simp]: "ntohs be (ntohs be v) = v"
  by (simp add: ntohs_def store16_def setLE_rev)

lemma ntohl_ntohl [simp]: "ntohl be (ntohl be v) = v"
  by (simp add: ntohl_def store32_def setLE_rev)

lemma store_xor:
  "store16 be (a XOR b) = map2 (XOR) (store16 be a) (store16 be b)"
  "store32 be (c XOR d) = map2 (XOR) (store32 be c) (store32 be d)"
  by (simp_all add: store16_def setBE16_def setLE16_def store32_def setBE32_def setLE32_def
      unsigned_xor_eq)

text \<open>Byte swapping distributes over exclusive or, since storing in either order does.\<close>

lemma ntohs_xor: "ntohs be (a XOR b) = ntohs be a XOR ntohs be b"
proof -
  have "setBE16 (ntohs be (a XOR b)) = setBE16 (ntohs be a XOR ntohs be b)"
    using store_xor(1) [of True] by (simp add: ntohs_def store_xor(1) [of be], simp add: store16_def)
  then show ?thesis by (metis getBE_setBE(1))
qed

lemma ntohl_xor: "ntohl be (a XOR b) = ntohl be a XOR ntohl be b"
proof -
  have "setBE32 (ntohl be (a XOR b)) = setBE32 (ntohl be a XOR ntohl be b)"
    using store_xor(2) [of True] by (simp add: ntohl_def store_xor(2) [of be], simp add: store32_def)
  then show ?thesis by (metis getBE_setBE(2))
qed

subsection \<open>Dotted quads\<close>

text \<open>What the parser has read so far, as text.\<close>

definition pton4_read :: "bool \<Rightarrow> nat list \<Rightarrow> nat \<Rightarrow> string" where
  "pton4_read saw dn cur = concat (map (\<lambda>d. itostr d @ ''.'') dn) @ (if saw then itostr cur else [])"

lemma itostr_step:
  "0 < cur \<Longrightarrow> is_digit ch \<Longrightarrow> itostr (cur * 10 + digit_val ch) = itostr cur @ [ch]"
proof -
  assume cur: "0 < cur" and d: "is_digit ch"
  then have lt: "digit_val ch < 10" and ch: "digit_char (digit_val ch) = ch"
    by (auto simp: is_digit_def digit_val_def digit_char_def)
  then show ?thesis using cur
    by (subst itostr.simps) (simp add: div_add1_eq)
qed

lemma itostr_digit: "is_digit ch \<Longrightarrow> itostr (digit_val ch) = [ch]"
  by (subst itostr.simps) (auto simp: is_digit_def digit_val_def digit_char_def)

lemma pton4_loop_sound:
  "pton4_loop s saw octets dn cur = Some bs \<Longrightarrow> (saw \<or> cur = 0) \<Longrightarrow>
   octets = length dn + (if saw then 1 else 0) \<Longrightarrow> length dn \<le> 3 \<Longrightarrow>
   (\<forall>d \<in> set dn. d < 256) \<Longrightarrow> cur < 256 \<Longrightarrow>
   length bs = 4 \<and> (\<forall>b \<in> set bs. b < 256) \<and>
   pton4_read saw dn cur @ s = pton4_read True (butlast bs) (last bs)"
proof (induction s saw octets dn cur rule: pton4_loop.induct)
  case (1 saw octets dn cur)
  then show ?case by (auto simp: pton4_read_def split: if_splits)
next
  case (2 ch src saw octets dn cur)
  then show ?case
    by (auto simp: Let_def pton4_read_def itostr_step itostr_digit split: if_splits)
qed

text \<open>Conversely the parser reads every printed octet.\<close>

lemma foldl_digits_mono: "c \<le> foldl (\<lambda>acc c. 10 * acc + digit_val c) c ds"
proof (induction ds arbitrary: c)
  case (Cons d ds)
  have "c \<le> 10 * c + digit_val d" by simp
  also have "\<dots> \<le> foldl (\<lambda>acc c. 10 * acc + digit_val c) (10 * c + digit_val d) ds"
    by (rule Cons.IH)
  finally show ?case by simp
qed simp

lemma pton4_digits:
  "list_all is_digit ds \<Longrightarrow> 0 < cur \<Longrightarrow> foldl (\<lambda>acc c. 10 * acc + digit_val c) cur ds < 256 \<Longrightarrow>
   pton4_loop (ds @ s) True octets dn cur =
   pton4_loop s True octets dn (foldl (\<lambda>acc c. 10 * acc + digit_val c) cur ds)"
proof (induction ds arbitrary: cur)
  case (Cons d ds)
  from foldl_digits_mono [of "10 * cur + digit_val d" ds] Cons show ?case
    by (simp add: Let_def mult.commute)
qed simp

lemma itostr_head: "n < 10 \<or> 0 < digit_val (hd (itostr n))"
proof (induction n rule: itostr.induct)
  case (1 n)
  show ?case
  proof (cases "n < 100")
    case True
    then show ?thesis
      by (cases "n < 10") (auto simp: itostr.simps [of n] itostr.simps [of "n div 10"])
  next
    case False
    with 1 show ?thesis by (auto simp: itostr.simps [of n])
  qed
qed

lemma pton4_octet:
  assumes "n < 256" and "octets < 4"
  shows "pton4_loop (itostr n @ s) False octets dn 0 = pton4_loop s True (Suc octets) dn n"
proof -
  obtain d ds where ds: "itostr n = d # ds" by (cases "itostr n") auto
  have dig: "is_digit d" "list_all is_digit ds"
    using itostr_digits [of n] by (simp_all add: ds)
  have val: "foldl (\<lambda>acc c. 10 * acc + digit_val c) (digit_val d) ds = n"
    using dec_value_itostr [of n] by (simp add: dec_value_def ds)
  have small: "digit_val d < 10" using dig(1) by (auto simp: is_digit_def digit_val_def)
  show ?thesis
  proof (cases "n < 10")
    case True
    then have "itostr n = [digit_char n]" by (simp add: itostr.simps [of n])
    then show ?thesis using assms True by simp
  next
    case False
    then have "0 < digit_val d" using itostr_head [of n] by (simp add: ds)
    then show ?thesis
      using pton4_digits [of ds "digit_val d" s "Suc octets" dn] dig assms small
      by (simp add: ds val)
  qed
qed

lemma not_digit_dot [simp]: "\<not> is_digit CHR ''.''"
  by (simp add: is_digit_def)

lemma inet_pton4_ntop4 [codec_simps]:
  assumes "length bs = 4"
  shows "inet_pton4 (inet_ntop4 bs) = Some bs"
proof -
  obtain a b c d where bs: "bs = [a, b, c, d]" using assms by (rule length4E)
  have lt: "unat x < 256" for x :: u8 using unsigned_less [of x] by simp
  have tw: "takeWhile (\<lambda>c. c \<noteq> CHR 0x00) (inet_ntop4 bs) = inet_ntop4 bs"
    using itostr_only_digits [of "CHR 0x00"] by (auto simp: inet_ntop4_def is_digit_def)
  have run: "pton4_loop (inet_ntop4 bs) False 0 [] 0 = Some (map unat bs)"
    using pton4_octet [of "unat d" 3 "[]"]
    by (simp add: inet_ntop4_def bs pton4_octet lt Let_def numeral_3_eq_3)
  show ?thesis
    unfolding inet_pton4_def tw run by (simp add: bs)
qed

lemma inet_pton4_canonical:
  assumes "inet_pton4 s = Some bs" and "CHR 0x00 \<notin> set s"
  shows "length bs = 4 \<and> s = inet_ntop4 bs"
proof -
  have tw: "takeWhile (\<lambda>c. c \<noteq> CHR 0x00) s = s"
    using assms(2) by (auto simp: takeWhile_eq_all_conv)
  then obtain ns where ns: "pton4_loop s False 0 [] 0 = Some ns" "bs = map word_of_nat ns"
    using assms(1) unfolding inet_pton4_def tw by auto
  have "length ns = 4 \<and> (\<forall>b \<in> set ns. b < 256) \<and>
      pton4_read False [] 0 @ s = pton4_read True (butlast ns) (last ns)"
    by (rule pton4_loop_sound [OF ns(1)]) simp_all
  moreover have "pton4_read False [] 0 = []" by (simp add: pton4_read_def)
  ultimately have len: "length ns = 4" and lt: "\<forall>b \<in> set ns. b < 256"
    and s: "s = pton4_read True (butlast ns) (last ns)"
    by simp_all
  obtain a b c d where "ns = [a, b, c, d]" using len by (rule length4E)
  then show ?thesis
    using s lt ns(2) by (simp add: pton4_read_def inet_ntop4_def unat_of_nat)
qed

lemma inet_ntop4_text:
  "inet_ntop4 bs \<noteq> []" "CHR '':'' \<notin> set (inet_ntop4 bs)" "hd (inet_ntop4 bs) \<noteq> CHR ''[''"
proof -
  show "inet_ntop4 bs \<noteq> []" and "CHR '':'' \<notin> set (inet_ntop4 bs)"
    using itostr_only_digits [of "CHR '':''"] by (auto simp: inet_ntop4_def is_digit_def)
  have "hd (inet_ntop4 bs) \<in> set (itostr (unat (bs ! 0)))"
    by (simp add: inet_ntop4_def)
  then show "hd (inet_ntop4 bs) \<noteq> CHR ''[''"
    using itostr_only_digits [of "CHR ''[''"] by (auto simp: is_digit_def)
qed

lemma split_host_port_append:
  "h \<noteq> [] \<Longrightarrow> CHR '':'' \<notin> set h \<Longrightarrow> hd h \<noteq> CHR ''['' \<Longrightarrow>
   split_host_port (h @ CHR '':'' # p) = Inr (h, p)"
  by (simp add: split_host_port_def takeWhile_append dropWhile_append)

subsection \<open>Properties\<close>

text \<open>
  C20 (equivalence). The IPv4 parser accepts exactly the canonical dotted quads: a host name
  without a NUL character is accepted with the bytes \<open>bs\<close> if and only if it is what printing
  those four bytes gives. So no two texts denote the same IPv4 address, an octet above 255 or with
  a leading zero is refused, and printing and parsing undo each other.
\<close>

theorem inet_pton4_iff:
  assumes "CHR 0x00 \<notin> set s"
  shows "inet_pton4 s = Some bs \<longleftrightarrow> length bs = 4 \<and> s = inet_ntop4 bs"
  using inet_pton4_canonical [OF _ assms] inet_pton4_ntop4 by blast

theorem inet_pton4_iff_witness:
  "inet_pton4 ''10.0.0.255'' = Some [10, 0, 0, 255] \<longleftrightarrow>
   length [10, 0, 0, 255 :: u8] = 4 \<and> ''10.0.0.255'' = inet_ntop4 [10, 0, 0, 255]"
  by (rule inet_pton4_iff) simp

text \<open>
  C21 (round trip). An IPv4 address with a nonzero port prints as text that the constructor from
  text turns back into the same address, whatever the byte order of the host.
\<close>

theorem address_string_roundtrip:
  assumes "na_family a = IPv4" and "sin_family a = AF_INET" and "length (sin_addr a) = 4"
    and "sin_port a \<noteq> 0"
  shows "\<exists>s. address_toString env a = Inr s \<and> address_of_string env s = Inr a"
proof -
  let ?h = "inet_ntop4 (sin_addr a)" and ?p = "address_port env a"
  let ?s = "?h @ CHR '':'' # itostr (unat ?p)"
  have p: "?p \<noteq> 0"
    using assms(4) by (metis address_port_def htons_0 htons_ntohs)
  have split: "split_host_port ?s = Inr (?h, itostr (unat ?p))"
    by (rule split_host_port_append) (simp_all add: inet_ntop4_text)
  have lt: "unat ?p < 2 ^ 16" using unsigned_less [of ?p] by simp
  have port: "resolveService env (itostr (unat ?p)) = Inr ?p"
    using p lt by (simp add: resolveService_def strtoi_itostr unat_gt_0)
  have "address_init env ?h ?p = Inr a"
    using assms by (simp add: address_init_def inet_pton4_ntop4 IPv4AddressBase_def address_port_def)
  then have "address_of_string env ?s = Inr a"
    using split port by (simp add: address_of_string_def)
  moreover have "address_toString env a = Inr ?s"
    using assms(1) by (simp add: address_toString_def address_host_def)
  ultimately show ?thesis by blast
qed

theorem address_string_roundtrip_witness:
  "\<exists>s. address_toString \<lparr>big_endian = False, inet_pton6 = (\<lambda>_. None), inet_ntop6 = (\<lambda>_. None),
         getservbyname = (\<lambda>_. None)\<rparr> (IPv4AddressBase [192, 168, 1, 1] 0xB315) = Inr s \<and>
       address_of_string \<lparr>big_endian = False, inet_pton6 = (\<lambda>_. None), inet_ntop6 = (\<lambda>_. None),
         getservbyname = (\<lambda>_. None)\<rparr> s = Inr (IPv4AddressBase [192, 168, 1, 1] 0xB315)"
  by (rule address_string_roundtrip) (simp_all add: IPv4AddressBase_def)

text \<open>
  \<^verbatim>\<open>Address::operator<\<close> is not an order: it looks at the hosts of neither
  address, so two IPv4 addresses with different hosts and the same port are not ordered by it, and
  for an IPv6 address with the smaller port it holds in both directions. A sorted container keyed
  by addresses identifies different peers and breaks on mixed families.
\<close>

theorem address_less_not_an_order:
  "(\<forall>a b. na_family a = na_family b \<and> sin_port a = sin_port b \<longrightarrow>
      \<not> address_less env a b \<and> \<not> address_less env b a) \<and>
   (\<exists>a b. address_less env a b \<and> address_less env b a)"
proof -
  let ?a = "IPv6AddressBase (replicate 16 0) (htons (big_endian env) 1)"
  let ?b = "IPv4AddressBase [127, 0, 0, 1] (htons (big_endian env) 2)"
  have "address_less env ?a ?b \<and> address_less env ?b ?a"
    by (simp add: address_less_def IPv6AddressBase_def IPv4AddressBase_def address_port_def)
  moreover have "\<forall>a b. na_family a = na_family b \<and> sin_port a = sin_port b \<longrightarrow>
      \<not> address_less env a b \<and> \<not> address_less env b a"
    by (simp add: address_less_def address_port_def)
  ultimately show ?thesis by blast
qed

theorem address_less_not_an_order_witness:
  "\<not> address_less \<lparr>big_endian = True, inet_pton6 = (\<lambda>_. None), inet_ntop6 = (\<lambda>_. None),
      getservbyname = (\<lambda>_. None)\<rparr> (IPv4AddressBase [10, 0, 0, 1] 80) (IPv4AddressBase [10, 0, 0, 2] 80)"
  using address_less_not_an_order [of "\<lparr>big_endian = True, inet_pton6 = (\<lambda>_. None),
      inet_ntop6 = (\<lambda>_. None), getservbyname = (\<lambda>_. None)\<rparr>"]
  by (simp add: IPv4AddressBase_def)

end
