(* ===== verification/Stun_Attributes.thy ===== *)
theory Stun_Attributes
  imports Bit_Buffer Net_Address
begin

text \<open>
  \<^verbatim>\<open>src/stun/src/attributes.cpp\<close> and \<^verbatim>\<open>attributes.h\<close>: the attributes of STUN and TURN
  messages, their factory, and the reading and writing of their bodies.

  The class hierarchy is one record: the type and size fields every attribute has, and a body that
  is one constructor per derived class with that class's fields. \<open>read_attribute\<close> and
  \<open>write_attribute\<close> dispatch on the body as the virtual functions do. The HMAC
  (\<^verbatim>\<open>crypto::computeHMAC\<close>, a call into OpenSSL) is a field of the platform.
\<close>

record platform = net_platform +
  compute_hmac :: "bytes \<Rightarrow> bytes \<Rightarrow> bytes"

definition kAttributeHeaderSize :: nat where "kAttributeHeaderSize = 4"
definition kMessageHeaderSize :: nat where "kMessageHeaderSize = 20"
definition kTransactionIdLength :: nat where "kTransactionIdLength = 12"
definition kMagicCookie :: u32 where "kMagicCookie = 0x2112A442"
definition kMagicCookieLength :: nat where "kMagicCookieLength = 4"

subsection \<open>Attribute types\<close>

datatype attribute_type =
    NotExist | MappedAddress | ResponseAddress | ChangeRequest | SourceAddress | ChangedAddress
  | Username | Password | MessageIntegrity | ErrorCode | Bandwidth | DestinationAddress
  | UnknownAttributes | ReflectedFrom | MagicCookie | Realm | Nonce | XorMappedAddress | Software
  | Options | AlternateServer | Fingerprint | ChannelNumber | Lifetime | XorPeerAddress | Data
  | XorRelayedAddress | EventPort | RequestedTransport | DontFragment | ReservationToken
  | ConnectionID | ICEControlled | ICEControlling | ICEPriority | ICEUseCandidate

fun attr_code :: "attribute_type \<Rightarrow> u16" where
  "attr_code NotExist = 0"
| "attr_code MappedAddress = 0x0001"
| "attr_code ResponseAddress = 0x0002"
| "attr_code ChangeRequest = 0x0003"
| "attr_code SourceAddress = 0x0004"
| "attr_code ChangedAddress = 0x0005"
| "attr_code Username = 0x0006"
| "attr_code Password = 0x0007"
| "attr_code MessageIntegrity = 0x0008"
| "attr_code ErrorCode = 0x0009"
| "attr_code Bandwidth = 0x0010"
| "attr_code DestinationAddress = 0x0011"
| "attr_code UnknownAttributes = 0x000a"
| "attr_code ReflectedFrom = 0x000b"
| "attr_code MagicCookie = 0x000f"
| "attr_code Realm = 0x0014"
| "attr_code Nonce = 0x0015"
| "attr_code XorMappedAddress = 0x0020"
| "attr_code Software = 0x8022"
| "attr_code Options = 0x8001"
| "attr_code AlternateServer = 0x000e"
| "attr_code Fingerprint = 0x8028"
| "attr_code ChannelNumber = 0x000c"
| "attr_code Lifetime = 0x000d"
| "attr_code XorPeerAddress = 0x0012"
| "attr_code Data = 0x0013"
| "attr_code XorRelayedAddress = 0x0016"
| "attr_code EventPort = 0x0018"
| "attr_code RequestedTransport = 0x0019"
| "attr_code DontFragment = 0x001A"
| "attr_code ReservationToken = 0x0022"
| "attr_code ConnectionID = 0x002a"
| "attr_code ICEControlled = 0x8029"
| "attr_code ICEControlling = 0x802A"
| "attr_code ICEPriority = 0x0024"
| "attr_code ICEUseCandidate = 0x0025"

definition attribute_types :: "attribute_type list" where
  "attribute_types =
     [NotExist, MappedAddress, ResponseAddress, ChangeRequest, SourceAddress, ChangedAddress,
      Username, Password, MessageIntegrity, ErrorCode, Bandwidth, DestinationAddress,
      UnknownAttributes, ReflectedFrom, MagicCookie, Realm, Nonce, XorMappedAddress, Software,
      Options, AlternateServer, Fingerprint, ChannelNumber, Lifetime, XorPeerAddress, Data,
      XorRelayedAddress, EventPort, RequestedTransport, DontFragment, ReservationToken,
      ConnectionID, ICEControlled, ICEControlling, ICEPriority, ICEUseCandidate]"

text \<open>The \<^verbatim>\<open>switch\<close> over a numeric type: the enumerator with that value, if there is one.\<close>

definition attr_of_code :: "u16 \<Rightarrow> attribute_type option" where
  "attr_of_code c = find (\<lambda>t. attr_code t = c) attribute_types"

definition typeString :: "u16 \<Rightarrow> string" where
  "typeString c =
     (case attr_of_code c of
        Some XorMappedAddress \<Rightarrow> ''XOR-MAPPED-ADDRESS''
      | Some XorPeerAddress \<Rightarrow> ''XOR-PEER-ADDRESS''
      | Some XorRelayedAddress \<Rightarrow> ''XOR-RELAYED-ADDRESS''
      | Some MappedAddress \<Rightarrow> ''MAPPED-ADDRESS''
      | Some ResponseAddress \<Rightarrow> ''RESPONSE-ADDRESS''
      | Some ChangeRequest \<Rightarrow> ''CHANGE-REQUEST''
      | Some SourceAddress \<Rightarrow> ''SOURCE-ADDRESS''
      | Some ChangedAddress \<Rightarrow> ''CHANGED-ADDRESS''
      | Some Username \<Rightarrow> ''USERNAME''
      | Some Password \<Rightarrow> ''PASSWORD''
      | Some MessageIntegrity \<Rightarrow> ''MESSAGE-INTEGRITY''
      | Some ErrorCode \<Rightarrow> ''ERROR-CODE''
      | Some Bandwidth \<Rightarrow> ''BANDWIDTH''
      | Some DestinationAddress \<Rightarrow> ''DESTINATION-ADDRESS''
      | Some UnknownAttributes \<Rightarrow> ''UNKNOWN-ATTRIBUTES''
      | Some ReflectedFrom \<Rightarrow> ''REFLECTED-FORM''
      | Some MagicCookie \<Rightarrow> ''MAGIC-COOKIE''
      | Some Realm \<Rightarrow> ''REALM''
      | Some Nonce \<Rightarrow> ''NONCE''
      | Some Software \<Rightarrow> ''SOFTWARE''
      | Some Options \<Rightarrow> ''OPTIONS''
      | Some AlternateServer \<Rightarrow> ''ALTERNATE-SERVER''
      | Some Fingerprint \<Rightarrow> ''FINGERPRINT''
      | Some ChannelNumber \<Rightarrow> ''CHANNEL-NUMBER''
      | Some Lifetime \<Rightarrow> ''LIFETIME''
      | Some Data \<Rightarrow> ''DATA''
      | Some RequestedTransport \<Rightarrow> ''REQUESTED-TRANSPORT''
      | Some ReservationToken \<Rightarrow> ''RESERVED-TOKEN''
      | Some EventPort \<Rightarrow> ''EVEN-PORT''
      | Some DontFragment \<Rightarrow> ''DONT-FRAGMENT''
      | Some ICEControlled \<Rightarrow> ''ICE-CONTROLLED''
      | Some ICEControlling \<Rightarrow> ''ICE-CONTROLLING''
      | Some ICEPriority \<Rightarrow> ''PRIORITY''
      | Some ICEUseCandidate \<Rightarrow> ''USE-CANDIDATE''
      | Some ConnectionID \<Rightarrow> ''CONNECTION-ID''
      | _ \<Rightarrow> ''Unknown'')"

subsection \<open>Attributes\<close>

text \<open>
  \<open>StringBody None\<close> is a null \<^verbatim>\<open>_bytes\<close> pointer; \<open>IntegrityBody\<close> holds the input, the
  HMAC and the key; \<open>ErrorCodeBody\<close> the class, the number and the reason.
\<close>

datatype attr_body =
    AddressBody net_address
  | UInt8Body u8
  | UInt32Body u32
  | UInt64Body u64
  | FlagBody
  | StringBody "bytes option"
  | UInt16ListBody "u16 list"
  | IntegrityBody bytes bytes bytes
  | ErrorCodeBody u8 u8 bytes

record attribute =
  attr_type :: u16
  attr_size :: u16
  attr_body :: attr_body

definition new_attr :: "attribute_type \<Rightarrow> u16 \<Rightarrow> attr_body \<Rightarrow> attribute" where
  "new_attr t n b = \<lparr>attr_type = attr_code t, attr_size = n, attr_body = b\<rparr>"

definition new_address :: "attribute_type \<Rightarrow> attribute" where
  "new_address t = new_attr t 8 (AddressBody address_default)"

definition new_uint8 :: "attribute_type \<Rightarrow> attribute" where
  "new_uint8 t = new_attr t 1 (UInt8Body 0)"

definition new_uint32 :: "attribute_type \<Rightarrow> attribute" where
  "new_uint32 t = new_attr t 4 (UInt32Body 0)"

definition new_uint64 :: "attribute_type \<Rightarrow> attribute" where
  "new_uint64 t = new_attr t 8 (UInt64Body 0)"

definition new_flag :: "attribute_type \<Rightarrow> attribute" where
  "new_flag t = new_attr t 0 FlagBody"

definition new_string :: "attribute_type \<Rightarrow> u16 \<Rightarrow> attribute" where
  "new_string t n = new_attr t n (StringBody None)"

definition new_list :: "attribute_type \<Rightarrow> u16 \<Rightarrow> attribute" where
  "new_list t n = new_attr t n (UInt16ListBody [])"

definition new_integrity :: attribute where
  "new_integrity = new_attr MessageIntegrity 20 (IntegrityBody [] [] [])"

definition new_error :: "u16 \<Rightarrow> attribute" where
  "new_error n = new_attr ErrorCode n (ErrorCodeBody 0 0 [])"

text \<open>\<^verbatim>\<open>Attribute::create\<close>: an empty attribute for a type and a size found on the wire.\<close>

definition create :: "u16 \<Rightarrow> u16 \<Rightarrow> attribute option" where
  "create type n =
     (case attr_of_code type of
        Some MappedAddress \<Rightarrow> if n \<noteq> 8 \<and> n \<noteq> 20 then None else Some (new_address MappedAddress)
      | Some XorMappedAddress \<Rightarrow> if n \<noteq> 8 \<and> n \<noteq> 20 then None else Some (new_address XorMappedAddress)
      | Some XorRelayedAddress \<Rightarrow> if n \<noteq> 8 \<and> n \<noteq> 20 then None else Some (new_address XorRelayedAddress)
      | Some XorPeerAddress \<Rightarrow> if n \<noteq> 8 \<and> n \<noteq> 20 then None else Some (new_address XorPeerAddress)
      | Some AlternateServer \<Rightarrow> if n \<noteq> 8 \<and> n \<noteq> 20 then None else Some (new_address AlternateServer)
      | Some ErrorCode \<Rightarrow> if n < 4 then None else Some (new_error n)
      | Some UnknownAttributes \<Rightarrow> Some (new_list UnknownAttributes n)
      | Some Fingerprint \<Rightarrow> if n \<noteq> 4 then None else Some (new_uint32 Fingerprint)
      | Some RequestedTransport \<Rightarrow> if n \<noteq> 4 then None else Some (new_uint32 RequestedTransport)
      | Some Lifetime \<Rightarrow> if n \<noteq> 4 then None else Some (new_uint32 Lifetime)
      | Some Bandwidth \<Rightarrow> if n \<noteq> 4 then None else Some (new_uint32 Bandwidth)
      | Some ChannelNumber \<Rightarrow> if n \<noteq> 0 then None else Some (new_flag ICEUseCandidate)
      | Some ConnectionID \<Rightarrow> if n \<noteq> 4 then None else Some (new_uint32 ConnectionID)
      | Some MessageIntegrity \<Rightarrow> if n = 20 then Some new_integrity else None
      | Some Nonce \<Rightarrow> if n \<le> 128 then Some (new_string Nonce n) else None
      | Some Realm \<Rightarrow> if n \<le> 128 then Some (new_string Realm n) else None
      | Some Software \<Rightarrow> if n \<le> 128 then Some (new_string Software n) else None
      | Some ReservationToken \<Rightarrow> if n = 8 then Some (new_string ReservationToken 8) else None
      | Some MagicCookie \<Rightarrow> if n = 4 then Some (new_string MagicCookie 4) else None
      | Some Data \<Rightarrow> Some (new_string Data n)
      | Some Username \<Rightarrow> if n \<le> 128 then Some (new_string Username n) else None
      | Some Password \<Rightarrow> if n \<le> 128 then Some (new_string Password n) else None
      | Some ICEPriority \<Rightarrow> if n \<noteq> 4 then None else Some (new_uint32 ICEPriority)
      | Some ICEControlled \<Rightarrow> if n \<noteq> 8 then None else Some (new_uint64 ICEControlled)
      | Some ICEControlling \<Rightarrow> if n \<noteq> 8 then None else Some (new_uint64 ICEControlling)
      | Some ICEUseCandidate \<Rightarrow> if n = 0 then Some (new_flag ICEUseCandidate) else None
      | Some DontFragment \<Rightarrow> if n \<noteq> 0 then None else Some (new_flag DontFragment)
      | Some EventPort \<Rightarrow> if n \<noteq> 1 then None else Some (new_uint8 EventPort)
      | _ \<Rightarrow> None)"

subsection \<open>Setters and getters of the derived classes\<close>

text \<open>
  \<^verbatim>\<open>1 << index\<close> is a 32-bit \<^verbatim>\<open>int\<close>; against an 8-bit field it is truncated, against a
  64-bit field it is sign-extended.
\<close>

definition int_bit :: "nat \<Rightarrow> u32" where
  "int_bit index = push_bit index 1"

definition setBit8 :: "u8 \<Rightarrow> nat \<Rightarrow> bool \<Rightarrow> u8 result" where
  "setBit8 bits index v = assert_r (index < 32)
     (Inr ((bits AND ucast (NOT (int_bit index))) OR (if v then ucast (int_bit index) else 0)))"

definition getBit8 :: "u8 \<Rightarrow> nat \<Rightarrow> bool result" where
  "getBit8 bits index = assert_r (index < 32) (Inr (drop_bit index bits AND 1 \<noteq> 0))"

definition setBit32 :: "u32 \<Rightarrow> nat \<Rightarrow> bool \<Rightarrow> u32 result" where
  "setBit32 bits index v = assert_r (index < 32)
     (Inr ((bits AND NOT (int_bit index)) OR (if v then int_bit index else 0)))"

definition getBit32 :: "u32 \<Rightarrow> nat \<Rightarrow> bool result" where
  "getBit32 bits index = assert_r (index < 32) (Inr (drop_bit index bits AND 1 \<noteq> 0))"

definition setBit64 :: "u64 \<Rightarrow> nat \<Rightarrow> bool \<Rightarrow> u64 result" where
  "setBit64 bits index v = assert_r (index < 32)
     (Inr ((bits AND scast (NOT (int_bit index))) OR (if v then scast (int_bit index) else 0)))"

definition getBit64 :: "u64 \<Rightarrow> nat \<Rightarrow> bool result" where
  "getBit64 bits index = assert_r (index < 32) (Inr (drop_bit index bits AND 1 \<noteq> 0))"

definition setAddress :: "attribute \<Rightarrow> net_address \<Rightarrow> attribute" where
  "setAddress a addr = a\<lparr>attr_body := AddressBody addr\<rparr>"

definition setBytes :: "attribute \<Rightarrow> bytes \<Rightarrow> attribute" where
  "setBytes a bs = a\<lparr>attr_body := StringBody (Some bs), attr_size := word_of_nat (length bs)\<rparr>"

text \<open>\<^verbatim>\<open>copyBytes(const char*)\<close> measures the string and cuts the length to 16 bits.\<close>

definition copyBytes_cstr :: "attribute \<Rightarrow> bytes \<Rightarrow> attribute" where
  "copyBytes_cstr a bs =
     (let str = takeWhile (\<lambda>b. b \<noteq> 0) bs
      in setBytes a (take (length str mod 2 ^ 16) str))"

definition getByte :: "attribute \<Rightarrow> int \<Rightarrow> u8 result" where
  "getByte a index =
     (case attr_body a of
        StringBody (Some bs) \<Rightarrow>
          assert_r (0 \<le> index \<and> index < int (unat (attr_size a)))
            (if nat index < length bs then Inr (bs ! nat index) else Inl Undefined)
      | _ \<Rightarrow> Inl AssertFail)"

definition setByte :: "attribute \<Rightarrow> int \<Rightarrow> u8 \<Rightarrow> attribute result" where
  "setByte a index v =
     (case attr_body a of
        StringBody (Some bs) \<Rightarrow>
          assert_r (0 \<le> index \<and> index < int (unat (attr_size a)))
            (if nat index < length bs then Inr (a\<lparr>attr_body := StringBody (Some (bs[nat index := v]))\<rparr>)
             else Inl Undefined)
      | _ \<Rightarrow> Inl AssertFail)"

definition asString :: "attribute \<Rightarrow> bytes result" where
  "asString a =
     (case attr_body a of
        StringBody (Some bs) \<Rightarrow>
          if unat (attr_size a) \<le> length bs then Inr (take (unat (attr_size a)) bs) else Inl Undefined
      | _ \<Rightarrow> if attr_size a = 0 then Inr [] else Inl Undefined)"

definition addType :: "attribute \<Rightarrow> u16 \<Rightarrow> attribute" where
  "addType a v =
     (case attr_body a of
        UInt16ListBody ts \<Rightarrow>
          a\<lparr>attr_body := UInt16ListBody (ts @ [v]), attr_size := word_of_nat (length (ts @ [v]) * 2)\<rparr>
      | _ \<Rightarrow> a)"

text \<open>The vector's \<^verbatim>\<open>operator[]\<close> does not check its index.\<close>

definition getType :: "attribute \<Rightarrow> int \<Rightarrow> u16 result" where
  "getType a index =
     (case attr_body a of
        UInt16ListBody ts \<Rightarrow>
          if 0 \<le> index \<and> index < int (length ts) then Inr (ts ! nat index) else Inl Undefined
      | _ \<Rightarrow> Inl AssertFail)"

definition setType :: "attribute \<Rightarrow> int \<Rightarrow> u16 \<Rightarrow> attribute result" where
  "setType a index v =
     (case attr_body a of
        UInt16ListBody ts \<Rightarrow>
          if 0 \<le> index \<and> index < int (length ts)
          then Inr (a\<lparr>attr_body := UInt16ListBody (ts[nat index := v])\<rparr>) else Inl Undefined
      | _ \<Rightarrow> Inl AssertFail)"

text \<open>
  \<^verbatim>\<open>Attribute::clone\<close>: the copy constructors. The integer classes reset the size to the
  class constant, the error code resets the type, and a string copies \<^verbatim>\<open>_size\<close> bytes from
  \<^verbatim>\<open>_bytes\<close>.
\<close>

definition clone :: "attribute \<Rightarrow> attribute result" where
  "clone a =
     (case attr_body a of
        AddressBody addr \<Rightarrow> Inr a
      | UInt8Body v \<Rightarrow> Inr (a\<lparr>attr_size := 1\<rparr>)
      | UInt32Body v \<Rightarrow> Inr (a\<lparr>attr_size := 4\<rparr>)
      | UInt64Body v \<Rightarrow> Inr (a\<lparr>attr_size := 8\<rparr>)
      | FlagBody \<Rightarrow> Inr (a\<lparr>attr_size := 0\<rparr>)
      | StringBody None \<Rightarrow> if attr_size a = 0 then Inr (setBytes a []) else Inl Undefined
      | StringBody (Some bs) \<Rightarrow>
          if unat (attr_size a) \<le> length bs then Inr (setBytes a (take (unat (attr_size a)) bs))
          else Inl Undefined
      | UInt16ListBody ts \<Rightarrow> Inr a
      | IntegrityBody input hmac key \<Rightarrow> Inr (a\<lparr>attr_size := 20\<rparr>)
      | ErrorCodeBody cls num reason \<Rightarrow> Inr (a\<lparr>attr_type := attr_code ErrorCode\<rparr>))"

definition errorCode :: "u8 \<Rightarrow> u8 \<Rightarrow> int" where
  "errorCode cls num = int (unat cls) * 100 + int (unat num)"

definition trunc_div :: "int \<Rightarrow> int \<Rightarrow> int" where
  "trunc_div a b = (if 0 \<le> a then a div b else - ((- a) div b))"

definition setErrorCode :: "attribute \<Rightarrow> int \<Rightarrow> attribute" where
  "setErrorCode a code =
     (case attr_body a of
        ErrorCodeBody _ _ reason \<Rightarrow>
          a\<lparr>attr_body := ErrorCodeBody (word_of_int (trunc_div code 100))
              (word_of_int (code - 100 * trunc_div code 100)) reason\<rparr>
      | _ \<Rightarrow> a)"

definition setReason :: "attribute \<Rightarrow> bytes \<Rightarrow> attribute" where
  "setReason a reason =
     (case attr_body a of
        ErrorCodeBody cls num _ \<Rightarrow>
          a\<lparr>attr_body := ErrorCodeBody cls num reason, attr_size := 4 + word_of_nat (length reason)\<rparr>
      | _ \<Rightarrow> a)"

definition setKey :: "attribute \<Rightarrow> bytes \<Rightarrow> attribute" where
  "setKey a key =
     (case attr_body a of
        IntegrityBody input hmac _ \<Rightarrow> a\<lparr>attr_body := IntegrityBody input hmac key\<rparr>
      | _ \<Rightarrow> a)"

definition verifyHmac :: "'a platform_scheme \<Rightarrow> attribute \<Rightarrow> bytes \<Rightarrow> bool result" where
  "verifyHmac env a key =
     (case attr_body a of
        IntegrityBody input hmac _ \<Rightarrow>
          assert_r (key \<noteq> []) (assert_r (hmac \<noteq> []) (assert_r (input \<noteq> [])
            (let h = compute_hmac env input key
             in assert_r (length h = 20) (Inr (hmac = h)))))
      | _ \<Rightarrow> Inl AssertFail)"

subsection \<open>Reading and writing bodies\<close>

definition consumePadding :: "attribute \<Rightarrow> bit_reader \<Rightarrow> bit_reader result" where
  "consumePadding a r =
     (let remainder = unat (attr_size a) mod 4
      in if remainder > 0 then rd_skip r (4 - remainder) else Inr r)"

definition writePadding :: "attribute \<Rightarrow> bit_writer \<Rightarrow> bit_writer result" where
  "writePadding a w =
     (let remainder = unat (attr_size a) mod 4
      in if remainder > 0 then wr_put w (replicate (4 - remainder) 0) else Inr w)"

definition intToIPv4 :: "u32 \<Rightarrow> string" where
  "intToIPv4 ip =
     itostr (unat (drop_bit 24 ip AND 0xff)) @ ''.'' @ itostr (unat (drop_bit 16 ip AND 0xff)) @ ''.'' @
     itostr (unat (drop_bit 8 ip AND 0xff)) @ ''.'' @ itostr (unat (ip AND 0xff))"

definition address_read ::
    "'a platform_scheme \<Rightarrow> attribute \<Rightarrow> bit_reader \<Rightarrow> (attribute \<times> bit_reader) result" where
  "address_read env a r =
     (let be = big_endian env in
      bind_r (rd_getU8 r) (\<lambda>(dummy, r).
      bind_r (rd_getU8 r) (\<lambda>(family, r).
      bind_r (rd_getU16 be r) (\<lambda>(port, r).
        let port = ntohs be port XOR ntohs be (ucast (drop_bit 16 kMagicCookie)) in
        if family = 1 then
          (if attr_size a \<noteq> 8 then Inl AssertFail
           else bind_r (rd_getU32 be r) (\<lambda>(ip, r).
             let ip = ntohl be ip XOR ntohl be kMagicCookie in
             bind_r (address_init env (intToIPv4 (ntohl be ip)) (ntohs be port)) (\<lambda>addr.
               Inr (a\<lparr>attr_body := AddressBody addr\<rparr>, r))))
        else Inl AssertFail))))"

definition stun_family :: "net_address \<Rightarrow> u8" where
  "stun_family a = (case na_family a of IPv4 \<Rightarrow> 1 | IPv6 \<Rightarrow> 2)"

definition address_write :: "'a platform_scheme \<Rightarrow> net_address \<Rightarrow> bit_writer \<Rightarrow> bit_writer result" where
  "address_write env addr w =
     (let be = big_endian env in
      bind_r (wr_putU8 w 0) (\<lambda>w.
      bind_r (wr_putU8 w (stun_family addr)) (\<lambda>w.
      (case na_family addr of
         IPv4 \<Rightarrow>
           (let port = ntohs be (sin_port addr) XOR ucast (drop_bit 16 kMagicCookie) in
            bind_r (wr_putU16 be w port) (\<lambda>w.
              let ip = ntohl be (load32 be (sin_addr addr)) XOR kMagicCookie
              in wr_putU32 be w ip))
       | IPv6 \<Rightarrow> Inl AssertFail))))"

text \<open>
  The list attribute hides \<^verbatim>\<open>size()\<close> with the number of its entries, so its reading loop
  \<^verbatim>\<open>for (i = 0; i < size() / 2; i++)\<close> is bounded by the list that grows inside it.
\<close>

function list_read_loop :: "bool \<Rightarrow> nat \<Rightarrow> u16 list \<Rightarrow> bit_reader \<Rightarrow> (u16 list \<times> bit_reader) result" where
  "list_read_loop be i ts r =
     (if i < length ts div 2
      then bind_r (rd_getU16 be r) (\<lambda>(t, r). list_read_loop be (Suc i) (ts @ [t]) r)
      else Inr (ts, r))"
  by pat_completeness auto
termination
  by (relation "measure (\<lambda>(be, i, ts, r). length ts - 2 * i)") auto

declare list_read_loop.simps [simp del]

fun list_write :: "bool \<Rightarrow> u16 list \<Rightarrow> bit_writer \<Rightarrow> bit_writer result" where
  "list_write be [] w = Inr w"
| "list_write be (t # ts) w = bind_r (wr_putU16 be w t) (\<lambda>w. list_write be ts w)"

text \<open>
  The copy of the message that goes into the HMAC, on both sides: a buffer of exactly the size of
  the message before the attribute is filled, and then its length field is to be updated.
\<close>

definition hmac_input :: "bool \<Rightarrow> bytes \<Rightarrow> nat \<Rightarrow> bytes result" where
  "hmac_input be message position =
     (if position < kAttributeHeaderSize then Inl LengthError
      else let sizeBefore = position - kAttributeHeaderSize;
               hmacWriter = wr_of_buffer (replicate sizeBefore 0) in
        if sizeBefore > length message then Inl Undefined
        else bind_r (wr_put hmacWriter (take sizeBefore message)) (\<lambda>hmacWriter.
             bind_r (wr_updateU32 be hmacWriter (word_of_nat sizeBefore + 20) 2) (\<lambda>(_, hmacWriter).
               wr_toString hmacWriter)))"

definition integrity_read ::
    "'a platform_scheme \<Rightarrow> attribute \<Rightarrow> bytes \<Rightarrow> bit_reader \<Rightarrow> (attribute \<times> bit_reader) result" where
  "integrity_read env a key r =
     bind_r (hmac_input (big_endian env) (rd_bytes r) (rd_position r)) (\<lambda>input.
     bind_r (rd_substr r 20) (\<lambda>hmac.
     bind_r (rd_skip r 20) (\<lambda>r.
       Inr (a\<lparr>attr_body := IntegrityBody input hmac key\<rparr>, r))))"

definition integrity_write ::
    "'a platform_scheme \<Rightarrow> bytes \<Rightarrow> bytes \<Rightarrow> bit_writer \<Rightarrow> bit_writer result" where
  "integrity_write env hmac key w =
     (if key \<noteq> [] then
        bind_r (hmac_input (big_endian env) (wr_mem w) (wr_position w)) (\<lambda>input.
        assert_r (length input = wr_position w - kAttributeHeaderSize)
          (let h = compute_hmac env input key
           in assert_r (length h = 20) (wr_put w h)))
      else assert_r (length hmac = 20) (wr_put w hmac))"

definition error_read ::
    "'a platform_scheme \<Rightarrow> attribute \<Rightarrow> bytes \<Rightarrow> bit_reader \<Rightarrow> (attribute \<times> bit_reader) result" where
  "error_read env a reason r =
     bind_r (rd_getU32 (big_endian env) r) (\<lambda>(val, r).
       if drop_bit 11 val \<noteq> 0 then Inl RuntimeError
       else let cls = ucast (drop_bit 8 val AND 0x7); num = ucast (val AND 0xff) in
         bind_r (rd_get_string r reason (unat (attr_size a) - 4)) (\<lambda>(reason, r).
         bind_r (consumePadding a r) (\<lambda>r.
           Inr (a\<lparr>attr_body := ErrorCodeBody cls num reason\<rparr>, r))))"

definition error_write ::
    "'a platform_scheme \<Rightarrow> attribute \<Rightarrow> u8 \<Rightarrow> u8 \<Rightarrow> bytes \<Rightarrow> bit_writer \<Rightarrow> bit_writer result" where
  "error_write env a cls num reason w =
     bind_r (wr_putU32 (big_endian env) w (push_bit 8 (ucast cls) OR ucast num)) (\<lambda>w.
     bind_r (wr_put w reason) (\<lambda>w. writePadding a w))"

definition string_read :: "attribute \<Rightarrow> bit_reader \<Rightarrow> (attribute \<times> bit_reader) result" where
  "string_read a r =
     bind_r (rd_get r (unat (attr_size a))) (\<lambda>(bs, r).
     bind_r (consumePadding a r) (\<lambda>r.
       Inr (a\<lparr>attr_body := StringBody (Some bs)\<rparr>, r)))"

definition string_write :: "attribute \<Rightarrow> bytes option \<Rightarrow> bit_writer \<Rightarrow> bit_writer result" where
  "string_write a bytes w =
     bind_r (case bytes of
               None \<Rightarrow> Inr w
             | Some bs \<Rightarrow>
                 if unat (attr_size a) \<le> length bs then wr_put w (take (unat (attr_size a)) bs)
                 else Inl Undefined)
       (\<lambda>w. writePadding a w)"

text \<open>\<^verbatim>\<open>Attribute::read\<close> and \<^verbatim>\<open>Attribute::write\<close>: the virtual functions.\<close>

definition read_attribute ::
    "'a platform_scheme \<Rightarrow> attribute \<Rightarrow> bit_reader \<Rightarrow> (attribute \<times> bit_reader) result" where
  "read_attribute env a r =
     (let be = big_endian env in
      case attr_body a of
        AddressBody _ \<Rightarrow> address_read env a r
      | UInt8Body _ \<Rightarrow>
          bind_r (rd_getU8 r) (\<lambda>(v, r). Inr (a\<lparr>attr_body := UInt8Body v\<rparr>, r))
      | UInt32Body _ \<Rightarrow>
          bind_r (rd_getU32 be r) (\<lambda>(v, r). Inr (a\<lparr>attr_body := UInt32Body v\<rparr>, r))
      | UInt64Body _ \<Rightarrow>
          bind_r (rd_getU64 be r) (\<lambda>(v, r). Inr (a\<lparr>attr_body := UInt64Body v\<rparr>, r))
      | FlagBody \<Rightarrow> Inl AssertFail
      | StringBody _ \<Rightarrow> string_read a r
      | UInt16ListBody ts \<Rightarrow>
          bind_r (list_read_loop be 0 ts r) (\<lambda>(ts, r).
          bind_r (consumePadding a r) (\<lambda>r. Inr (a\<lparr>attr_body := UInt16ListBody ts\<rparr>, r)))
      | IntegrityBody _ _ key \<Rightarrow> integrity_read env a key r
      | ErrorCodeBody _ _ reason \<Rightarrow> error_read env a reason r)"

definition write_attribute ::
    "'a platform_scheme \<Rightarrow> attribute \<Rightarrow> bit_writer \<Rightarrow> bit_writer result" where
  "write_attribute env a w =
     (let be = big_endian env in
      case attr_body a of
        AddressBody addr \<Rightarrow> address_write env addr w
      | UInt8Body v \<Rightarrow> wr_putU8 w v
      | UInt32Body v \<Rightarrow> wr_putU32 be w v
      | UInt64Body v \<Rightarrow> wr_putU64 be w v
      | FlagBody \<Rightarrow> Inl AssertFail
      | StringBody bytes \<Rightarrow> string_write a bytes w
      | UInt16ListBody ts \<Rightarrow> bind_r (list_write be ts w) (\<lambda>w. writePadding a w)
      | IntegrityBody _ hmac key \<Rightarrow> integrity_write env hmac key w
      | ErrorCodeBody cls num reason \<Rightarrow> error_write env a cls num reason w)"

subsection \<open>Types\<close>

lemma attr_of_code_code [simp]: "attr_of_code (attr_code t) = Some t"
  by (cases t) (simp_all add: attr_of_code_def attribute_types_def)

lemma attr_of_code_SomeD: "attr_of_code c = Some t \<Longrightarrow> attr_code t = c"
  by (auto simp: attr_of_code_def find_Some_iff)

subsection \<open>The HMAC input\<close>

text \<open>
  The update of the length field never happens: the buffer is full when \<^verbatim>\<open>updateU32\<close> is
  called, so the check of \<^verbatim>\<open>update\<close> refuses it. The input is the plain prefix.
\<close>

lemma hmac_input_prefix:
  assumes "kAttributeHeaderSize < position" and "position - kAttributeHeaderSize \<le> length message"
    and "length message < size_max"
  shows "hmac_input be message position = Inr (take (position - kAttributeHeaderSize) message)"
proof -
  let ?n = "position - kAttributeHeaderSize"
  let ?w0 = "wr_of_buffer (replicate ?n 0)" and ?m = "take ?n message"
  have n: "0 < ?n" "?n < size_max" "length ?m = ?n" using assms by auto
  let ?w1 = "\<lparr>wr_mem = ?m, wr_position = ?n, wr_limit = ?n, wr_order = Network, wr_dynamic = None\<rparr>"
  have "wr_put ?w0 ?m = Inr ?w1"
    using n by (simp add: wr_of_buffer_def wr_init_def wr_put_def bw_put_def size_add_def Let_def)
  moreover have "wr_updateU32 be ?w1 v 2 = Inr (False, ?w1)" for v
    using n by (simp add: wr_updateU32_def wr_update_def bw_update_def wr_available_def size_sub_le
        size_add_def)
  moreover have "wr_toString ?w1 = Inr ?m"
    using n by (simp add: wr_toString_def)
  ultimately show ?thesis
    using assms by (simp add: hmac_input_def Let_def)
qed

subsection \<open>Wire images\<close>

definition padding :: "attribute \<Rightarrow> bytes" where
  "padding a = replicate ((4 - unat (attr_size a) mod 4) mod 4) 0"

text \<open>The body of an attribute on the wire, when \<open>pre\<close> is the message before it.\<close>

definition attr_image :: "'a platform_scheme \<Rightarrow> bytes \<Rightarrow> attribute \<Rightarrow> bytes" where
  "attr_image env pre a =
     (case attr_body a of
        AddressBody addr \<Rightarrow>
          [0, stun_family addr] @
          setBE16 (address_port env addr XOR ucast (drop_bit 16 kMagicCookie)) @
          setBE32 (getBE32 (sin_addr addr) XOR kMagicCookie)
      | UInt8Body v \<Rightarrow> [v]
      | UInt32Body v \<Rightarrow> setBE32 v
      | UInt64Body v \<Rightarrow> setBE64 v
      | FlagBody \<Rightarrow> []
      | StringBody bytes \<Rightarrow> (case bytes of None \<Rightarrow> [] | Some bs \<Rightarrow> bs) @ padding a
      | UInt16ListBody ts \<Rightarrow> concat (map setBE16 ts) @ padding a
      | IntegrityBody _ hmac key \<Rightarrow>
          if key \<noteq> [] then compute_hmac env (take (length pre - kAttributeHeaderSize) pre) key
          else hmac
      | ErrorCodeBody cls num reason \<Rightarrow>
          setBE32 (push_bit 8 (ucast cls) OR ucast num) @ reason @ padding a)"

text \<open>The attribute a receiver holds afterwards: the integrity attribute keeps no key.\<close>

definition attr_back :: "'a platform_scheme \<Rightarrow> bytes \<Rightarrow> attribute \<Rightarrow> attribute" where
  "attr_back env pre a =
     (case attr_body a of
        IntegrityBody _ _ _ \<Rightarrow>
          a\<lparr>attr_body := IntegrityBody (take (length pre - kAttributeHeaderSize) pre)
              (attr_image env pre a) []\<rparr>
      | _ \<Rightarrow> a)"

text \<open>
  The attributes that survive the wire: the factory recognises type and size, and the body has
  the class the factory creates and a content its size field describes.
\<close>

fun body_fits :: "attr_body \<Rightarrow> u16 \<Rightarrow> attr_body \<Rightarrow> bool" where
  "body_fits (AddressBody _) n (AddressBody addr) \<longleftrightarrow>
     na_family addr = IPv4 \<and> sin_family addr = AF_INET \<and> length (sin_addr addr) = 4 \<and> n = 8"
| "body_fits (UInt32Body _) n (UInt32Body _) \<longleftrightarrow> True"
| "body_fits (UInt64Body _) n (UInt64Body _) \<longleftrightarrow> True"
| "body_fits (StringBody _) n (StringBody (Some bs)) \<longleftrightarrow> length bs = unat n"
| "body_fits (IntegrityBody _ _ _) n (IntegrityBody _ hmac key) \<longleftrightarrow> key \<noteq> [] \<or> length hmac = 20"
| "body_fits (ErrorCodeBody _ _ _) n (ErrorCodeBody cls num reason) \<longleftrightarrow>
     cls < 8 \<and> length reason + 4 = unat n"
| "body_fits _ n _ \<longleftrightarrow> False"

definition attr_wf :: "attribute \<Rightarrow> bool" where
  "attr_wf a \<longleftrightarrow>
     (case create (attr_type a) (attr_size a) of
        None \<Rightarrow> False
      | Some a0 \<Rightarrow> attr_type a0 = attr_type a \<and> attr_size a0 = attr_size a \<and>
                   body_fits (attr_body a0) (attr_size a) (attr_body a))"

definition hmac_20 :: "'a platform_scheme \<Rightarrow> bool" where
  "hmac_20 env \<longleftrightarrow> (\<forall>input key. length (compute_hmac env input key) = 20)"

text \<open>A freshly created attribute: its body is empty.\<close>

fun fresh_body :: "attr_body \<Rightarrow> bool" where
  "fresh_body (StringBody b) \<longleftrightarrow> b = None"
| "fresh_body (UInt16ListBody ts) \<longleftrightarrow> ts = []"
| "fresh_body (IntegrityBody i h k) \<longleftrightarrow> i = [] \<and> h = [] \<and> k = []"
| "fresh_body (ErrorCodeBody c n r) \<longleftrightarrow> r = []"
| "fresh_body _ \<longleftrightarrow> True"

lemmas new_defs = new_attr_def new_address_def new_uint8_def new_uint32_def new_uint64_def
  new_flag_def new_string_def new_list_def new_integrity_def new_error_def

lemma create_fresh: "create t n = Some a0 \<Longrightarrow> fresh_body (attr_body a0)"
  by (auto simp: create_def new_defs split: option.splits attribute_type.splits if_splits)

lemma length_padding: "length (padding a) < 4"
  by (simp add: padding_def)

lemma unat_and_ff: "unat (w AND 0xff) = unat (ucast w :: u8)" for w :: u32
proof -
  have "w AND 0xff = take_bit 8 w"
    by (simp add: take_bit_eq_mask mask_eq_exp_minus_1)
  then show ?thesis
    by (simp add: unsigned_take_bit_eq unsigned_ucast_eq)
qed

lemma intToIPv4_ntop4: "intToIPv4 ip = inet_ntop4 (setBE32 ip)"
  by (simp add: intToIPv4_def inet_ntop4_def setBE32_def unat_and_ff)

lemma address_init_intToIPv4:
  "address_init env (intToIPv4 ip) port =
   Inr (IPv4AddressBase (setBE32 ip) (htons (big_endian env) port))"
  by (simp add: address_init_def intToIPv4_ntop4 inet_pton4_ntop4)

subsection \<open>Writing\<close>

context byte_sink
begin

lemma padding_holds:
  assumes "holds w bs (length (padding a) + n)"
  shows "\<exists>w'. writePadding a w = Inr w' \<and> holds w' (bs @ padding a) n"
proof (cases "unat (attr_size a) mod 4 = 0")
  case True
  then have "padding a = []" "writePadding a w = Inr w"
    by (simp_all add: padding_def writePadding_def)
  with assms show ?thesis by simp
next
  case False
  then have "padding a = replicate (4 - unat (attr_size a) mod 4) 0"
    by (simp add: padding_def)
  with False put_holds [OF assms] show ?thesis
    by (simp add: writePadding_def)
qed

lemma seq_holds:
  assumes "\<exists>w'. f = Inr w' \<and> holds w' (bs @ cs) (n + m)"
    and "\<And>w'. holds w' (bs @ cs) (n + m) \<Longrightarrow> \<exists>w''. g w' = Inr w'' \<and> holds w'' ((bs @ cs) @ ds) m"
  shows "\<exists>w''. bind_r f g = Inr w'' \<and> holds w'' (bs @ cs @ ds) m"
  using assms by fastforce

lemma address_write_holds:
  assumes "na_family addr = IPv4" and "length (sin_addr addr) = 4"
    and a: "attr_body a = AddressBody addr"
    and h: "holds w bs (length (attr_image env pre a) + n)"
  shows "\<exists>w'. address_write env addr w = Inr w' \<and> holds w' (bs @ attr_image env pre a) n"
proof -
  let ?be = "big_endian env"
  let ?port = "ntohs ?be (sin_port addr) XOR ucast (drop_bit 16 kMagicCookie)"
  let ?ip = "ntohl ?be (load32 ?be (sin_addr addr)) XOR kMagicCookie"
  obtain w1 where w1: "wr_putU8 w 0 = Inr w1" "holds w1 (bs @ [0]) (7 + n)"
    using putU8_holds [of w bs "7 + n" 0] h by (auto simp: a attr_image_def)
  obtain w2 where w2: "wr_putU8 w1 (stun_family addr) = Inr w2"
      "holds w2 ((bs @ [0]) @ [stun_family addr]) (6 + n)"
    using putU8_holds [of w1 "bs @ [0]" "6 + n" "stun_family addr"] w1(2) by auto
  obtain w3 where w3: "wr_putU16 ?be w2 ?port = Inr w3"
      "holds w3 (((bs @ [0]) @ [stun_family addr]) @ setBE16 ?port) (4 + n)"
    using putU16_holds [of w2 "(bs @ [0]) @ [stun_family addr]" "4 + n" ?be ?port] w2(2) by auto
  obtain w4 where w4: "wr_putU32 ?be w3 ?ip = Inr w4"
      "holds w4 ((((bs @ [0]) @ [stun_family addr]) @ setBE16 ?port) @ setBE32 ?ip) n"
    using putU32_holds [OF w3(2), of ?be ?ip] by auto
  have ip: "?ip = getBE32 (sin_addr addr) XOR kMagicCookie"
    using assms(2) by (simp add: ntohl_def)
  have img: "attr_image env pre a = [0] @ [stun_family addr] @ setBE16 ?port @ setBE32 ?ip"
    unfolding ip by (simp add: a attr_image_def address_port_def)
  have "address_write env addr w = Inr w4"
    using assms(1) w1(1) w2(1) w3(1) w4(1) by (simp add: address_write_def Let_def)
  with w4(2) show ?thesis unfolding img by auto
qed

lemma error_write_holds:
  assumes "attr_body a = ErrorCodeBody cls num reason"
    and h: "holds w bs (length (attr_image env pre a) + n)"
  shows "\<exists>w'. error_write env a cls num reason w = Inr w' \<and> holds w' (bs @ attr_image env pre a) n"
proof -
  let ?v = "push_bit 8 (ucast cls) OR ucast num :: u32"
  have img: "attr_image env pre a = setBE32 ?v @ reason @ padding a"
    using assms(1) by (simp add: attr_image_def)
  obtain w1 where w1: "wr_putU32 (big_endian env) w ?v = Inr w1"
      "holds w1 (bs @ setBE32 ?v) (length reason + (length (padding a) + n))"
    using putU32_holds [of w bs "length reason + (length (padding a) + n)" "big_endian env" ?v] h
    by (auto simp: img add.assoc)
  obtain w2 where w2: "wr_put w1 reason = Inr w2"
      "holds w2 ((bs @ setBE32 ?v) @ reason) (length (padding a) + n)"
    using put_holds [OF w1(2)] by auto
  obtain w3 where w3: "writePadding a w2 = Inr w3"
      "holds w3 (((bs @ setBE32 ?v) @ reason) @ padding a) n"
    using padding_holds [OF w2(2)] by auto
  show ?thesis
    using w1(1) w2(1) w3 by (simp add: error_write_def img)
qed

lemma string_write_holds:
  assumes "attr_body a = StringBody (Some cs)" and "length cs = unat (attr_size a)"
    and h: "holds w bs (length (attr_image env pre a) + n)"
  shows "\<exists>w'. string_write a (Some cs) w = Inr w' \<and> holds w' (bs @ attr_image env pre a) n"
proof -
  have img: "attr_image env pre a = cs @ padding a"
    using assms(1) by (simp add: attr_image_def)
  obtain w1 where w1: "wr_put w cs = Inr w1" "holds w1 (bs @ cs) (length (padding a) + n)"
    using put_holds [of w bs cs "length (padding a) + n"] h by (auto simp: img add.assoc)
  obtain w2 where w2: "writePadding a w1 = Inr w2" "holds w2 ((bs @ cs) @ padding a) n"
    using padding_holds [OF w1(2)] by auto
  show ?thesis
    using w1(1) w2 assms(2) by (simp add: string_write_def img)
qed

lemma integrity_write_holds:
  assumes a: "attr_body a = IntegrityBody input hmac key" and "key \<noteq> [] \<or> length hmac = 20"
    and "hmac_20 env" and "kAttributeHeaderSize < length bs"
    and h: "holds w bs (length (attr_image env bs a) + n)"
  shows "\<exists>w'. integrity_write env hmac key w = Inr w' \<and> holds w' (bs @ attr_image env bs a) n"
proof -
  have put: "\<exists>w'. wr_put w (attr_image env bs a) = Inr w' \<and> holds w' (bs @ attr_image env bs a) n"
    by (rule put_holds [OF h])
  let ?k = "length bs - kAttributeHeaderSize"
  have pos: "wr_position w = length bs" and mem: "take (length bs) (wr_mem w) = bs"
    and sz: "length (wr_mem w) < size_max"
    using holds_position [OF h] holds_mem [OF h] holds_size [OF h] by auto
  have le: "length bs \<le> length (wr_mem w)"
    using mem by (auto dest!: arg_cong [where f = length])
  have "take ?k (wr_mem w) = take ?k bs"
    using mem by (metis diff_le_self min.absorb1 take_take)
  then have "hmac_input (big_endian env) (wr_mem w) (wr_position w) = Inr (take ?k bs)"
    using hmac_input_prefix [of "wr_position w" "wr_mem w" "big_endian env"] assms(4) le sz
    by (simp add: pos)
  then show ?thesis
    using put assms(2,3) by (auto simp: integrity_write_def attr_image_def a pos hmac_20_def Let_def)
qed

lemma write_attribute_holds:
  assumes "attr_wf a" and "hmac_20 env" and "kAttributeHeaderSize < length bs"
    and h: "holds w bs (length (attr_image env bs a) + n)"
  shows "\<exists>w'. write_attribute env a w = Inr w' \<and> holds w' (bs @ attr_image env bs a) n"
proof -
  obtain b0 where fits: "body_fits b0 (attr_size a) (attr_body a)"
    using assms(1) by (auto simp: attr_wf_def split: option.splits)
  show ?thesis
  proof (cases "attr_body a")
    case (AddressBody addr)
    then show ?thesis using fits address_write_holds [OF _ _ AddressBody h]
      by (cases b0) (auto simp: write_attribute_def)
  next
    case (UInt32Body v)
    then show ?thesis using putU32_holds [of w bs n "big_endian env" v] h
      by (simp add: write_attribute_def attr_image_def)
  next
    case (UInt64Body v)
    then show ?thesis using putU64_holds [of w bs n "big_endian env" v] h
      by (simp add: write_attribute_def attr_image_def)
  next
    case (StringBody bytes)
    then obtain cs where cs: "bytes = Some cs" "length cs = unat (attr_size a)"
      using fits by (cases b0; cases bytes) auto
    then show ?thesis using string_write_holds [of a cs, OF _ _ h] StringBody
      by (simp add: write_attribute_def)
  next
    case (IntegrityBody input hmac key)
    then show ?thesis using integrity_write_holds [OF IntegrityBody _ assms(2,3) h] fits
      by (cases b0) (auto simp: write_attribute_def)
  next
    case (ErrorCodeBody cls num reason)
    then show ?thesis using error_write_holds [OF ErrorCodeBody h]
      by (simp add: write_attribute_def)
  qed (use fits in \<open>cases b0; simp\<close>)+
qed

end

subsection \<open>Reading\<close>

lemma padding_at:
  assumes "length pre + length (padding a) + length suf < size_max"
  shows "consumePadding a (rd_at pre (padding a @ suf)) = Inr (rd_at (pre @ padding a) suf)"
proof (cases "unat (attr_size a) mod 4 = 0")
  case True
  then show ?thesis by (simp add: consumePadding_def padding_def)
next
  case False
  then have "length (padding a) = 4 - unat (attr_size a) mod 4"
    by (simp add: padding_def)
  with False rd_skip_at [OF assms] show ?thesis
    by (simp add: consumePadding_def)
qed

lemma string_read_at:
  assumes "length bs = unat (attr_size a)"
    and "length pre + length bs + length (padding a) + length suf < size_max"
  shows "string_read a (rd_at pre (bs @ padding a @ suf)) =
         Inr (a\<lparr>attr_body := StringBody (Some bs)\<rparr>, rd_at (pre @ bs @ padding a) suf)"
  using rd_get_at [of pre bs "padding a @ suf"] padding_at [of "pre @ bs" a suf] assms
  by (simp add: string_read_def)

lemma small_bits:
  fixes w :: u8
  assumes "w < 8" and "bit w n"
  shows "n < 3"
proof (rule ccontr)
  assume "\<not> n < 3"
  then have "bit (drop_bit 3 w) (n - 3)"
    using assms(2) by (simp add: bit_drop_bit_eq)
  moreover have "unat (drop_bit 3 w) = 0"
    using assms(1) by (simp only: unat_drop_bit_eq) (simp add: drop_bit_eq_div word_less_nat_alt)
  ultimately show False by (simp add: unat_eq_zero)
qed

lemma error_value:
  fixes cls num :: u8
  assumes "cls < 8"
  defines "v \<equiv> push_bit 8 (ucast cls) OR ucast num :: u32"
  shows "drop_bit 11 v = 0" and "ucast (drop_bit 8 v AND 0x7) = cls" and "ucast (v AND 0xff) = num"
proof -
  have m: "(0x7 :: u32) = mask 3" "(0xff :: u32) = mask 8"
    by (simp_all add: mask_eq_exp_minus_1)
  show "drop_bit 11 v = 0"
    by (rule bit_word_eqI) (auto simp: v_def bit_simps dest: small_bits [OF assms(1)])
  show "ucast (drop_bit 8 v AND 0x7) = cls"
    unfolding m by (rule bit_word_eqI) (auto simp: v_def bit_simps dest: small_bits [OF assms(1)])
  show "ucast (v AND 0xff) = num"
    unfolding m by (rule bit_word_eqI) (auto simp: v_def bit_simps)
qed

lemma error_read_at:
  assumes "attr_body a = ErrorCodeBody cls num reason" and "cls < 8"
    and "length reason + 4 = unat (attr_size a)" and "attr_size a0 = attr_size a"
    and "length pre + length (attr_image env pre a) + length suf < size_max"
  shows "error_read env a0 [] (rd_at pre (attr_image env pre a @ suf)) =
         Inr (a0\<lparr>attr_body := ErrorCodeBody cls num reason\<rparr>, rd_at (pre @ attr_image env pre a) suf)"
proof -
  let ?v = "push_bit 8 (ucast cls) OR ucast num :: u32"
  have img: "attr_image env pre a = setBE32 ?v @ reason @ padding a"
    using assms(1) by (simp add: attr_image_def)
  have pad: "padding a = padding a0" using assms(4) by (simp add: padding_def)
  have n: "unat (attr_size a0) - 4 = length reason" using assms(3,4) by simp
  show ?thesis
    using rd_getU32_at [of pre "reason @ padding a @ suf" "big_endian env" ?v]
      rd_get_string_at [of "pre @ setBE32 ?v" reason "padding a @ suf" "[]"]
      padding_at [of "pre @ setBE32 ?v @ reason" a0 suf] assms(5) error_value [OF assms(2)]
    by (simp add: error_read_def img n pad Let_def)
qed

lemma address_read_at:
  assumes "attr_body a = AddressBody addr" and "na_family addr = IPv4"
    and "sin_family addr = AF_INET" and "length (sin_addr addr) = 4" and "attr_size a0 = 8"
    and "length pre + length (attr_image env pre a) + length suf < size_max"
  shows "address_read env a0 (rd_at pre (attr_image env pre a @ suf)) =
         Inr (a0\<lparr>attr_body := AddressBody addr\<rparr>, rd_at (pre @ attr_image env pre a) suf)"
proof -
  let ?be = "big_endian env" and ?c16 = "ucast (drop_bit 16 kMagicCookie) :: u16"
  let ?p = "address_port env addr XOR ?c16" and ?ip = "getBE32 (sin_addr addr) XOR kMagicCookie"
  have img: "attr_image env pre a = 0 # 1 # setBE16 ?p @ setBE32 ?ip"
    using assms(1,2) by (simp add: attr_image_def stun_family_def)
  have port: "ntohs ?be (ntohs ?be ?p XOR ntohs ?be ?c16) = address_port env addr"
    by (simp add: ntohs_xor [symmetric])
  have ip: "ntohl ?be (ntohl ?be ?ip XOR ntohl ?be kMagicCookie) = getBE32 (sin_addr addr)"
    by (simp add: ntohl_xor [symmetric])
  have addr: "IPv4AddressBase (sin_addr addr) (htons ?be (address_port env addr)) = addr"
    using assms(2,3) by (simp add: IPv4AddressBase_def address_port_def)
  have len: "length pre + 8 + length suf < size_max" using assms(6) by (simp add: img)
  show ?thesis
    using len assms(4,5) rd_getU16_at [of "pre @ [0, 1]" "setBE32 ?ip @ suf" ?be ?p]
      rd_getU32_at [of "pre @ [0, 1] @ setBE16 ?p" suf ?be ?ip]
    by (simp add: address_read_def img Let_def address_init_intToIPv4 port ip addr)
qed

lemma integrity_read_at:
  assumes "length hmac = 20" and "kAttributeHeaderSize < length pre"
    and "length pre + 20 + length suf < size_max"
  shows "integrity_read env a0 key (rd_at pre (hmac @ suf)) =
         Inr (a0\<lparr>attr_body := IntegrityBody (take (length pre - kAttributeHeaderSize) pre) hmac key\<rparr>,
              rd_at (pre @ hmac) suf)"
proof -
  have "hmac_input (big_endian env) (pre @ hmac @ suf) (length pre) =
        Inr (take (length pre - kAttributeHeaderSize) pre)"
    using hmac_input_prefix [of "length pre" "pre @ hmac @ suf" "big_endian env"] assms by simp
  moreover have "rd_substr (rd_at pre (hmac @ suf)) 20 = Inr hmac"
    using assms(1) by (simp add: rd_substr_def)
  moreover have "rd_skip (rd_at pre (hmac @ suf)) 20 = Inr (rd_at (pre @ hmac) suf)"
    using rd_skip_at [of pre hmac suf] assms(1,3) by simp
  ultimately show ?thesis by (simp add: integrity_read_def)
qed

lemma read_attribute_at:
  assumes wf: "attr_wf a" and c: "create (attr_type a) (attr_size a) = Some a0" and "hmac_20 env"
    and "kAttributeHeaderSize < length pre"
    and len: "length pre + length (attr_image env pre a) + length suf < size_max"
  shows "read_attribute env a0 (rd_at pre (attr_image env pre a @ suf)) =
         Inr (attr_back env pre a, rd_at (pre @ attr_image env pre a) suf)"
proof -
  have ty: "attr_type a0 = attr_type a" and sz: "attr_size a0 = attr_size a"
    and fits: "body_fits (attr_body a0) (attr_size a) (attr_body a)"
    using wf c by (simp_all add: attr_wf_def)
  have eq: "a0\<lparr>attr_body := attr_body a\<rparr> = a" using ty sz by simp
  have fresh: "fresh_body (attr_body a0)" by (rule create_fresh [OF c])
  show ?thesis
  proof (cases "attr_body a")
    case (AddressBody addr)
    with fits address_read_at [OF AddressBody _ _ _ _ len] sz eq show ?thesis
      by (cases "attr_body a0") (auto simp: read_attribute_def attr_back_def)
  next
    case (UInt32Body v)
    with fits len eq show ?thesis
      by (cases "attr_body a0") (auto simp: read_attribute_def attr_back_def attr_image_def)
  next
    case (UInt64Body v)
    with fits len eq show ?thesis
      by (cases "attr_body a0") (auto simp: read_attribute_def attr_back_def attr_image_def)
  next
    case (StringBody bytes)
    then obtain cs where cs: "bytes = Some cs" "length cs = unat (attr_size a)"
      using fits by (cases "attr_body a0"; cases bytes) auto
    have "padding a0 = padding a" using sz by (simp add: padding_def)
    with cs StringBody fits len eq sz string_read_at [of cs a0 pre suf] show ?thesis
      by (cases "attr_body a0") (auto simp: read_attribute_def attr_back_def attr_image_def)
  next
    case (IntegrityBody input hmac key)
    have "length (attr_image env pre a) = 20"
      using IntegrityBody fits assms(3)
      by (cases "attr_body a0") (auto simp: attr_image_def hmac_20_def)
    with IntegrityBody fits fresh eq ty sz len assms(4) show ?thesis
      by (cases "attr_body a0") (auto simp: read_attribute_def attr_back_def integrity_read_at)
  next
    case (ErrorCodeBody cls num reason)
    with fits fresh eq sz error_read_at [OF ErrorCodeBody _ _ sz len] show ?thesis
      by (cases "attr_body a0") (auto simp: read_attribute_def attr_back_def)
  qed (use fits in \<open>cases "attr_body a0"; simp\<close>)+
qed

end
