(* ===== verification/Stun_Message.thy ===== *)
theory Stun_Message
  imports Stun_Attributes
begin

text \<open>
  \<^verbatim>\<open>src/stun/src/message.cpp\<close> and \<^verbatim>\<open>message.h\<close>: STUN messages, the collection of their
  attributes, and their parsing and serialisation.

  \<open>Message::read\<close> updates the message while it parses and catches every
  \<^verbatim>\<open>std::exception\<close>, so its model returns the partly updated message with the number 0 in
  that case; a failed assertion or undefined behaviour is not caught and is the result itself.
\<close>

subsection \<open>Classes, methods and error codes\<close>

datatype method_type =
    UndefinedMethod | Binding | Allocate | Refresh | SendIndication | DataIndication
  | CreatePermission | ChannelBind | Connect | ConnectionBind | ConnectionAttempt

fun method_code :: "method_type \<Rightarrow> u16" where
  "method_code UndefinedMethod = 0x0000"
| "method_code Binding = 0x0001"
| "method_code Allocate = 0x0003"
| "method_code Refresh = 0x0004"
| "method_code SendIndication = 0x0006"
| "method_code DataIndication = 0x0007"
| "method_code CreatePermission = 0x0008"
| "method_code ChannelBind = 0x0009"
| "method_code Connect = 0x000a"
| "method_code ConnectionBind = 0x000b"
| "method_code ConnectionAttempt = 0x000c"

datatype class_type = Request | Indication | SuccessResponse | ErrorResponse

fun class_code :: "class_type \<Rightarrow> u16" where
  "class_code Request = 0x0000"
| "class_code Indication = 0x0010"
| "class_code SuccessResponse = 0x0100"
| "class_code ErrorResponse = 0x0110"

definition isValidMethod :: "u16 \<Rightarrow> bool" where
  "isValidMethod m \<longleftrightarrow>
     m \<in> set (map method_code [Binding, Allocate, Refresh, SendIndication, DataIndication,
       CreatePermission, ChannelBind, Connect, ConnectionBind, ConnectionAttempt])"

definition classString :: "u16 \<Rightarrow> string" where
  "classString c =
     (if c = class_code Request then ''Request''
      else if c = class_code Indication then ''Indication''
      else if c = class_code SuccessResponse then ''SuccessResponse''
      else if c = class_code ErrorResponse then ''ErrorResponse''
      else ''UnknownState'')"

definition methodString :: "u16 \<Rightarrow> string" where
  "methodString m =
     (if m = method_code Binding then ''BINDING''
      else if m = method_code Allocate then ''ALLOCATE''
      else if m = method_code Refresh then ''REFRESH''
      else if m = method_code SendIndication then ''SEND-INDICATION''
      else if m = method_code DataIndication then ''DATA-INDICATION''
      else if m = method_code CreatePermission then ''CREATE-PERMISSION''
      else if m = method_code ChannelBind then ''CHANNEL-BIND''
      else if m = method_code Connect then ''CONNECT''
      else if m = method_code ConnectionBind then ''CONNECTION-BIND''
      else if m = method_code ConnectionAttempt then ''CONNECTION-ATTEMPT''
      else ''UnknownMethod'')"

definition errorString :: "u16 \<Rightarrow> string" where
  "errorString code =
     (if code = 400 then ''BAD REQUEST''
      else if code = 401 then ''UNAUTHORIZED''
      else if code = 420 then ''UNKNOWN ATTRIBUTE''
      else if code = 430 then ''STALE CREDENTIALS''
      else if code = 431 then ''INTEGRITY CHECK FAILURE''
      else if code = 432 then ''MISSING USERNAME''
      else if code = 433 then ''USE TLS''
      else if code = 487 then ''Role Conflict''
      else if code = 500 then ''SERVER ERROR''
      else if code = 600 then ''GLOBAL FAILURE''
      else if code = 446 then ''Connection Already Exists''
      else if code = 447 then ''Connection Timeout or Failure''
      else ''UnknownError'')"

subsection \<open>Messages\<close>

record message =
  msg_class :: u16
  msg_method :: u16
  msg_size :: u16
  msg_tid :: bytes
  msg_attrs :: "attribute list"

text \<open>The constructors draw a random transaction id, which is an argument here.\<close>

definition new_message :: "class_type \<Rightarrow> method_type \<Rightarrow> bytes \<Rightarrow> message" where
  "new_message clss meth tid =
     \<lparr>msg_class = class_code clss, msg_method = method_code meth, msg_size = 0, msg_tid = tid,
      msg_attrs = []\<rparr>"

definition default_message :: "bytes \<Rightarrow> message result" where
  "default_message tid =
     assert_r (length tid = kTransactionIdLength)
       (Inr \<lparr>msg_class = class_code Request, msg_method = method_code UndefinedMethod, msg_size = 0,
             msg_tid = tid, msg_attrs = []\<rparr>)"

text \<open>The copy constructor, the assignment and \<^verbatim>\<open>Message::clone\<close>: a deep copy.\<close>

fun clone_attrs :: "attribute list \<Rightarrow> attribute list result" where
  "clone_attrs [] = Inr []"
| "clone_attrs (a # as) =
     bind_r (clone a) (\<lambda>b. bind_r (clone_attrs as) (\<lambda>bs. Inr (b # bs)))"

definition message_copy :: "message \<Rightarrow> message result" where
  "message_copy that =
     assert_r (msg_method that \<noteq> 0)
       (assert_r (length (msg_tid that) = kTransactionIdLength)
         (bind_r (clone_attrs (msg_attrs that)) (\<lambda>as.
            Inr \<lparr>msg_class = msg_class that, msg_method = msg_method that, msg_size = msg_size that,
                 msg_tid = msg_tid that, msg_attrs = as\<rparr>)))"

definition message_add :: "message \<Rightarrow> attribute \<Rightarrow> message" where
  "message_add m a =
     (let attrLength = unat (attr_size a);
          attrLength = (if attrLength mod 4 \<noteq> 0 then attrLength + (4 - attrLength mod 4) else attrLength)
      in m\<lparr>msg_attrs := msg_attrs m @ [a],
           msg_size := msg_size m + word_of_nat (attrLength + kAttributeHeaderSize)\<rparr>)"

fun get_attr :: "attribute list \<Rightarrow> u16 \<Rightarrow> int \<Rightarrow> attribute option" where
  "get_attr [] type index = None"
| "get_attr (a # as) type index =
     (if attr_type a = type then (if index = 0 then Some a else get_attr as type (index - 1))
      else get_attr as type index)"

definition message_get :: "message \<Rightarrow> attribute_type \<Rightarrow> int \<Rightarrow> attribute option" where
  "message_get m t index = get_attr (msg_attrs m) (attr_code t) index"

definition setTransactionID :: "message \<Rightarrow> bytes \<Rightarrow> message result" where
  "setTransactionID m tid = assert_r (length tid = kTransactionIdLength) (Inr (m\<lparr>msg_tid := tid\<rparr>))"

definition message_toString :: "message \<Rightarrow> string" where
  "message_toString m =
     ''STUN['' @ methodString (msg_method m) @ '':'' @ text_of_bytes (msg_tid m) @
     concat (map (\<lambda>a. '':'' @ typeString (attr_type a)) (msg_attrs m)) @ '']''"

subsection \<open>Parsing\<close>

definition pad_length :: "nat \<Rightarrow> nat" where
  "pad_length n = (if n mod 4 = 0 then 0 else 4 - n mod 4)"

text \<open>
  The attribute loop. It gives the attributes collected so far together with how it ended, since
  an exception leaves them in the message.
\<close>

function read_attrs ::
    "'a platform_scheme \<Rightarrow> int \<Rightarrow> bit_reader \<Rightarrow> attribute list \<Rightarrow>
     attribute list \<times> (int \<times> bit_reader) result" where
  "read_attrs env rest r attrs =
     (if rest > 0 then
        (case rd_getU16 (big_endian env) r of
           Inl e \<Rightarrow> (attrs, Inl e)
         | Inr (attrType, r) \<Rightarrow>
             (case rd_getU16 (big_endian env) r of
                Inl e \<Rightarrow> (attrs, Inl e)
              | Inr (attrLength, r) \<Rightarrow>
                  (let padLength = pad_length (unat attrLength);
                       rest' = rest - int (unat attrLength + kAttributeHeaderSize + padLength) in
                   (case create attrType attrLength of
                      Some attr \<Rightarrow>
                        (case read_attribute env attr r of
                           Inl e \<Rightarrow> (attrs, Inl e)
                         | Inr (attr, r) \<Rightarrow> read_attrs env rest' r (attrs @ [attr]))
                    | None \<Rightarrow> read_attrs env rest' r attrs))))
      else (attrs, Inr (rest, r)))"
  by pat_completeness auto
termination
  by (relation "measure (\<lambda>(env, rest, r, attrs). nat rest)") (auto simp: kAttributeHeaderSize_def
      intro!: less_le_trans [OF _ unsigned_greater_eq])

declare read_attrs.simps [simp del]

definition caught :: "err \<Rightarrow> message \<Rightarrow> (nat \<times> message) result" where
  "caught e m = (if catchable e then Inr (0, m) else Inl e)"

definition message_read :: "'a platform_scheme \<Rightarrow> bytes \<Rightarrow> message \<Rightarrow> (nat \<times> message) result" where
  "message_read env buf m =
     (let be = big_endian env in
      case rd_getU16 be (rd_of_buffer buf) of
        Inl e \<Rightarrow> caught e m
      | Inr (type, r) \<Rightarrow>
      if type AND 0x8000 \<noteq> 0 then Inr (0, m)
      else if \<not> isValidMethod (type AND 0x000F) then Inr (0, m)
      else let m = m\<lparr>msg_class := type AND 0x0110, msg_method := type AND 0x000F\<rparr> in
      case rd_getU16 be r of
        Inl e \<Rightarrow> caught e m
      | Inr (sz, r) \<Rightarrow>
      let m = m\<lparr>msg_size := sz\<rparr> in
      if unat sz > length buf then Inr (0, m)
      else case rd_skip r kMagicCookieLength of
        Inl e \<Rightarrow> caught e m
      | Inr r \<Rightarrow>
      case rd_get_string r [] kTransactionIdLength of
        Inl e \<Rightarrow> caught e m
      | Inr (tid, r) \<Rightarrow>
      assert_r (length tid = kTransactionIdLength)
        (let m = m\<lparr>msg_tid := tid, msg_attrs := []\<rparr>; rest = int (unat sz) in
         assert_r (sint (word_of_nat (rd_available r) :: u32) \<ge> rest)
           (case read_attrs env rest r [] of
              (attrs, Inl e) \<Rightarrow> caught e (m\<lparr>msg_attrs := attrs\<rparr>)
            | (attrs, Inr (rest, r)) \<Rightarrow>
                assert_r (rest = 0)
                  (assert_r (rd_position r = unat sz + kMessageHeaderSize)
                     (Inr (rd_position r, m\<lparr>msg_attrs := attrs\<rparr>))))))"

subsection \<open>Serialisation\<close>

fun write_attrs :: "'a platform_scheme \<Rightarrow> attribute list \<Rightarrow> bit_writer \<Rightarrow> bit_writer result" where
  "write_attrs env [] w = Inr w"
| "write_attrs env (a # as) w =
     bind_r (wr_putU16 (big_endian env) w (attr_type a)) (\<lambda>w.
     bind_r (wr_putU16 (big_endian env) w (attr_size a)) (\<lambda>w.
     bind_r (write_attribute env a w) (\<lambda>w. write_attrs env as w)))"

text \<open>\<^verbatim>\<open>Message::write(Buffer& buf)\<close>: \<open>cap\<close> is the capacity of the vector \<open>buf\<close>.\<close>

definition message_write :: "'a platform_scheme \<Rightarrow> message \<Rightarrow> bytes \<Rightarrow> nat \<Rightarrow> bytes result" where
  "message_write env m buf cap =
     (let be = big_endian env in
      bind_r (wr_putU16 be (dwr_init buf cap 0 Network) (msg_class m OR msg_method m)) (\<lambda>w.
      bind_r (wr_putU16 be w (msg_size m)) (\<lambda>w.
      bind_r (wr_putU32 be w kMagicCookie) (\<lambda>w.
      bind_r (wr_put w (msg_tid m)) (\<lambda>w.
      bind_r (write_attrs env (msg_attrs m) w) (\<lambda>w.
        Inr (wr_mem w)))))))"

subsection \<open>The image of an attribute list\<close>

definition attr_header :: "attribute \<Rightarrow> bytes" where
  "attr_header a = setBE16 (attr_type a) @ setBE16 (attr_size a)"

definition attr_full :: "'a platform_scheme \<Rightarrow> bytes \<Rightarrow> attribute \<Rightarrow> bytes" where
  "attr_full env pre a = attr_header a @ attr_image env (pre @ attr_header a) a"

fun attrs_image :: "'a platform_scheme \<Rightarrow> bytes \<Rightarrow> attribute list \<Rightarrow> bytes" where
  "attrs_image env pre [] = []"
| "attrs_image env pre (a # as) =
     attr_full env pre a @ attrs_image env (pre @ attr_full env pre a) as"

fun attrs_back :: "'a platform_scheme \<Rightarrow> bytes \<Rightarrow> attribute list \<Rightarrow> attribute list" where
  "attrs_back env pre [] = []"
| "attrs_back env pre (a # as) =
     attr_back env (pre @ attr_header a) a # attrs_back env (pre @ attr_full env pre a) as"

definition padded_size :: "attribute \<Rightarrow> nat" where
  "padded_size a = unat (attr_size a) + pad_length (unat (attr_size a))"

definition attrs_size :: "attribute list \<Rightarrow> nat" where
  "attrs_size as = sum_list (map (\<lambda>a. padded_size a + kAttributeHeaderSize) as)"

lemma attrs_size_simps [simp]:
  "attrs_size [] = 0"
  "attrs_size (a # as) = padded_size a + kAttributeHeaderSize + attrs_size as"
  "attrs_size (as @ bs) = attrs_size as + attrs_size bs"
  by (simp_all add: attrs_size_def)

lemma length_attr_header [simp]: "length (attr_header a) = kAttributeHeaderSize"
  by (simp add: attr_header_def kAttributeHeaderSize_def)

lemma length_padding_pad: "length (padding a) = pad_length (unat (attr_size a))"
  by (simp add: padding_def pad_length_def)

text \<open>The sizes the factory gives to attributes of fixed size.\<close>

fun fixed_size :: "attr_body \<Rightarrow> u16 option" where
  "fixed_size (AddressBody _) = Some 8"
| "fixed_size (UInt8Body _) = Some 1"
| "fixed_size (UInt32Body _) = Some 4"
| "fixed_size (UInt64Body _) = Some 8"
| "fixed_size (IntegrityBody _ _ _) = Some 20"
| "fixed_size _ = None"

lemma create_fixed_size:
  "create t n = Some a0 \<Longrightarrow> fixed_size (attr_body a0) = Some k \<Longrightarrow> attr_size a0 = k"
  by (auto simp: create_def new_defs split: option.splits attribute_type.splits if_splits)

lemma length_attr_image:
  assumes "attr_wf a" and "hmac_20 env"
  shows "length (attr_image env pre a) = padded_size a"
proof -
  obtain a0 where c: "create (attr_type a) (attr_size a) = Some a0"
    and fits: "body_fits (attr_body a0) (attr_size a) (attr_body a)" and sz: "attr_size a0 = attr_size a"
    using assms(1) by (auto simp: attr_wf_def split: option.splits)
  have size: "fixed_size (attr_body a0) = Some k \<Longrightarrow> attr_size a = k" for k
    using create_fixed_size [OF c] sz by simp
  show ?thesis
  proof (cases "attr_body a")
    case (StringBody bytes)
    then show ?thesis using fits
      by (cases "attr_body a0"; cases bytes) (auto simp: attr_image_def padded_size_def length_padding_pad)
  next
    case (IntegrityBody i h k)
    then show ?thesis using fits size assms(2)
      by (cases "attr_body a0") (auto simp: attr_image_def padded_size_def pad_length_def hmac_20_def)
  qed (use fits size in \<open>cases "attr_body a0"; auto simp: attr_image_def padded_size_def
        pad_length_def length_padding_pad\<close>)+
qed

lemma length_attr_full:
  "attr_wf a \<Longrightarrow> hmac_20 env \<Longrightarrow> length (attr_full env pre a) = padded_size a + kAttributeHeaderSize"
  by (simp add: attr_full_def length_attr_image)

lemma length_attrs_image:
  "list_all attr_wf as \<Longrightarrow> hmac_20 env \<Longrightarrow> length (attrs_image env pre as) = attrs_size as"
  by (induction as arbitrary: pre) (simp_all add: length_attr_full)

subsection \<open>Writing a message\<close>

definition message_header :: "message \<Rightarrow> bytes" where
  "message_header m =
     setBE16 (msg_class m OR msg_method m) @ setBE16 (msg_size m) @ setBE32 kMagicCookie @ msg_tid m"

definition message_image :: "'a platform_scheme \<Rightarrow> message \<Rightarrow> bytes" where
  "message_image env m = message_header m @ attrs_image env (message_header m) (msg_attrs m)"

context byte_sink
begin

lemma write_attrs_holds:
  assumes "list_all attr_wf as" and "hmac_20 env" and "0 < length bs"
    and "holds w bs (length (attrs_image env bs as) + n)"
  shows "\<exists>w'. write_attrs env as w = Inr w' \<and> holds w' (bs @ attrs_image env bs as) n"
  using assms
proof (induction as arbitrary: w bs)
  case Nil
  then show ?case by simp
next
  case (Cons a as)
  let ?be = "big_endian env" and ?t = "setBE16 (attr_type a)" and ?s = "setBE16 (attr_size a)"
  let ?h = "bs @ attr_header a" and ?b = "attr_image env (bs @ attr_header a) a"
  let ?rest = "attrs_image env (?h @ ?b) as"
  have h: "holds w bs (2 + (2 + (length ?b + (length ?rest + n))))"
    using Cons.prems(4)
    by (simp add: attr_full_def kAttributeHeaderSize_def add.assoc eval_nat_numeral)
  obtain w1 where w1: "wr_putU16 ?be w (attr_type a) = Inr w1"
      "holds w1 (bs @ ?t) (2 + (length ?b + (length ?rest + n)))"
    using putU16_holds [OF h] by blast
  obtain w2 where w2: "wr_putU16 ?be w1 (attr_size a) = Inr w2" "holds w2 ?h (length ?b + (length ?rest + n))"
    using putU16_holds [OF w1(2), of ?be "attr_size a"] by (auto simp: attr_header_def)
  obtain w3 where w3: "write_attribute env a w2 = Inr w3" "holds w3 (?h @ ?b) (length ?rest + n)"
    using write_attribute_holds [of a env ?h w2] w2(2) Cons.prems(1-3) by (auto simp: kAttributeHeaderSize_def)
  have "\<exists>w'. write_attrs env as w3 = Inr w' \<and> holds w' ((?h @ ?b) @ ?rest) n"
    using Cons.IH [OF _ Cons.prems(2) _ w3(2)] Cons.prems(1,3) by simp
  then show ?case
    using w1(1) w2(1) w3(1) by (simp add: attr_full_def)
qed

end

lemma message_write_image:
  assumes "list_all attr_wf (msg_attrs m)" and "hmac_20 env"
    and len: "length buf + length (message_image env m) < size_max"
  shows "message_write env m buf cap = Inr (message_image env m @ buf)"
proof -
  let ?be = "big_endian env" and ?h = "message_header m"
  let ?as = "attrs_image env ?h (msg_attrs m)" and ?tid = "msg_tid m"
  let ?ty = "setBE16 (msg_class m OR msg_method m)" and ?sz = "setBE16 (msg_size m)"
  let ?w = "dwr_init buf cap 0 Network"
  have h: "dynamic_holds buf ?w [] (2 + (2 + (4 + (length ?tid + (length ?as + 0)))))"
    by (rule dwr_init_holds) (use len in \<open>simp add: message_image_def message_header_def\<close>)
  obtain w1 where w1: "wr_putU16 ?be ?w (msg_class m OR msg_method m) = Inr w1"
      "dynamic_holds buf w1 ([] @ ?ty) (2 + (4 + (length ?tid + (length ?as + 0))))"
    using dynamic.putU16_holds [OF h] by blast
  obtain w2 where w2: "wr_putU16 ?be w1 (msg_size m) = Inr w2"
      "dynamic_holds buf w2 (([] @ ?ty) @ ?sz) (4 + (length ?tid + (length ?as + 0)))"
    using dynamic.putU16_holds [OF w1(2)] by blast
  obtain w3 where w3: "wr_putU32 ?be w2 kMagicCookie = Inr w3"
      "dynamic_holds buf w3 ((([] @ ?ty) @ ?sz) @ setBE32 kMagicCookie) (length ?tid + (length ?as + 0))"
    using dynamic.putU32_holds [OF w2(2)] by blast
  obtain w4 where w4: "wr_put w3 ?tid = Inr w4" "dynamic_holds buf w4 ?h (length ?as + 0)"
    using dynamic.put_holds [OF w3(2)] by (auto simp: message_header_def)
  obtain w5 where w5: "write_attrs env (msg_attrs m) w4 = Inr w5" "dynamic_holds buf w5 (?h @ ?as) 0"
    using dynamic.write_attrs_holds [OF assms(1,2) _ w4(2)]
    by (auto simp: message_header_def)
  have "wr_mem w5 = message_image env m @ buf"
    using w5(2) by (simp add: dynamic_holds_def message_image_def)
  then show ?thesis
    using w1(1) w2(1) w3(1) w4(1) w5(1) by (simp add: message_write_def)
qed

subsection \<open>Reading a message\<close>

lemma read_attrs_at:
  assumes "list_all attr_wf as" and "hmac_20 env" and "0 < length pre"
    and "length pre + length (attrs_image env pre as) + length suf < size_max"
  shows "read_attrs env (int (attrs_size as)) (rd_at pre (attrs_image env pre as @ suf)) acc =
         (acc @ attrs_back env pre as, Inr (0, rd_at (pre @ attrs_image env pre as) suf))"
  using assms
proof (induction as arbitrary: pre acc)
  case Nil
  then show ?case by (subst read_attrs.simps) simp
next
  case (Cons a as)
  let ?be = "big_endian env" and ?h = "pre @ attr_header a" and ?b = "attr_image env (pre @ attr_header a) a"
  let ?rest = "attrs_image env (?h @ ?b) as"
  have len: "length pre + 4 + length ?b + length ?rest + length suf < size_max"
    using Cons.prems(4) by (simp add: attr_full_def kAttributeHeaderSize_def)
  obtain a0 where c: "create (attr_type a) (attr_size a) = Some a0"
    using Cons.prems(1) by (auto simp: attr_wf_def split: option.splits)
  have g1: "rd_getU16 ?be (rd_at pre (attrs_image env pre (a # as) @ suf)) =
      Inr (attr_type a, rd_at (pre @ setBE16 (attr_type a)) (setBE16 (attr_size a) @ ?b @ ?rest @ suf))"
    using rd_getU16_at [of pre "setBE16 (attr_size a) @ ?b @ ?rest @ suf" ?be "attr_type a"] len
    by (simp add: attr_full_def attr_header_def)
  have g2: "rd_getU16 ?be (rd_at (pre @ setBE16 (attr_type a)) (setBE16 (attr_size a) @ ?b @ ?rest @ suf)) =
      Inr (attr_size a, rd_at ?h (?b @ ?rest @ suf))"
    using rd_getU16_at [of "pre @ setBE16 (attr_type a)" "?b @ ?rest @ suf" ?be "attr_size a"] len
    by (simp add: attr_header_def)
  have g3: "read_attribute env a0 (rd_at ?h (?b @ ?rest @ suf)) =
      Inr (attr_back env ?h a, rd_at (?h @ ?b) (?rest @ suf))"
    by (rule read_attribute_at [OF _ c Cons.prems(2)])
      (use Cons.prems(1,3) len in \<open>simp_all add: kAttributeHeaderSize_def\<close>)
  have ih: "read_attrs env (int (attrs_size as)) (rd_at (?h @ ?b) (?rest @ suf)) acc' =
      (acc' @ attrs_back env (?h @ ?b) as, Inr (0, rd_at ((?h @ ?b) @ ?rest) suf))" for acc'
    by (rule Cons.IH) (use Cons.prems len in \<open>simp_all add: kAttributeHeaderSize_def\<close>)
  have rest: "int (attrs_size (a # as)) -
      int (unat (attr_size a) + kAttributeHeaderSize + pad_length (unat (attr_size a))) = int (attrs_size as)"
    by (simp add: padded_size_def)
  have pos: "0 < int (attrs_size (a # as))" by (simp add: kAttributeHeaderSize_def)
  show ?case
    by (subst read_attrs.simps) (simp only: pos g1 g2 c g3 rest ih Let_def if_True sum.case prod.case
        option.case, simp add: attr_full_def)
qed

subsection \<open>Well-formed messages\<close>

text \<open>
  A message the class builds with its constructor and \<^verbatim>\<open>add\<close>: a class and a method of the
  enumerations, a transaction id of 12 bytes, attributes of the kinds that survive the wire, and
  the size field equal to the padded size of the attributes.
\<close>

definition message_wf :: "message \<Rightarrow> bool" where
  "message_wf m \<longleftrightarrow>
     msg_class m \<in> set (map class_code [Request, Indication, SuccessResponse, ErrorResponse]) \<and>
     isValidMethod (msg_method m) \<and> length (msg_tid m) = kTransactionIdLength \<and>
     list_all attr_wf (msg_attrs m) \<and> unat (msg_size m) = attrs_size (msg_attrs m)"

lemma message_type_bits:
  assumes "c \<in> set (map class_code [Request, Indication, SuccessResponse, ErrorResponse])"
    and "isValidMethod k"
  shows "(c OR k) AND 0x8000 = 0" and "(c OR k) AND 0x000F = k" and "(c OR k) AND 0x0110 = c"
  using assms by (auto simp: isValidMethod_def)

lemma length_message_header:
  "length (msg_tid m) = kTransactionIdLength \<Longrightarrow> length (message_header m) = kMessageHeaderSize"
  by (simp add: message_header_def kTransactionIdLength_def kMessageHeaderSize_def)

lemma length_message_image:
  "message_wf m \<Longrightarrow> hmac_20 env \<Longrightarrow>
   length (message_image env m) = unat (msg_size m) + kMessageHeaderSize"
  by (simp add: message_wf_def message_image_def length_attrs_image length_message_header)

lemma sint_small: "n < 2 ^ 31 \<Longrightarrow> sint (word_of_nat n :: u32) = int n"
  by (simp add: signed_of_nat signed_take_bit_int_eq_self)

lemma message_read_image:
  assumes wf: "message_wf m" and hm: "hmac_20 env"
    and len: "length (message_image env m) + length suf < 2 ^ 31"
  shows "message_read env (message_image env m @ suf) m0 =
         Inr (length (message_image env m),
              m\<lparr>msg_attrs := attrs_back env (message_header m) (msg_attrs m)\<rparr>)"
proof -
  let ?be = "big_endian env" and ?h = "message_header m" and ?as = "msg_attrs m"
  let ?ty = "msg_class m OR msg_method m" and ?tid = "msg_tid m"
  let ?img = "attrs_image env ?h ?as" and ?n = "unat (msg_size m)"
  let ?p1 = "setBE16 ?ty" let ?p2 = "?p1 @ setBE16 (msg_size m)" let ?p3 = "?p2 @ setBE32 kMagicCookie"
  have tid: "length ?tid = 12" and attrs: "list_all attr_wf ?as" and n: "?n = attrs_size ?as"
    using wf by (simp_all add: message_wf_def kTransactionIdLength_def)
  note bits = message_type_bits [of "msg_class m" "msg_method m"]
  have il: "length ?img = ?n" using attrs hm n by (simp add: length_attrs_image)
  have total: "20 + ?n + length suf < 2 ^ 31"
    using len wf hm by (simp add: length_message_image kMessageHeaderSize_def)
  have buf: "message_image env m @ suf = ?p1 @ setBE16 (msg_size m) @ setBE32 kMagicCookie @ ?tid @ ?img @ suf"
    by (simp add: message_image_def message_header_def)
  have g1: "rd_getU16 ?be (rd_of_buffer (message_image env m @ suf)) =
      Inr (?ty, rd_at ?p1 (setBE16 (msg_size m) @ setBE32 kMagicCookie @ ?tid @ ?img @ suf))"
    unfolding buf rd_of_buffer_at
    using rd_getU16_at [of "[]" "setBE16 (msg_size m) @ setBE32 kMagicCookie @ ?tid @ ?img @ suf" ?be ?ty]
      total il tid by simp
  have g2: "rd_getU16 ?be (rd_at ?p1 (setBE16 (msg_size m) @ setBE32 kMagicCookie @ ?tid @ ?img @ suf)) =
      Inr (msg_size m, rd_at ?p2 (setBE32 kMagicCookie @ ?tid @ ?img @ suf))"
    by (rule rd_getU16_at) (use total il tid in simp)
  have g3: "rd_skip (rd_at ?p2 (setBE32 kMagicCookie @ ?tid @ ?img @ suf)) kMagicCookieLength =
      Inr (rd_at ?p3 (?tid @ ?img @ suf))"
    using rd_skip_at [of ?p2 "setBE32 kMagicCookie" "?tid @ ?img @ suf"] total il tid
    by (simp add: kMagicCookieLength_def)
  have hd: "?p3 @ ?tid = ?h" by (simp add: message_header_def)
  have g4: "rd_get_string (rd_at ?p3 (?tid @ ?img @ suf)) [] kTransactionIdLength =
      Inr (?tid, rd_at ?h (?img @ suf))"
    using rd_get_string_at [of ?p3 ?tid "?img @ suf" "[]"] total il tid hd
    by (simp add: kTransactionIdLength_def)
  have tid_ok: "length ?tid = kTransactionIdLength" using tid by (simp add: kTransactionIdLength_def)
  have hl: "length ?h = 20" using tid by (simp add: message_header_def)
  have g5: "read_attrs env (int ?n) (rd_at ?h (?img @ suf)) [] =
      ([] @ attrs_back env ?h ?as, Inr (0, rd_at (?h @ ?img) suf))"
    unfolding n by (rule read_attrs_at) (use attrs hm total il hl in simp_all)
  have av: "rd_available (rd_at ?h (?img @ suf)) = ?n + length suf"
    using total il hl by (simp add: rd_available_ok rd_at_ok)
  have ok: "int ?n \<le> sint (word_of_nat (rd_available (rd_at ?h (?img @ suf))) :: u32)"
  proof -
    have "sint (word_of_nat (?n + length suf) :: u32) = int (?n + length suf)"
      by (rule sint_small) (use total in simp)
    then show ?thesis unfolding av by simp
  qed
  have big: "\<not> length (message_image env m @ suf) < ?n"
    using wf hm by (simp add: length_message_image)
  have valid: "isValidMethod (msg_method m)" and b: "?ty AND 0x8000 = 0" "?ty AND 0x000F = msg_method m"
      "?ty AND 0x0110 = msg_class m"
    using wf bits by (simp_all add: message_wf_def)
  have total_length: "length (message_image env m) = ?n + 20"
    using wf hm by (simp add: length_message_image kMessageHeaderSize_def)
  have pos: "rd_position (rd_at (?h @ ?img) suf) = ?n + 20" using hl il by simp
  have upd: "m0\<lparr>msg_class := msg_class m, msg_method := msg_method m, msg_size := msg_size m,
      msg_tid := ?tid, msg_attrs := xs\<rparr> = m\<lparr>msg_attrs := xs\<rparr>" for xs
    by simp
  show ?thesis
    unfolding message_read_def Let_def g1 total_length
    by (simp only: sum.case prod.case b valid g2 big g3 g4 g5 ok pos tid_ok
        kMessageHeaderSize_def assert_r_def if_True simp_thms if_False append_Nil) (simp add: upd)
qed

subsection \<open>Memory safety of parsing\<close>

text \<open>What the factory's result tells about the size on the wire.\<close>

definition create_shape :: "u16 \<Rightarrow> u16 \<Rightarrow> attribute \<Rightarrow> bool" where
  "create_shape t n a \<longleftrightarrow>
     (case attr_body a of
        AddressBody _ \<Rightarrow> attr_size a = 8 \<and> (n = 8 \<or> n = 20)
      | UInt8Body _ \<Rightarrow> n = 1
      | UInt32Body _ \<Rightarrow> n = 4
      | UInt64Body _ \<Rightarrow> n = 8
      | FlagBody \<Rightarrow> True
      | StringBody _ \<Rightarrow> attr_size a = n
      | UInt16ListBody ts \<Rightarrow> ts = [] \<and> attr_size a = n
      | IntegrityBody _ _ _ \<Rightarrow> t = 8 \<and> n = 20
      | ErrorCodeBody _ _ rs \<Rightarrow> rs = [] \<and> attr_size a = n \<and> 4 \<le> n)"

lemma create_shape: "create t n = Some a \<Longrightarrow> create_shape t n a"
  by (auto simp: create_def create_shape_def new_defs dest!: attr_of_code_SomeD
      split: option.splits attribute_type.splits if_splits)

text \<open>
  An operation on the reader at position \<open>p\<close> that stays defined and, when it returns, has
  moved the position forward by at most \<open>n\<close>.
\<close>

definition moves :: "bytes \<Rightarrow> nat \<Rightarrow> nat \<Rightarrow> ('a \<times> bit_reader) result \<Rightarrow> bool" where
  "moves buf p n res \<longleftrightarrow>
     (case res of Inl e \<Rightarrow> e \<noteq> Undefined | Inr (v, r) \<Rightarrow> \<exists>k \<le> n. r = rd_pos buf (p + k))"

lemma moves_simps [simp]:
  "moves buf p n (Inl e) \<longleftrightarrow> e \<noteq> Undefined"
  "moves buf p n (Inr (v, rd_pos buf q)) \<longleftrightarrow> p \<le> q \<and> q \<le> p + n"
proof -
  have "rd_pos buf q = rd_pos buf (p + k) \<longleftrightarrow> q = p + k" for k
    by (auto simp: rd_pos_def rd_of_buffer_def rd_init_def)
  then show "moves buf p n (Inr (v, rd_pos buf q)) \<longleftrightarrow> p \<le> q \<and> q \<le> p + n"
    by (auto simp: moves_def) (metis le_Suc_ex nat_add_left_cancel_le)
qed (simp add: moves_def)

lemma consumePadding_pos:
  assumes "p \<le> length buf" and "length buf + 4 < size_max"
  shows "consumePadding a (rd_pos buf p) = Inl OutOfRange \<or>
         consumePadding a (rd_pos buf p) = Inr (rd_pos buf (p + pad_length (unat (attr_size a))))"
proof -
  have "pad_length (unat (attr_size a)) < 4" by (simp add: pad_length_def)
  with assms show ?thesis
    by (auto simp: consumePadding_def pad_length_def Let_def rd_skip_def size_add_small)
qed

lemma address_read_moves:
  assumes "p \<le> length buf" and "length buf < size_max" 
  shows "moves buf p 8 (address_read env a (rd_pos buf p))"
  using assms
  by (simp add: address_read_def Let_def rd_getU_pos address_init_intToIPv4)

lemma string_read_moves:
  assumes "p \<le> length buf" and "length buf + 4 < size_max"
  shows "moves buf p (unat (attr_size a) + pad_length (unat (attr_size a))) (string_read a (rd_pos buf p))"
  using assms consumePadding_pos [of "p + unat (attr_size a)" buf a]
  by (auto simp: string_read_def rd_get_pos)

lemma error_read_moves:
  assumes "p \<le> length buf" and "length buf + 4 < size_max" and "4 \<le> attr_size a"
  shows "moves buf p (unat (attr_size a) + pad_length (unat (attr_size a))) (error_read env a [] (rd_pos buf p))"
proof -
  have "4 \<le> unat (attr_size a)" using assms(3) by (simp add: word_le_nat_alt)
  then show ?thesis
  using assms consumePadding_pos [of "p + unat (attr_size a)" buf a]
  by (auto simp: error_read_def rd_getU_pos rd_get_string_pos Let_def)
qed

lemma integrity_read_moves:
  assumes "p + 20 \<le> length buf" and "length buf + 4 < size_max" and "4 < p"
  shows "moves buf p 20 (integrity_read env a key (rd_pos buf p))"
  using assms hmac_input_prefix [of p buf "big_endian env"]
  by (simp add: integrity_read_def rd_substr_def rd_skip_def size_add_small kAttributeHeaderSize_def)

lemma moves_mono: "moves buf p n res \<Longrightarrow> n \<le> m \<Longrightarrow> moves buf p m res"
  unfolding moves_def by (cases res) (auto intro: le_trans)

lemma read_attribute_moves:
  assumes "create t n = Some a" and p: "4 < p" "p \<le> length buf" "length buf + 4 < size_max"
    and "t = 8 \<Longrightarrow> n = 20 \<Longrightarrow> p + 20 \<le> length buf"
  shows "moves buf p (unat n + pad_length (unat n)) (read_attribute env a (rd_pos buf p))"
proof -
  note shape = create_shape [OF assms(1), unfolded create_shape_def]
  show ?thesis
  proof (cases "attr_body a")
    case (AddressBody addr)
    with shape p show ?thesis
      by (auto simp: read_attribute_def intro!: moves_mono [OF address_read_moves])
  next
    case (StringBody bs)
    with shape p string_read_moves [of p buf a] show ?thesis by (auto simp: read_attribute_def)
  next
    case (UInt16ListBody ts)
    with shape p consumePadding_pos [of p buf a] show ?thesis
      by (auto simp: read_attribute_def list_read_loop.simps)
  next
    case (IntegrityBody i h k)
    with shape p assms(5) integrity_read_moves [of p buf] show ?thesis
      by (auto simp: read_attribute_def intro!: moves_mono [OF integrity_read_moves])
  next
    case (ErrorCodeBody c k rs)
    with shape p error_read_moves [of p buf a] show ?thesis by (auto simp: read_attribute_def)
  qed (use shape p in \<open>auto simp: read_attribute_def rd_getU_pos\<close>)
qed

text \<open>A message integrity header with fewer than the 20 bytes of its body behind it.\<close>

definition integrity_truncated :: "bytes \<Rightarrow> bool" where
  "integrity_truncated buf \<longleftrightarrow>
     (\<exists>i. take 4 (drop i buf) = [0, 8, 0, 20] \<and> length buf < i + 24)"

lemma header_bytes:
  assumes "p + 4 \<le> length buf" and "getBE16 (take 2 (drop p buf)) = 8"
    and "getBE16 (take 2 (drop (p + 2) buf)) = 20"
  shows "take 4 (drop p buf) = [0, 8, 0, 20]"
proof -
  have "take 2 (drop p buf) = setBE16 8" "take 2 (drop (p + 2) buf) = setBE16 20"
    using setBE16_getBE16 [of "take 2 (drop p buf)"] setBE16_getBE16 [of "take 2 (drop (p + 2) buf)"]
      assms by (simp_all del: add_2_eq_Suc add_2_eq_Suc')
  moreover have "take 4 (drop p buf) = take 2 (drop p buf) @ take 2 (drop (p + 2) buf)"
    using take_add [of 2 2 "drop p buf"] by (simp add: add.commute)
  ultimately show ?thesis by (simp add: setBE16_def)
qed

lemma read_attrs_safe:
  assumes "0 < p" and "rest > 0 \<Longrightarrow> int p + rest \<le> int (length buf)" and "length buf + 4 < size_max"
    and "\<not> integrity_truncated buf"
  shows "snd (read_attrs env rest (rd_pos buf p) acc) \<noteq> Inl Undefined"
  using assms(1,2)
proof (induction "nat rest" arbitrary: rest p acc rule: less_induct)
  case less
  let ?t = "getBE16 (take 2 (drop p buf))" and ?n = "getBE16 (take 2 (drop (p + 2) buf))"
  show ?case
  proof (cases "0 < rest \<and> p + 4 \<le> length buf")
    case False
    then show ?thesis using less.prems assms(3)
      by (subst read_attrs.simps) (auto simp: rd_getU_pos simp del: add_2_eq_Suc add_2_eq_Suc' split: if_splits)
  next
    case True
    then have ok: "0 < rest" "p + 4 \<le> length buf" "int p + rest \<le> int (length buf)"
      using less.prems by auto
    define k where "k = unat ?n + kAttributeHeaderSize + pad_length (unat ?n)"
    have k: "4 \<le> k" by (simp add: k_def kAttributeHeaderSize_def)
    have ih: "p < q \<Longrightarrow> q \<le> p + k \<Longrightarrow>
        snd (read_attrs env (rest - int k) (rd_pos buf q) acc') \<noteq> Inl Undefined" for q acc'
      using ok less.prems k by (intro less.hyps) auto
    have "rd_getU16 (big_endian env) (rd_pos buf p) = Inr (?t, rd_pos buf (p + 2))"
      "rd_getU16 (big_endian env) (rd_pos buf (p + 2)) = Inr (?n, rd_pos buf (p + 2 + 2))"
      using ok assms(3) by (simp_all only: rd_getU_pos) simp_all
    then have step: "read_attrs env rest (rd_pos buf p) acc =
        (case create ?t ?n of
           Some attr \<Rightarrow>
             (case read_attribute env attr (rd_pos buf (p + 2 + 2)) of
                Inl e \<Rightarrow> (acc, Inl e)
              | Inr (attr, r) \<Rightarrow> read_attrs env (rest - int k) r (acc @ [attr]))
         | None \<Rightarrow> read_attrs env (rest - int k) (rd_pos buf (p + 2 + 2)) acc)"
      using ok(1) by (subst read_attrs.simps) (simp only: if_True sum.case prod.case Let_def k_def)
    show ?thesis
    proof (cases "create ?t ?n")
      case None
      then show ?thesis using k ih [of "p + 2 + 2"] by (simp only: step option.case) simp
    next
      case (Some a)
      have "moves buf (p + 2 + 2) (unat ?n + pad_length (unat ?n))
          (read_attribute env a (rd_pos buf (p + 2 + 2)))"
      proof (rule read_attribute_moves [OF Some])
        show "?t = 8 \<Longrightarrow> ?n = 20 \<Longrightarrow> p + 2 + 2 + 20 \<le> length buf"
          using header_bytes [OF ok(2)] assms(4) by (force simp: integrity_truncated_def)
      qed (use ok less.prems assms(3) in simp_all)
      moreover have "unat ?n + pad_length (unat ?n) = k - 4"
        by (simp add: k_def kAttributeHeaderSize_def)
      ultimately have "moves buf (p + 2 + 2) (k - 4) (read_attribute env a (rd_pos buf (p + 2 + 2)))"
        by simp
      then show ?thesis
        unfolding step Some option.case moves_def using k
        by (auto split: sum.splits simp: ih)
    qed
  qed
qed

lemma sint_word_of_nat_le: "sint (word_of_nat k :: u32) \<le> int k"
proof -
  have "signed_take_bit 31 (int k) \<le> int k"
    by (simp add: signed_take_bit_int_less_eq_self_iff)
  then show ?thesis by (simp add: signed_of_nat)
qed

lemma message_read_safe:
  assumes "20 \<le> length buf" and "length buf + 4 < size_max" and "\<not> integrity_truncated buf"
  shows "message_read env buf m \<noteq> Inl Undefined"
proof -
  let ?n = "getBE16 (take 2 (drop 2 buf))" 
  let ?avail = "sint (word_of_nat (length buf - 20) :: u32)"
  have loop: "\<exists>xs res. read_attrs env (int (unat ?n)) (rd_pos buf 20) [] = (xs, res) \<and> res \<noteq> Inl Undefined"
    if "int (unat ?n) \<le> ?avail"
  proof -
    have "int (unat ?n) \<le> int (length buf - 20)"
      using that sint_word_of_nat_le order_trans by blast
    then have "snd (read_attrs env (int (unat ?n)) (rd_pos buf 20) []) \<noteq> Inl Undefined"
      using assms by (intro read_attrs_safe) auto
    then show ?thesis by (metis prod.collapse)
  qed
  have av: "rd_available (rd_pos buf 20) = length buf - 20"
    using assms by (simp add: rd_available_ok rd_pos_ok)
  show ?thesis
    using assms loop
    by (auto simp: message_read_def rd_of_buffer_pos rd_getU_pos rd_skip_def Let_def rd_get_string_pos
       kMagicCookieLength_def kTransactionIdLength_def size_add_small assert_r_def av caught_def 
       split: sum.splits if_splits simp del: add_2_eq_Suc add_2_eq_Suc' of_nat_diff)
qed

subsection \<open>Building, searching and copying messages\<close>

lemma message_add_wf:
  assumes "message_wf m" and "attr_wf a" and "attrs_size (msg_attrs m @ [a]) < 2 ^ 16"
  shows "message_wf (message_add m a)"
proof -
  let ?k = "unat (attr_size a)"
  have "(if ?k mod 4 \<noteq> 0 then ?k + (4 - ?k mod 4) else ?k) = padded_size a"
    by (simp add: padded_size_def pad_length_def)
  then have add: "message_add m a = m\<lparr>msg_attrs := msg_attrs m @ [a],
      msg_size := msg_size m + word_of_nat (padded_size a + kAttributeHeaderSize)\<rparr>"
    by (simp add: message_add_def Let_def)
  have "unat (msg_size m + word_of_nat (padded_size a + kAttributeHeaderSize)) =
      (attrs_size (msg_attrs m @ [a])) mod 2 ^ 16"
    using assms(1) by (simp only: unat_word_ariths unat_of_nat message_wf_def) (simp add: mod_simps take_bit_eq_mod)
  with assms show ?thesis
    by (simp only: add message_wf_def) simp
qed

lemma msg_attrs_add [simp]: "msg_attrs (message_add m a) = msg_attrs m @ [a]"
  by (simp add: message_add_def Let_def)

lemma attrs_image_append:
  "attrs_image env pre (as @ bs) =
   attrs_image env pre as @ attrs_image env (pre @ attrs_image env pre as) bs"
  by (induction as arbitrary: pre) simp_all

lemma attrs_back_append:
  "attrs_back env pre (as @ bs) =
   attrs_back env pre as @ attrs_back env (pre @ attrs_image env pre as) bs"
  by (induction as arbitrary: pre) simp_all

lemma attr_type_back [simp]: "attr_type (attr_back env pre a) = attr_type a"
  by (simp add: attr_back_def split: attr_body.splits)

lemma types_back: "map attr_type (attrs_back env pre as) = map attr_type as"
  by (induction as arbitrary: pre) simp_all

lemma get_attr_skip: "t \<notin> set (map attr_type as) \<Longrightarrow> get_attr (as @ bs) t i = get_attr bs t i"
  by (induction as) auto

lemma integrity_size:
  "attr_wf a \<Longrightarrow> attr_body a = IntegrityBody i h k \<Longrightarrow> attr_size a = 20"
proof -
  assume "attr_wf a" and "attr_body a = IntegrityBody i h k"
  then obtain a0 where "create (attr_type a) (attr_size a) = Some a0" "attr_size a0 = attr_size a"
      "fixed_size (attr_body a0) = Some 20"
    by (auto simp: attr_wf_def split: option.splits elim!: body_fits.elims(2))
  then show ?thesis by (metis create_fixed_size)
qed

lemma verifyHmac_body:
  assumes "attr_body a = IntegrityBody input (compute_hmac env input key) k0" and "hmac_20 env"
    and "input \<noteq> []" and "k \<noteq> []"
  shows "verifyHmac env a k = Inr (compute_hmac env input key = compute_hmac env input k)"
proof -
  have l: "length (compute_hmac env input x) = 20" for x using assms(2) by (simp add: hmac_20_def)
  then have "compute_hmac env input key \<noteq> []" by (metis list.size(3) zero_neq_numeral)
  then show ?thesis using assms l by (simp add: verifyHmac_def Let_def)
qed

lemma drop_bit_and_1: "drop_bit i w AND 1 \<noteq> 0 \<longleftrightarrow> bit w i" for w :: "'a :: len word"
  by (simp add: and_one_eq bit_iff_odd_drop_bit odd_iff_mod_2_eq_one)

lemma bit_int_bit: "i < 32 \<Longrightarrow> bit (int_bit i) j \<longleftrightarrow> i = j"
  by (auto simp: int_bit_def bit_simps)

lemma body_fits_string:
  "body_fits (StringBody x) n (StringBody y) \<longleftrightarrow> (\<exists>bs. y = Some bs \<and> length bs = unat n)"
  by (cases y) auto

lemma clone_wf: 
  assumes "attr_wf a"
  shows "clone a = Inr a"
proof -
  obtain a0 where c: "create (attr_type a) (attr_size a) = Some a0"
    and fits: "body_fits (attr_body a0) (attr_size a) (attr_body a)" and sz: "attr_size a0 = attr_size a"
    and ty: "attr_type a0 = attr_type a"
    using assms(1) by (auto simp: attr_wf_def split: option.splits)
  have fixed: "fixed_size (attr_body a0) = Some k \<Longrightarrow> attr_size a = k" for k
    using create_fixed_size [OF c] sz by simp
  have err: "attr_body a0 = ErrorCodeBody x y z \<Longrightarrow> attr_type a = attr_code ErrorCode" for x y z
    using c ty by (auto simp: create_def new_defs split: option.splits attribute_type.splits if_splits)
  show ?thesis
  using fits fixed err
  by (cases a; cases "attr_body a0"; cases "attr_body a")
    (auto simp: clone_def setBytes_def body_fits_string split: option.splits)
qed

subsection \<open>Properties\<close>

text \<open>A platform, a message and a packet on which the properties are instantiated.\<close>

definition sample_env :: platform where
  "sample_env = \<lparr>big_endian = False, inet_pton6 = \<lambda>_. None, inet_ntop6 = \<lambda>_. None,
           getservbyname = \<lambda>_. None, compute_hmac = \<lambda>input key. replicate 20 (word_of_nat (length input))\<rparr>"

definition sample_message :: message where
  "sample_message = \<lparr>msg_class = 0, msg_method = 1, msg_size = 32, msg_tid = replicate 12 7,
           msg_attrs = [\<lparr>attr_type = 0x000d, attr_size = 4, attr_body = UInt32Body 600\<rparr>,
                        \<lparr>attr_type = 8, attr_size = 20, attr_body = IntegrityBody [] [] [1, 2]\<rparr>]\<rparr>"

lemma sample_env_hmac: "hmac_20 sample_env" by (simp add: hmac_20_def sample_env_def)

lemma sample_message_wf: "message_wf sample_message"
  by (simp add: message_wf_def sample_message_def isValidMethod_def kTransactionIdLength_def attr_wf_def
      create_def attr_of_code_def attribute_types_def new_defs padded_size_def pad_length_def
      kAttributeHeaderSize_def)

definition truncated_integrity :: bytes where
  "truncated_integrity = [0, 1, 0, 4, 0x21, 0x12, 0xA4, 0x42] @ replicate 12 0 @ [0, 8, 0, 20]"

lemma truncated_integrity_undefined: "message_read sample_env truncated_integrity sample_message = Inl Undefined"
proof -
  let ?b = truncated_integrity
  have len: "length ?b = 24" and n: "getBE16 (take 2 (drop 2 ?b)) = 4" and ty: "getBE16 (take 2 ?b) = 1"
    and hd: "getBE16 (take 2 (drop 20 ?b)) = 8" "getBE16 (drop 22 ?b) = 20"
    by code_simp+
  have "read_attribute sample_env new_integrity (rd_pos ?b 24) = Inl Undefined"
    using hmac_input_prefix [of 24 ?b "big_endian sample_env"] len
    by (simp add: read_attribute_def new_defs integrity_read_def rd_substr_def kAttributeHeaderSize_def)
  moreover have "create 8 20 = Some new_integrity"
    by (simp add: create_def attr_of_code_def attribute_types_def)
  ultimately have "read_attrs sample_env 4 (rd_pos ?b 20) [] = ([], Inl Undefined)"
    by (subst read_attrs.simps) (simp add: rd_getU_pos len hd)
  moreover have "rd_available (rd_pos ?b 20) = 4"
    by (simp add: rd_available_ok rd_pos_ok len)
  ultimately show ?thesis
    by (simp add: message_read_def rd_of_buffer_pos rd_getU_pos rd_skip_def Let_def size_add_small
        rd_get_string_pos kMagicCookieLength_def kTransactionIdLength_def caught_def len n ty isValidMethod_def
        del: add_2_eq_Suc add_2_eq_Suc')
qed

text \<open>
  C1 (round trip). Writing a well-formed message (any class and method, any number of address,
  integer, string, error-code and integrity attributes, of any sizes that fit the size field) into
  any buffer succeeds and puts the wire form in front of the buffer's old content; parsing the
  result, whatever follows the message, consumes exactly the message and gives back the same
  class, method, size, transaction id and attributes, an integrity attribute with the message
  before it as its input and with the transmitted HMAC. The HMAC is any function with 20-byte
  results.
\<close>

theorem message_roundtrip:
  assumes "message_wf m" and "hmac_20 env"
    and "length (message_image env m) + length buf < 2 ^ 31"
  shows "\<exists>out. message_write env m buf cap = Inr out \<and>
    message_read env out m0 =
      Inr (unat (msg_size m) + kMessageHeaderSize,
           m\<lparr>msg_attrs := attrs_back env (message_header m) (msg_attrs m)\<rparr>)"
proof -
  have "message_write env m buf cap = Inr (message_image env m @ buf)"
    using assms by (intro message_write_image) (auto simp: message_wf_def)
  then show ?thesis
    using message_read_image [OF assms] length_message_image [OF assms(1,2)] by simp
qed

theorem message_roundtrip_witness:
  "message_wf sample_message \<and> hmac_20 sample_env \<and>
   (\<exists>out. message_write sample_env sample_message [5] 0 = Inr out \<and>
     message_read sample_env out sample_message =
       Inr (52, sample_message\<lparr>msg_attrs := attrs_back sample_env (message_header sample_message) (msg_attrs sample_message)\<rparr>))"
proof -
  have "length (message_image sample_env sample_message) = 52"
    using length_message_image [OF sample_message_wf sample_env_hmac] by (simp add: sample_message_def kMessageHeaderSize_def)
  then show ?thesis
    using message_roundtrip [OF sample_message_wf sample_env_hmac, of "[5]" 0 sample_message] sample_message_wf sample_env_hmac
    by (simp add: kMessageHeaderSize_def) (simp add: sample_message_def)
qed

text \<open>
  C18 (invariant). A message built by the constructor, for any class and any method, and any
  sequence of \<^verbatim>\<open>add\<close> calls with attributes that survive the wire is well formed, as long
  as the attributes with their headers and padding stay below 64 KiB: the 16-bit size field holds
  exactly the number of bytes the attributes take on the wire, without wrap-around, and the
  attributes are kept in the order they were added.
\<close>

theorem built_message_wf:
  assumes "list_all attr_wf as" and "attrs_size as < 2 ^ 16" and "length tid = kTransactionIdLength"
    and "meth \<noteq> UndefinedMethod"
  shows "message_wf (foldl message_add (new_message clss meth tid) as) \<and>
         msg_attrs (foldl message_add (new_message clss meth tid) as) = as"
  using assms(1,2)
proof (induction as rule: rev_induct)
  case Nil
  have "isValidMethod (method_code meth)" using assms(4) by (cases meth) (simp_all add: isValidMethod_def)
  moreover have "class_code clss \<in> set (map class_code [Request, Indication, SuccessResponse, ErrorResponse])"
    by (cases clss) simp_all
  ultimately show ?case using assms(3) by (simp add: message_wf_def new_message_def)
next
  case (snoc a as)
  then have ih: "message_wf (foldl message_add (new_message clss meth tid) as)"
    "msg_attrs (foldl message_add (new_message clss meth tid) as) = as" by simp_all
  moreover have "message_wf (message_add (foldl message_add (new_message clss meth tid) as) a)"
    using snoc.prems ih by (intro message_add_wf) simp_all
  ultimately show ?case by simp
qed

theorem built_message_wf_witness:
  "message_wf (foldl message_add (new_message Request Binding (replicate 12 7)) (msg_attrs sample_message)) \<and>
   msg_attrs (foldl message_add (new_message Request Binding (replicate 12 7)) (msg_attrs sample_message)) = msg_attrs sample_message"
  using built_message_wf [of "msg_attrs sample_message" "replicate 12 7" Binding Request] sample_message_wf
  by (simp add: message_wf_def sample_message_def kTransactionIdLength_def)

text \<open>
  C8 (functional). Message integrity works end to end. A well-formed message whose last
  attribute is a MESSAGE-INTEGRITY with a key can be written and read back; \<^verbatim>\<open>get\<close> finds the
  integrity attribute in the received message, and \<^verbatim>\<open>verifyHmac\<close> with a key \<open>k\<close>
  answers whether \<open>k\<close> and the sender's key give the same HMAC of the bytes of the packet before
  the attribute: yes for the sender's own key, and no for every key whose HMAC differs.
\<close>

theorem integrity_end_to_end:
  assumes wf: "message_wf m" and hm: "hmac_20 env"
    and len: "length (message_image env m) + length buf < 2 ^ 31"
    and attrs: "msg_attrs m = as @ [a]"
    and a: "attr_type a = attr_code MessageIntegrity" "attr_body a = IntegrityBody i h key"
    and "attr_code MessageIntegrity \<notin> set (map attr_type as)" and "key \<noteq> []" and "k \<noteq> []"
  shows "\<exists>out n m' a'. message_write env m buf cap = Inr out \<and>
           message_read env out m0 = Inr (n, m') \<and> message_get m' MessageIntegrity 0 = Some a' \<and>
           verifyHmac env a' k =
             Inr (compute_hmac env (take (n - 24) out) key = compute_hmac env (take (n - 24) out) k)"
proof -
  let ?img = "message_image env m" and ?pre = "message_header m @ attrs_image env (message_header m) as"
  let ?m = "m\<lparr>msg_attrs := attrs_back env (message_header m) (msg_attrs m)\<rparr>"
  let ?a = "attr_back env (?pre @ attr_header a) a"
  have w: "message_write env m buf cap = Inr (?img @ buf)"
    using wf hm len by (intro message_write_image) (auto simp: message_wf_def)
  have r: "message_read env (?img @ buf) m0 = Inr (length ?img, ?m)"
    by (rule message_read_image [OF wf hm len])
  have get: "message_get ?m MessageIntegrity 0 = Some ?a"
    using assms(7) a(1) by (simp add: message_get_def attrs attrs_back_append get_attr_skip types_back)
  have "attr_wf a" using wf by (simp add: message_wf_def attrs)
  then have "padded_size a = 20"
    using integrity_size [OF _ a(2)] by (simp add: padded_size_def pad_length_def)
  then have n: "length ?img = length ?pre + 24"
    using \<open>attr_wf a\<close> hm
    by (simp add: message_image_def attrs attrs_image_append length_attr_full kAttributeHeaderSize_def)
  have pre: "take (length ?img - 24) (?img @ buf) = ?pre"
    unfolding n by (simp add: message_image_def attrs attrs_image_append)
  have body: "attr_body ?a = IntegrityBody ?pre (compute_hmac env ?pre key) []"
    using a assms(8) by (simp add: attr_back_def attr_image_def)
  have "?pre \<noteq> []" by (simp add: message_header_def setBE16_def)
  then have v: "verifyHmac env ?a k = Inr (compute_hmac env ?pre key = compute_hmac env ?pre k)"
    by (rule verifyHmac_body [OF body hm _ assms(9)])
  show ?thesis
    by (intro exI [of _ "?img @ buf"] exI [of _ "length ?img"] exI [of _ ?m] exI [of _ ?a])
      (simp only: w r get v pre simp_thms)
qed

theorem integrity_end_to_end_witness:
  "\<exists>out n m' a'. message_write sample_env sample_message [] 0 = Inr out \<and>
     message_read sample_env out sample_message = Inr (n, m') \<and> message_get m' MessageIntegrity 0 = Some a' \<and>
     verifyHmac sample_env a' [1, 2] =
       Inr (compute_hmac sample_env (take (n - 24) out) [1, 2] = compute_hmac sample_env (take (n - 24) out) [1, 2])"
proof (rule integrity_end_to_end [OF sample_message_wf sample_env_hmac])
  show "length (message_image sample_env sample_message) + length [] < 2 ^ 31"
    using length_message_image [OF sample_message_wf sample_env_hmac] by (simp add: sample_message_def kMessageHeaderSize_def)
  show "msg_attrs sample_message = [\<lparr>attr_type = 0x000d, attr_size = 4, attr_body = UInt32Body 600\<rparr>] @
      [\<lparr>attr_type = 8, attr_size = 20, attr_body = IntegrityBody [] [] [1, 2]\<rparr>]"
    by (simp add: sample_message_def)
qed simp_all

text \<open>
  C7 (safety). Parsing an arbitrary datagram leaves the buffer only in two situations: the
  datagram is shorter than a message header, or it contains the header of a MESSAGE-INTEGRITY
  attribute, type 8 and size 20, with fewer than 20 bytes behind it. In every other case, whatever
  the bytes are, \<^verbatim>\<open>Message::read\<close> returns, reports an error, or stops at an assertion.
\<close>

theorem message_read_undefined:
  assumes "message_read env buf m = Inl Undefined" and "length buf + 4 < size_max"
  shows "length buf < kMessageHeaderSize \<or>
         (\<exists>i. take 4 (drop i buf) = [0, 8, 0, 20] \<and> length buf < i + 24)"
  using message_read_safe [of buf env m] assms
  by (fastforce simp: kMessageHeaderSize_def integrity_truncated_def)

theorem message_read_undefined_witness:
  "message_read sample_env truncated_integrity sample_message = Inl Undefined \<and>
   (length truncated_integrity < kMessageHeaderSize \<or>
    (\<exists>i. take 4 (drop i truncated_integrity) = [0, 8, 0, 20] \<and> length truncated_integrity < i + 24))"
proof
  show "message_read sample_env truncated_integrity sample_message = Inl Undefined"
    by (rule truncated_integrity_undefined)
  then show "length truncated_integrity < kMessageHeaderSize \<or>
    (\<exists>i. take 4 (drop i truncated_integrity) = [0, 8, 0, 20] \<and> length truncated_integrity < i + 24)"
    by (rule message_read_undefined) (simp add: truncated_integrity_def)
qed

text \<open>
  The first of the two situations of \<open>message_read_undefined\<close> is real: for a datagram of four to seven
  bytes with a STUN type and a size field no larger than the datagram, \<^verbatim>\<open>Message::read\<close>
  skips over the magic cookie past the end of the buffer, the number of available bytes wraps
  around, and the transaction id is read from memory behind the buffer.
\<close>

theorem short_message_overrun:
  assumes "4 \<le> length buf" and "length buf < 8" and "getBE16 (take 2 buf) AND 0x8000 = 0"
    and "isValidMethod (getBE16 (take 2 buf) AND 0x000F)"
    and "unat (getBE16 (take 2 (drop 2 buf))) \<le> length buf"
  shows "message_read env buf m = Inl Undefined"
proof -
  have "rd_get_string (rd_pos buf 8) [] 12 = Inl Undefined"
    using assms(1,2) by (simp add: rd_get_string_def rd_available_def size_sub_def rd_substr_def)
  then show ?thesis using assms
    by (simp add: message_read_def rd_of_buffer_pos rd_getU_pos rd_skip_def Let_def size_add_small
        kMagicCookieLength_def kTransactionIdLength_def caught_def del: add_2_eq_Suc add_2_eq_Suc')
qed

theorem short_message_overrun_witness: "message_read sample_env [0, 1, 0, 0] sample_message = Inl Undefined"
  by (rule short_message_overrun) (simp_all add: getBE16_def get8_def isValidMethod_def)

text \<open>
  \<^verbatim>\<open>UInt32Attribute::setBit\<close> sets or clears the bit it is given and no
  other: \<^verbatim>\<open>getBit\<close> afterwards returns the new value at that index and the old value at
  every other index.
\<close>

theorem setBit32_getBit32:
  assumes "i < 32" and "j < 32"
  shows "\<exists>w. setBit32 bits i v = Inr w \<and>
             getBit32 w j = (if j = i then Inr v else getBit32 bits j)"
  using assms
  by (auto simp: setBit32_def getBit32_def bit_int_bit bit_simps drop_bit_and_1)

theorem setBit32_getBit32_witness:
  "\<exists>w. setBit32 0x81 7 False = Inr w \<and> getBit32 w 0 = (if (0::nat) = 7 then Inr False else getBit32 0x81 0)"
  using setBit32_getBit32 [of 7 0 "0x81" False] by simp

text \<open>
  \<^verbatim>\<open>UInt64Attribute::setBit\<close> shifts an \<^verbatim>\<open>int\<close>, so at index 31 the sign
  extension of the mask clears the whole upper half of the value when the bit is cleared, and sets
  the whole upper half when the bit is set.
\<close>

theorem setBit64_index31:
  "setBit64 bits 31 v = Inr ((bits AND 0x7FFFFFFF) OR (if v then 0xFFFFFFFF80000000 else 0))"
proof -
  have eq: "(- 0x80000000 :: u64) = 0xFFFFFFFF80000000" by code_simp
  show ?thesis by (simp add: setBit64_def int_bit_def) (simp only: eq simp_thms)
qed

text \<open>
  The copy of a well-formed message, by the copy constructor, the assignment
  or \<^verbatim>\<open>clone\<close>, succeeds and equals the message in every field and every attribute.
\<close>

theorem message_copy_id:
  assumes "message_wf m"
  shows "message_copy m = Inr m"
proof -
  have "list_all attr_wf as \<Longrightarrow> clone_attrs as = Inr as" for as
    by (induction as) (simp_all add: clone_wf)
  then show ?thesis using assms
    by (auto simp: message_copy_def message_wf_def isValidMethod_def)
qed

theorem message_copy_id_witness: "message_wf sample_message \<and> message_copy sample_message = Inr sample_message"
  using message_copy_id [of sample_message] sample_message_wf by simp

end
