(* ===== verification/Packet_Transaction.thy ===== *)
theory Packet_Transaction
  imports Stateful Stun_Message
begin

text \<open>
  \<^verbatim>\<open>src/base/include/scy/packettransaction.h\<close>, \<^verbatim>\<open>src/net/include/scy/net/transaction.h\<close> and
  \<^verbatim>\<open>src/stun/src/transaction.cpp\<close>: request/response transactions with a timeout and
  retransmissions, over a socket, and for STUN messages.

  The operations are those of the class hierarchy as a STUN transaction runs them. The socket's
  answer to \<^verbatim>\<open>sendPacket\<close> is an argument of the operations that send. The timer is a one-shot
  timer of the event loop: it is active or not, firing makes it inactive, and its
  \<^verbatim>\<open>Timeout\<close> signal holds the slot of the transaction at most once (see \<open>Signal_Slot\<close>).
  Deferred deletion (\<^verbatim>\<open>deleteLater\<close>) and the emissions of \<^verbatim>\<open>StateChange\<close> are recorded.
\<close>

subsection \<open>States\<close>

datatype tx_state = Waiting | Running | Success | Cancelled | Failed

fun tx_id :: "tx_state \<Rightarrow> state_id" where
  "tx_id Waiting = 0"
| "tx_id Running = 1"
| "tx_id Success = 2"
| "tx_id Cancelled = 3"
| "tx_id Failed = 4"

definition tx_str :: "state_id \<Rightarrow> string" where
  "tx_str i =
     (if i = tx_id Waiting then ''Waiting''
      else if i = tx_id Running then ''Running''
      else if i = tx_id Success then ''Success''
      else if i = tx_id Cancelled then ''Cancelled''
      else if i = tx_id Failed then ''Failed''
      else ''undefined'')"

text \<open>A received message comes with the socket it arrived at and the peer that sent it.\<close>

record packet =
  pk_message :: message
  pk_info :: "(net_address \<times> net_address) option"

record transaction =
  tx_request :: message
  tx_response :: "message option"
  tx_local :: net_address
  tx_peer :: net_address
  tx_state :: state_id
  tx_retries :: int
  tx_attempts :: int
  tx_timeout :: int
  tx_timer :: bool
  tx_connected :: bool
  tx_destroyed :: bool
  tx_deletions :: nat
  tx_sent :: nat
  tx_changes :: "(state_id \<times> state_id) list"

definition new_transaction ::
    "message \<Rightarrow> net_address \<Rightarrow> net_address \<Rightarrow> int \<Rightarrow> int \<Rightarrow> transaction" where
  "new_transaction req local peer timeout retries =
     \<lparr>tx_request = req, tx_response = None, tx_local = local, tx_peer = peer, tx_state = tx_id Waiting,
      tx_retries = retries, tx_attempts = 0, tx_timeout = timeout, tx_timer = False,
      tx_connected = False, tx_destroyed = False, tx_deletions = 0, tx_sent = 0, tx_changes = []\<rparr>"

subsection \<open>Operations\<close>

definition tx_cancelled :: "transaction \<Rightarrow> bool" where
  "tx_cancelled t = stateEquals (tx_state t) (tx_id Cancelled)"

definition canResend :: "transaction \<Rightarrow> bool" where
  "canResend t \<longleftrightarrow> \<not> tx_cancelled t \<and> tx_attempts t \<le> tx_retries t"

definition dispose :: "transaction \<Rightarrow> transaction" where
  "dispose t =
     (if \<not> tx_destroyed t
      then t\<lparr>tx_destroyed := True, tx_connected := False, tx_timer := False,
             tx_deletions := tx_deletions t + 1\<rparr>
      else t)"

definition onStateChange :: "state_id \<Rightarrow> state_id \<Rightarrow> transaction \<Rightarrow> transaction" where
  "onStateChange st old t =
     (if st = tx_id Success \<or> st = tx_id Failed then dispose t else t)"

definition tx_emit :: "state_id \<Rightarrow> state_id \<Rightarrow> transaction \<Rightarrow> transaction" where
  "tx_emit st old t = t\<lparr>tx_changes := tx_changes t @ [(st, old)]\<rparr>"

definition tx_setState :: "tx_state \<Rightarrow> transaction \<Rightarrow> bool \<times> transaction" where
  "tx_setState st =
     setState tx_state (\<lambda>i t. t\<lparr>tx_state := i\<rparr>) onStateChange tx_emit (tx_id st)"

definition cancel :: "transaction \<Rightarrow> transaction" where
  "cancel t = snd (tx_setState Cancelled t)"

text \<open>\<^verbatim>\<open>Timer::stop\<close> and \<^verbatim>\<open>Timer::start\<close>, whose assertions are checked.\<close>

definition timer_start :: "transaction \<Rightarrow> transaction result" where
  "timer_start t = assert_r (\<not> tx_timer t) (assert_r (tx_timeout t > 0) (Inr (t\<lparr>tx_timer := True\<rparr>)))"

definition base_send :: "transaction \<Rightarrow> (bool \<times> transaction) result" where
  "base_send t =
     (if \<not> canResend t then Inr (False, t)
      else let t = t\<lparr>tx_attempts := tx_attempts t + 1\<rparr>;
               t = t\<lparr>tx_timer := False\<rparr>;
               t = t\<lparr>tx_connected := True\<rparr>
           in bind_r (timer_start t) (\<lambda>t. Inr (tx_setState Running t)))"

definition net_send :: "int \<Rightarrow> transaction \<Rightarrow> (bool \<times> transaction) result" where
  "net_send sent t =
     (let t = t\<lparr>tx_sent := tx_sent t + 1\<rparr>
      in if sent > 0 then base_send t
         else Inr (False, snd (tx_setState Failed t)))"

definition onTimeout :: "int \<Rightarrow> transaction \<Rightarrow> transaction result" where
  "onTimeout sent t =
     (if \<not> canResend t then Inr (snd (tx_setState Failed t))
      else bind_r (net_send sent t) (\<lambda>(_, t). Inr t))"

text \<open>The event loop runs an expired one-shot timer: it stops the timer and emits \<^verbatim>\<open>Timeout\<close>.\<close>

definition timer_fire :: "int \<Rightarrow> transaction \<Rightarrow> transaction result" where
  "timer_fire sent t =
     (if tx_timer t then
        (let t = t\<lparr>tx_timer := False\<rparr> in if tx_connected t then onTimeout sent t else Inr t)
      else Inr t)"

definition net_checkResponse ::
    "'a net_platform_scheme \<Rightarrow> transaction \<Rightarrow> packet \<Rightarrow> bool result" where
  "net_checkResponse env t p =
     (case pk_info p of
        None \<Rightarrow> Inl AssertFail
      | Some (socket, peer) \<Rightarrow>
          bind_r (address_eq env (tx_local t) socket) (\<lambda>same.
            if same then address_eq env (tx_peer t) peer else Inr False))"

definition stun_checkResponse ::
    "'a net_platform_scheme \<Rightarrow> transaction \<Rightarrow> packet \<Rightarrow> bool result" where
  "stun_checkResponse env t p =
     bind_r (net_checkResponse env t p) (\<lambda>ok.
       Inr (ok \<and> msg_tid (tx_request t) = msg_tid (pk_message p)))"

definition stun_onResponse :: "message \<Rightarrow> message \<Rightarrow> message" where
  "stun_onResponse request response =
     (let r = response\<lparr>msg_method := msg_method request\<rparr>;
          r = r\<lparr>msg_class := class_code SuccessResponse\<rparr>
      in if message_get r ErrorCode 0 \<noteq> None then r\<lparr>msg_class := class_code ErrorResponse\<rparr>
         else if msg_method r = method_code SendIndication \<or> msg_method r = method_code DataIndication
         then r\<lparr>msg_class := class_code Indication\<rparr>
         else r)"

text \<open>
  \<^verbatim>\<open>handlePotentialResponse\<close>; the packet is copied with the assignment of
  \<^verbatim>\<open>stun::Message\<close>.
\<close>

definition handlePotentialResponse ::
    "'a net_platform_scheme \<Rightarrow> packet \<Rightarrow> transaction \<Rightarrow> (bool \<times> transaction) result" where
  "handlePotentialResponse env p t =
     (if stateEquals (tx_state t) (tx_id Running) then
        bind_r (stun_checkResponse env t p) (\<lambda>ok.
          if ok then
            bind_r (message_copy (pk_message p)) (\<lambda>response.
              let t = t\<lparr>tx_response := Some (stun_onResponse (tx_request t) response)\<rparr>
              in Inr (True, snd (tx_setState Success t)))
          else Inr (False, t))
      else Inr (False, t))"

subsection \<open>Runs\<close>

datatype tx_event = Send int | Cancel | Fire int | Packet packet | Dispose

fun tx_run :: "'a net_platform_scheme \<Rightarrow> tx_event \<Rightarrow> transaction \<Rightarrow> transaction result" where
  "tx_run env (Send sent) t = bind_r (net_send sent t) (\<lambda>(_, t). Inr t)"
| "tx_run env Cancel t = Inr (cancel t)"
| "tx_run env (Fire sent) t = timer_fire sent t"
| "tx_run env (Packet p) t = bind_r (handlePotentialResponse env p t) (\<lambda>(_, t). Inr t)"
| "tx_run env Dispose t = Inr (dispose t)"

fun tx_runs :: "'a net_platform_scheme \<Rightarrow> tx_event list \<Rightarrow> transaction \<Rightarrow> transaction result" where
  "tx_runs env [] t = Inr t"
| "tx_runs env (e # es) t = bind_r (tx_run env e t) (\<lambda>t. tx_runs env es t)"

text \<open>How often \<^verbatim>\<open>send\<close> is called from outside.\<close>

fun tx_calls :: "tx_event list \<Rightarrow> nat" where
  "tx_calls [] = 0"
| "tx_calls (Send sent # es) = Suc (tx_calls es)"
| "tx_calls (_ # es) = tx_calls es"

interpretation tx_stateful: stateful tx_state "\<lambda>i t. t\<lparr>tx_state := i\<rparr>" onStateChange tx_emit
  by unfold_locales (simp_all add: onStateChange_def tx_emit_def dispose_def)

subsection \<open>Lemmas\<close>

lemma tx_setState_eq:
  "tx_setState st t =
     (if tx_state t = tx_id st then (False, t)
      else (True, tx_emit (tx_id st) (tx_state t) (onStateChange (tx_id st) (tx_state t) (t\<lparr>tx_state := tx_id st\<rparr>))))"
  by (simp add: tx_setState_def tx_stateful.setState_same tx_stateful.setState_change)

lemma tx_id_inj [simp]: "tx_id a = tx_id b \<longleftrightarrow> a = b"
  by (cases a; cases b) simp_all

lemmas tx_defs = tx_setState_eq onStateChange_def tx_emit_def dispose_def canResend_def
  tx_cancelled_def stateEquals_def base_send_def timer_start_def net_send_def onTimeout_def
  timer_fire_def Let_def

text \<open>
  The invariant of a transaction: the number of attempts, at most one deletion, disposal at the
  end, a timer that is connected while it is active, and a timer running whenever the transaction
  waits for a response.
\<close>

definition tx_inv0 :: "transaction \<Rightarrow> bool" where
  "tx_inv0 t \<longleftrightarrow>
     0 \<le> tx_attempts t \<and> tx_attempts t \<le> tx_retries t + 1 \<and>
     tx_deletions t = (if tx_destroyed t then 1 else 0) \<and>
     tx_state t \<in> tx_id ` {Waiting, Running, Success, Cancelled, Failed} \<and>
     (tx_state t = tx_id Success \<or> tx_state t = tx_id Failed \<longrightarrow> tx_destroyed t) \<and>
     (tx_timer t \<longrightarrow> tx_connected t) \<and>
     (tx_state t = tx_id Waiting \<longrightarrow> tx_attempts t = 0 \<and> \<not> tx_timer t) \<and>
     0 < tx_timeout t"

definition tx_inv :: "transaction \<Rightarrow> bool" where
  "tx_inv t \<longleftrightarrow> tx_inv0 t \<and> (tx_state t = tx_id Running \<and> \<not> tx_destroyed t \<longrightarrow> tx_timer t)"

lemma tx_inv_setState:
  "tx_inv0 t \<Longrightarrow> st \<noteq> Waiting \<Longrightarrow> st \<noteq> Running \<Longrightarrow> tx_inv (snd (tx_setState st t))"
  by (cases st) (auto simp: tx_inv_def tx_inv0_def tx_defs)

lemma tx_inv_net_send:
  assumes "tx_inv0 t" and "canResend t \<or> tx_inv t"
  shows "\<exists>b t'. net_send sent t = Inr (b, t') \<and> tx_inv t'"
proof (cases "sent > 0")
  case True
  with assms show ?thesis by (auto simp: tx_inv_def tx_inv0_def tx_defs)
next
  case False
  have "tx_inv0 (t\<lparr>tx_sent := tx_sent t + 1\<rparr>)" using assms(1) by (simp add: tx_inv0_def)
  with False show ?thesis using tx_inv_setState by (auto simp: net_send_def)
qed

lemma tx_inv_fire:
  assumes "tx_inv t"
  shows "\<exists>t'. timer_fire sent t = Inr t' \<and> tx_inv t'"
proof (cases "tx_timer t")
  case True
  let ?t = "t\<lparr>tx_timer := False\<rparr>"
  have inv0: "tx_inv0 ?t" and conn: "tx_connected t" using assms True by (auto simp: tx_inv_def tx_inv0_def)
  show ?thesis
  proof (cases "canResend ?t")
    case True
    then show ?thesis using tx_inv_net_send [OF inv0, of sent] \<open>tx_timer t\<close> conn
      by (auto simp: timer_fire_def onTimeout_def Let_def)
  next
    case False
    then show ?thesis using tx_inv_setState [OF inv0, of Failed] \<open>tx_timer t\<close> conn
      by (simp add: timer_fire_def onTimeout_def Let_def)
  qed
qed (use assms in \<open>simp add: timer_fire_def\<close>)

lemma tx_inv_response:
  assumes "tx_inv t" and "handlePotentialResponse env p t = Inr (b, t')"
  shows "tx_inv t'"
proof -
  have "tx_inv (snd (tx_setState Success (t\<lparr>tx_response := r\<rparr>)))" for r
    using assms(1) by (intro tx_inv_setState) (auto simp: tx_inv_def tx_inv0_def)
  with assms show ?thesis
    by (auto simp: handlePotentialResponse_def result_convs Let_def split: if_splits)
qed

lemma tx_inv_run:
  assumes "tx_inv t" and "tx_run env e t = Inr t'"
  shows "tx_inv t'"
proof (cases e)
  case (Send sent)
  then show ?thesis using tx_inv_net_send [of t sent] assms by (auto simp: tx_inv_def)
next
  case Cancel
  then show ?thesis using tx_inv_setState [of t Cancelled] assms by (auto simp: cancel_def tx_inv_def)
next
  case (Fire sent)
  then show ?thesis using tx_inv_fire [OF assms(1), of sent] assms(2) by auto
next
  case (Packet p)
  then show ?thesis using assms tx_inv_response by (auto simp: result_convs)
next
  case Dispose
  then have "t' = dispose t" using assms(2) by simp
  moreover have "tx_inv (dispose t)"
    using assms(1) unfolding tx_inv_def tx_inv0_def by (cases "tx_destroyed t") (simp_all add: dispose_def, blast)
  ultimately show ?thesis by simp
qed

lemma tx_inv_new:
  "0 < timeout \<Longrightarrow> 0 \<le> retries \<Longrightarrow> tx_inv (new_transaction req local peer timeout retries)"
  by (simp add: new_transaction_def tx_inv_def tx_inv0_def)

subsection \<open>Packets sent\<close>

text \<open>
  Every expiry that sends uses up a timer that an attempt has started, and none does once the
  attempts are used up; so the packets sent are bounded by the calls of \<^verbatim>\<open>send\<close> and the retries.
\<close>

definition tx_bound :: "transaction \<Rightarrow> int" where
  "tx_bound t = (if tx_timer t \<and> tx_attempts t \<le> tx_retries t then tx_attempts t - 1 else min (tx_attempts t) (tx_retries t))"

definition tx_budget :: "nat \<Rightarrow> transaction \<Rightarrow> bool" where
  "tx_budget calls t \<longleftrightarrow> tx_inv t \<and> int (tx_sent t) \<le> int calls + tx_bound t"

text \<open>What does not start the timer keeps the bound, and so does an attempt.\<close>

definition tx_quiet :: "transaction \<Rightarrow> transaction \<Rightarrow> bool" where
  "tx_quiet t t' \<longleftrightarrow> tx_attempts t' = tx_attempts t \<and> tx_retries t' = tx_retries t \<and> (tx_timer t' \<longrightarrow> tx_timer t)"

lemma quiet_setState: "tx_quiet t (snd (tx_setState st t)) \<and> tx_sent (snd (tx_setState st t)) = tx_sent t"
  by (simp add: tx_quiet_def tx_defs)

lemma quiet_bound: "tx_quiet t t' \<Longrightarrow> tx_bound t \<le> tx_bound t'"
  by (auto simp: tx_quiet_def tx_bound_def)

lemma attempt_bound:
  "tx_attempts t \<le> tx_retries t \<Longrightarrow> tx_attempts t' = tx_attempts t + 1 \<Longrightarrow> tx_retries t' = tx_retries t \<Longrightarrow>
   tx_attempts t \<le> tx_bound t' \<and> tx_bound t \<le> tx_bound t'"
  by (auto simp: tx_bound_def)

lemma net_send_budget:
  assumes "net_send k t = Inr (x, t')"
  shows "tx_sent t' = tx_sent t + 1 \<and> tx_retries t' = tx_retries t \<and>
    (tx_quiet t t' \<or> tx_attempts t \<le> tx_retries t \<and> tx_attempts t' = tx_attempts t + 1)"
proof (cases "k > 0 \<and> canResend t")
  case True
  then show ?thesis using assms
    by (auto simp: net_send_def base_send_def timer_start_def result_convs tx_setState_eq onStateChange_def tx_emit_def
        dispose_def canResend_def tx_cancelled_def stateEquals_def tx_quiet_def Let_def split: if_splits)
next
  case False
  then show ?thesis
    using assms quiet_setState [of "t\<lparr>tx_sent := tx_sent t + 1\<rparr>" Failed]
    by (auto simp: net_send_def Let_def base_send_def canResend_def tx_cancelled_def stateEquals_def tx_quiet_def
        split: if_splits)
qed

lemma fire_budget:
  assumes "tx_inv t" "timer_fire k t = Inr t'"
  shows "tx_retries t' = tx_retries t \<and> int (tx_sent t') - tx_bound t' \<le> int (tx_sent t) - tx_bound t"
proof (cases "tx_timer t")
  case True
  let ?t = "t\<lparr>tx_timer := False\<rparr>"
  have "tx_connected t" using assms(1) True by (simp add: tx_inv_def tx_inv0_def)
  then have o: "onTimeout k ?t = Inr t'" using assms(2) True by (simp add: timer_fire_def)
  have q: "tx_bound t \<le> tx_bound ?t" by (rule quiet_bound) (simp add: tx_quiet_def)
  show ?thesis
  proof (cases "canResend ?t")
    case False
    then have "t' = snd (tx_setState Failed ?t)" using o by (simp add: onTimeout_def)
    then have e: "tx_quiet ?t t'" "tx_sent t' = tx_sent t" using quiet_setState [of ?t Failed] by simp_all
    have "tx_retries t' = tx_retries t" using e(1) by (simp add: tx_quiet_def)
    then show ?thesis using q quiet_bound [OF e(1)] e(2) by linarith
  next
    case c: True
    then obtain x where n: "net_send k ?t = Inr (x, t')" using o by (auto simp: onTimeout_def bind_r_eq_Inr)
    have a: "tx_attempts t \<le> tx_retries t" using c by (simp add: canResend_def)
    then have "tx_bound t = tx_attempts t - 1" using True by (simp add: tx_bound_def)
    moreover have "tx_attempts t \<le> tx_bound t'" using net_send_budget [OF n] a attempt_bound [of ?t t']
      by (auto simp: tx_quiet_def tx_bound_def)
    ultimately show ?thesis using net_send_budget [OF n] by simp
  qed
qed (use assms in \<open>simp add: timer_fire_def\<close>)

lemma tx_budget_step:
  assumes "tx_budget calls t" and "tx_run env e t = Inr t'"
  shows "tx_budget (calls + tx_calls [e]) t'" "tx_retries t' = tx_retries t"
proof -
  have inv: "tx_inv t" and inv': "tx_inv t'" using assms tx_inv_run by (auto simp: tx_budget_def)
  have "tx_retries t' = tx_retries t \<and> int (tx_sent t') - tx_bound t' \<le> int (tx_sent t) - tx_bound t + int (tx_calls [e])"
  proof (cases e)
    case (Send k)
    then obtain x where n: "net_send k t = Inr (x, t')" using assms(2) by (auto simp: bind_r_eq_Inr)
    then have "tx_bound t \<le> tx_bound t'" using net_send_budget [OF n] quiet_bound [of t t'] attempt_bound [of t t'] by auto
    then show ?thesis using net_send_budget [OF n] Send by simp
  next
    case Cancel
    then have "t' = snd (tx_setState Cancelled t)" using assms(2) by (simp add: cancel_def)
    then have q: "tx_quiet t t'" "tx_sent t' = tx_sent t" using quiet_setState [of t Cancelled] by simp_all
    then show ?thesis using quiet_bound [OF q(1)] Cancel by (simp add: tx_quiet_def)
  next
    case (Fire k)
    then show ?thesis using fire_budget [OF inv] assms(2) by simp
  next
    case (Packet pk)
    then obtain b where "handlePotentialResponse env pk t = Inr (b, t')" using assms(2) by (auto simp: bind_r_eq_Inr)
    then have "t' = t \<or> (\<exists>r. t' = snd (tx_setState Success (t\<lparr>tx_response := r\<rparr>)))"
      by (auto simp: handlePotentialResponse_def result_convs Let_def split: if_splits)
    then have q: "tx_quiet t t'" "tx_sent t' = tx_sent t"
      using quiet_setState [of "t\<lparr>tx_response := r\<rparr>" Success for r] by (auto simp: tx_quiet_def)
    then show ?thesis using quiet_bound [OF q(1)] Packet by (simp add: tx_quiet_def)
  next
    case Dispose
    then have q: "tx_quiet t t'" "tx_sent t' = tx_sent t" using assms(2) by (auto simp: dispose_def tx_quiet_def split: if_splits)
    then show ?thesis using quiet_bound [OF q(1)] Dispose by (simp add: tx_quiet_def)
  qed
  then show "tx_budget (calls + tx_calls [e]) t'" "tx_retries t' = tx_retries t"
    using inv' assms(1) by (simp_all add: tx_budget_def)
qed

lemma tx_calls_Cons: "tx_calls (e # es) = tx_calls [e] + tx_calls es"
  by (cases e) simp_all

lemma tx_budget_runs:
  "tx_budget calls t \<Longrightarrow> tx_runs env es t = Inr t' \<Longrightarrow> tx_budget (calls + tx_calls es) t' \<and> tx_retries t' = tx_retries t"
proof (induction es arbitrary: calls t)
  case (Cons e es)
  then obtain t1 where t1: "tx_run env e t = Inr t1" "tx_runs env es t1 = Inr t'" by (auto simp: bind_r_eq_Inr)
  show ?case using Cons.IH [OF tx_budget_step(1) [OF Cons.prems(1) t1(1)] t1(2)] tx_budget_step(2) [OF Cons.prems(1) t1(1)]
    by (subst tx_calls_Cons) (simp add: add.assoc)
qed simp

subsection \<open>Timing out\<close>

text \<open>One expiry of the timer of a waiting transaction: it retransmits, or it fails.\<close>

definition tx_waiting :: "transaction \<Rightarrow> bool" where
  "tx_waiting t \<longleftrightarrow> tx_inv t \<and> tx_state t = tx_id Running \<and> \<not> tx_destroyed t"

definition tx_dead :: "transaction \<Rightarrow> bool" where
  "tx_dead t \<longleftrightarrow> tx_inv t \<and> tx_state t = tx_id Failed \<and> tx_destroyed t \<and> \<not> tx_timer t"

lemma fire_dead: "tx_dead t \<Longrightarrow> timer_fire sent t = Inr t"
  by (simp add: tx_dead_def timer_fire_def)

lemma fire_waiting:
  assumes "tx_waiting t"
  shows "\<exists>t'. timer_fire sent t = Inr t' \<and> tx_retries t' = tx_retries t \<and>
    (if tx_attempts t \<le> tx_retries t then
       tx_sent t' = tx_sent t + 1 \<and>
       (if sent > 0 then tx_waiting t' \<and> tx_attempts t' = tx_attempts t + 1 else tx_dead t')
     else tx_dead t' \<and> tx_sent t' = tx_sent t)"
proof -
  obtain t' where t': "timer_fire sent t = Inr t'" "tx_inv t'"
    using tx_inv_fire assms unfolding tx_waiting_def by blast
  have "tx_timer t" "tx_connected t" "0 < tx_timeout t"
    using assms by (auto simp: tx_waiting_def tx_inv_def tx_inv0_def)
  with t' assms show ?thesis
    by (simp add: tx_waiting_def tx_dead_def tx_defs split: if_splits) auto
qed

lemma runs_dead: "tx_dead t \<Longrightarrow> tx_runs env (map Fire ss) t = Inr t"
  by (induction ss) (simp_all add: fire_dead)

lemma runs_waiting:
  assumes "tx_waiting t" and "int (length ss) = tx_retries t + 2 - tx_attempts t"
  shows "\<exists>t'. tx_runs env (map Fire ss) t = Inr t' \<and> tx_dead t' \<and>
    int (tx_sent t') \<le> int (tx_sent t) + (tx_retries t + 1 - tx_attempts t) \<and>
    ((\<forall>k \<in> set ss. k > 0) \<longrightarrow> int (tx_sent t') = int (tx_sent t) + (tx_retries t + 1 - tx_attempts t))"
  using assms
proof (induction ss arbitrary: t)
  case Nil
  then show ?case by (simp add: tx_waiting_def tx_inv_def tx_inv0_def)
next
  case (Cons k ss)
  obtain t1 where t1: "timer_fire k t = Inr t1" "tx_retries t1 = tx_retries t"
    "if tx_attempts t \<le> tx_retries t then
       tx_sent t1 = tx_sent t + 1 \<and>
       (if k > 0 then tx_waiting t1 \<and> tx_attempts t1 = tx_attempts t + 1 else tx_dead t1)
     else tx_dead t1 \<and> tx_sent t1 = tx_sent t"
    using fire_waiting [OF Cons.prems(1)] by blast
  have bound: "tx_attempts t \<le> tx_retries t + 1"
    using Cons.prems(1) by (simp add: tx_waiting_def tx_inv_def tx_inv0_def)
  show ?case
  proof (cases "tx_attempts t \<le> tx_retries t \<and> k > 0")
    case True
    with t1 have w: "tx_waiting t1" "tx_attempts t1 = tx_attempts t + 1" "tx_sent t1 = tx_sent t + 1"
      by auto
    show ?thesis using Cons.IH [OF w(1)] Cons.prems(2) t1(1,2) w by auto
  next
    case False
    with t1 have "tx_dead t1" by (auto split: if_splits)
    then have "tx_runs env (map Fire ss) t1 = Inr t1" by (rule runs_dead)
    then show ?thesis using t1 False bound \<open>tx_dead t1\<close> by (auto split: if_splits)
  qed
qed

subsection \<open>Properties\<close>

text \<open>
  C4 (invariant). In every state a transaction reaches, through any sequence of sends with any
  outcome of the socket, cancellations, timer expiries, received packets and disposals: it makes
  at most one attempt more than the number of retries, and the packets it sent are at most the
  calls of \<^verbatim>\<open>send\<close> plus the retries (every call sends a packet, see \<open>sends_without_attempts\<close>); it
  is scheduled for deletion at most once and exactly when it is disposed of, a successful or failed
  transaction is disposed of, and a transaction that waits for a response and is not disposed of
  always has its timer running, so that it cannot wait forever.
\<close>

theorem transaction_invariant:
  assumes "tx_runs env es (new_transaction req local peer timeout retries) = Inr t"
    and "0 < timeout" and "0 \<le> retries"
  shows "tx_attempts t \<le> retries + 1 \<and> int (tx_sent t) \<le> int (tx_calls es) + retries \<and>
    tx_deletions t = (if tx_destroyed t then 1 else 0) \<and>
    (tx_state t = tx_id Success \<or> tx_state t = tx_id Failed \<longrightarrow> tx_destroyed t) \<and>
    (tx_state t = tx_id Running \<and> \<not> tx_destroyed t \<longrightarrow> tx_timer t \<and> tx_connected t)"
proof -
  let ?t0 = "new_transaction req local peer timeout retries"
  have "tx_budget 0 ?t0" using tx_inv_new [OF assms(2,3)] assms(3) by (simp add: tx_budget_def tx_bound_def) (simp add: new_transaction_def)
  from tx_budget_runs [OF this assms(1)] have b: "tx_budget (tx_calls es) t" "tx_retries t = retries"
    by (simp_all add: new_transaction_def)
  then have "int (tx_sent t) \<le> int (tx_calls es) + retries" by (auto simp: tx_budget_def tx_bound_def split: if_splits)
  with b show ?thesis by (auto simp: tx_budget_def tx_inv_def tx_inv0_def)
qed

theorem transaction_invariant_witness:
  "\<exists>t. tx_runs sample_env [Send 1, Fire 1, Send 1] (new_transaction sample_message address_default address_default 10000 1) = Inr t \<and>
    tx_state t = tx_id Running \<and> tx_sent t = 3 \<and> int (tx_sent t) \<le> int (tx_calls [Send 1, Fire 1, Send 1]) + 1 \<and> tx_timer t"
proof -
  obtain t where t: "tx_runs sample_env [Send 1, Fire 1, Send 1] (new_transaction sample_message address_default address_default 10000 1) = Inr t"
    "tx_state t = tx_id Running" "\<not> tx_destroyed t" "tx_sent t = 3"
    by (simp add: new_transaction_def tx_defs)
  then show ?thesis using transaction_invariant [OF t(1)] by simp
qed

text \<open>
  \<^verbatim>\<open>net::Transaction::send\<close> gives the packet to the socket before the base class asks whether it may be
  sent again: every call sends, also when the attempts are used up or the transaction is cancelled.
\<close>

lemma sends_without_attempts:
  assumes "0 < sent" and "\<not> canResend t"
  shows "net_send sent t = Inr (False, t\<lparr>tx_sent := tx_sent t + 1\<rparr>)"
  using assms by (simp add: net_send_def base_send_def canResend_def tx_cancelled_def)

text \<open>
  C22 (liveness). A transaction that gets no response ends. Whatever the socket answers, after the
  first send and one more timer expiry than the number of retries the transaction has failed, is
  disposed of and scheduled for deletion once, after at most \<open>retries + 1\<close> packets; when every
  packet could be sent, after exactly \<open>retries + 1\<close>.
\<close>

theorem transaction_times_out:
  assumes "0 < timeout" and "0 \<le> retries" and "int (length ss) = retries + 1"
  shows "\<exists>t. tx_runs env (Send s0 # map Fire ss) (new_transaction req local peer timeout retries) = Inr t \<and>
    tx_state t = tx_id Failed \<and> tx_destroyed t \<and> tx_deletions t = 1 \<and> int (tx_sent t) \<le> retries + 1 \<and>
    ((\<forall>k \<in> set (s0 # ss). k > 0) \<longrightarrow> int (tx_sent t) = retries + 1)"
proof -
  let ?t0 = "new_transaction req local peer timeout retries"
  obtain b t1 where t1: "net_send s0 ?t0 = Inr (b, t1)" "tx_inv t1"
    using tx_inv_net_send [of ?t0 s0] tx_inv_new [OF assms(1,2)] by (auto simp: tx_inv_def)
  show ?thesis
  proof (cases "s0 > 0")
    case True
    then have "tx_state t1 = tx_id Running" "\<not> tx_destroyed t1"
      and eqs: "tx_attempts t1 = 1" "tx_retries t1 = retries" "tx_sent t1 = 1"
      using t1(1) assms(1,2) by (auto simp: new_transaction_def tx_defs)
    with t1(2) have "tx_waiting t1" by (simp add: tx_waiting_def)
    then obtain t where t: "tx_runs env (map Fire ss) t1 = Inr t" "tx_dead t"
      "int (tx_sent t) \<le> retries + 1" "(\<forall>k \<in> set ss. k > 0) \<longrightarrow> int (tx_sent t) = retries + 1"
      using runs_waiting [of t1 ss env] assms(3) eqs by (force simp: algebra_simps)
    then show ?thesis using t1(1) by (simp add: tx_dead_def tx_inv_def tx_inv0_def)
  next
    case False
    then have "tx_state t1 = tx_id Failed" "tx_destroyed t1" "\<not> tx_timer t1" and sent: "tx_sent t1 = 1"
      using t1(1) by (auto simp: new_transaction_def tx_defs)
    with t1(2) have "tx_dead t1" by (simp add: tx_dead_def)
    then show ?thesis using runs_dead [of t1 env ss] t1(1) False assms(2) sent
      by (simp add: tx_dead_def tx_inv_def tx_inv0_def)
  qed
qed

theorem transaction_times_out_witness:
  "\<exists>t. tx_runs sample_env (Send 1 # map Fire [1, 1])
          (new_transaction sample_message address_default address_default 10000 1) = Inr t \<and>
       tx_state t = tx_id Failed \<and> tx_destroyed t \<and> tx_deletions t = 1 \<and> int (tx_sent t) \<le> 1 + 1 \<and>
       ((\<forall>k \<in> set (1 # [1, 1]). k > (0 :: int)) \<longrightarrow> int (tx_sent t) = 1 + 1)"
  by (rule transaction_times_out) simp_all

text \<open>
  C23 (functional). A STUN transaction that waits for its response accepts a packet exactly when
  it arrived at the transaction's socket from the transaction's peer with the transaction id of
  the request. It then succeeds: it stores a copy of the message with the method of the request
  and the class \<^verbatim>\<open>ErrorResponse\<close> if the message has an ERROR-CODE, \<^verbatim>\<open>Indication\<close> for the
  two indication methods, and \<^verbatim>\<open>SuccessResponse\<close> otherwise; the timer is stopped and the
  transaction disposed of. Any other packet leaves the transaction as it was.
\<close>

theorem response_accepted_iff:
  assumes "tx_state t = tx_id Running" and "pk_info p = Some (socket, peer)"
    and "address_eq env (tx_local t) socket = Inr same_socket"
    and "address_eq env (tx_peer t) peer = Inr same_peer"
    and "message_copy (pk_message p) = Inr m"
  shows "if same_socket \<and> same_peer \<and> msg_tid (tx_request t) = msg_tid (pk_message p)
    then \<exists>t' r. handlePotentialResponse env p t = Inr (True, t') \<and> tx_state t' = tx_id Success \<and>
           tx_destroyed t' \<and> tx_request t' = tx_request t \<and> tx_attempts t' = tx_attempts t \<and>
           tx_response t' = Some r \<and> msg_tid r = msg_tid (tx_request t) \<and>
           msg_attrs r = msg_attrs m \<and> msg_method r = msg_method (tx_request t) \<and>
           msg_class r =
             (if message_get m ErrorCode 0 \<noteq> None then class_code ErrorResponse
              else if msg_method (tx_request t) \<in> {method_code SendIndication, method_code DataIndication}
              then class_code Indication else class_code SuccessResponse)
    else handlePotentialResponse env p t = Inr (False, t)"
proof -
  have "msg_tid m = msg_tid (pk_message p)"
    using assms(5) by (auto simp: message_copy_def result_convs)
  then show ?thesis
    using assms(1-4)
    by (simp add: handlePotentialResponse_def stateEquals_def stun_checkResponse_def
        net_checkResponse_def assms(5) stun_onResponse_def tx_defs message_get_def)
qed

definition sample_tx :: transaction where
  "sample_tx = (new_transaction sample_message address_default address_default 10000 1)
     \<lparr>tx_state := tx_id Running, tx_attempts := 1, tx_timer := True, tx_connected := True\<rparr>"

lemma sample_tx_inv: "tx_inv sample_tx"
  by (simp add: sample_tx_def new_transaction_def tx_inv_def tx_inv0_def)

lemma sample_copy: "message_copy sample_message = Inr sample_message"
  by (simp add: message_copy_def sample_message_def kTransactionIdLength_def clone_def)

theorem response_accepted_iff_witness:
  "\<exists>t' r. handlePotentialResponse sample_env
       \<lparr>pk_message = sample_message, pk_info = Some (address_default, address_default)\<rparr> sample_tx =
       Inr (True, t') \<and> tx_state t' = tx_id Success \<and> tx_response t' = Some r \<and>
       msg_class r = class_code SuccessResponse"
  using response_accepted_iff [of sample_tx
      "\<lparr>pk_message = sample_message, pk_info = Some (address_default, address_default)\<rparr>"
      address_default address_default sample_env True True sample_message] sample_copy
  by (auto simp: sample_tx_def new_transaction_def address_eq_def address_host_def address_default_def
      message_get_def sample_message_def)

text \<open>
  Cancelling is documented to keep waiting for a response for the duration of the
  timeout without treating the lack of one as a failure. In the code a cancelled transaction
  ignores every packet, and when its timer expires it fails.
\<close>

theorem cancelled_fails:
  assumes "tx_inv t" and "tx_timer t"
  shows "handlePotentialResponse env p (cancel t) = Inr (False, cancel t) \<and>
    (\<exists>t'. timer_fire sent (cancel t) = Inr t' \<and> tx_state t' = tx_id Failed \<and> tx_destroyed t' \<and>
          tx_sent t' = tx_sent t)"
proof -
  have st: "tx_state (cancel t) = tx_id Cancelled" and tm: "tx_timer (cancel t)"
    and conn: "tx_connected (cancel t)" and sent: "tx_sent (cancel t) = tx_sent t"
    using assms by (auto simp: cancel_def tx_defs tx_inv_def tx_inv0_def)
  have "tx_inv (cancel t)"
    using tx_inv_run [of t sample_env Cancel] assms(1) by simp
  then have "tx_inv0 ((cancel t)\<lparr>tx_timer := False\<rparr>)" by (auto simp: tx_inv_def tx_inv0_def)
  from tx_inv_setState [OF this, of Failed]
  have "tx_inv (snd (tx_setState Failed ((cancel t)\<lparr>tx_timer := False\<rparr>)))" by simp
  then show ?thesis using st tm conn sent
    by (auto simp: handlePotentialResponse_def tx_defs split: if_splits)
qed

theorem cancelled_fails_witness:
  "\<exists>t'. timer_fire 1 (cancel sample_tx) = Inr t' \<and> tx_state t' = tx_id Failed \<and> tx_destroyed t' \<and>
        tx_sent t' = tx_sent sample_tx"
  using cancelled_fails [OF sample_tx_inv, of sample_env] by (simp add: sample_tx_def)

text \<open>
  A retransmission returns \<^verbatim>\<open>false\<close>: the packet goes out, the attempt is counted
  and the timer restarted, but the state is \<^verbatim>\<open>Running\<close> already, so \<^verbatim>\<open>setState\<close> reports no
  change and \<^verbatim>\<open>send\<close> passes that on.
\<close>

theorem resend_returns_false:
  assumes "tx_state t = tx_id Running" and "tx_attempts t \<le> tx_retries t" and "0 < tx_timeout t"
    and "0 < sent"
  shows "\<exists>t'. net_send sent t = Inr (False, t') \<and> tx_sent t' = tx_sent t + 1 \<and>
              tx_attempts t' = tx_attempts t + 1 \<and> tx_timer t'"
  using assms by (simp add: tx_defs)

theorem resend_returns_false_witness:
  "\<exists>t'. net_send 20 sample_tx = Inr (False, t') \<and> tx_sent t' = tx_sent sample_tx + 1 \<and>
        tx_attempts t' = tx_attempts sample_tx + 1 \<and> tx_timer t'"
  by (rule resend_returns_false) (simp_all add: sample_tx_def new_transaction_def)

end
