(* ===== verification/Signal_Slot.thy ===== *)
theory Signal_Slot
  imports Scy_Prelude "HOL-Library.Multiset"
begin

text \<open>
  \<^verbatim>\<open>src/base/include/scy/signal.h\<close> and \<^verbatim>\<open>delegate.h\<close>: signals, their slots and the delegates
  the slots hold.

  Slots are shared pointers: a running emission holds a copy of the slot list while a callback
  detaches slots, and the \<^verbatim>\<open>flag\<close> of a slot is how the emission learns of it. So a signal has a
  heap of slots (\<open>sg_heap\<close>, an address is an index) beside its list of attached addresses. The
  heap only grows: it stands for what any holder of a pointer may still look at.
  \<^verbatim>\<open>std::sort\<close> leaves the order of equal elements open, so the sorting function is an argument
  of \<open>attach\<close>, with its guarantees as the locale \<open>slot_sorter\<close>.
\<close>

subsection \<open>Delegates\<close>

text \<open>Instances and methods are pointers; a \<^verbatim>\<open>std::function\<close> has no identity to compare.\<close>

datatype delegate =
    FunctionDelegate nat
  | ClassDelegate nat nat
  | ConstClassDelegate nat nat
  | PolymorphicDelegate nat nat

fun delegate_eq :: "delegate \<Rightarrow> delegate \<Rightarrow> bool" where
  "delegate_eq (ClassDelegate i m) (ClassDelegate j n) \<longleftrightarrow> j = i \<and> n = m"
| "delegate_eq (ConstClassDelegate i m) (ConstClassDelegate j n) \<longleftrightarrow> j = i \<and> n = m"
| "delegate_eq (PolymorphicDelegate i m) (PolymorphicDelegate j n) \<longleftrightarrow> j = i \<and> n = m"
| "delegate_eq _ _ \<longleftrightarrow> False"

subsection \<open>Slots\<close>

record slot =
  sl_delegate :: delegate
  sl_instance :: "nat option"
  sl_id :: int
  sl_priority :: int
  sl_flag :: bool

definition new_slot :: "delegate \<Rightarrow> nat option \<Rightarrow> int \<Rightarrow> int \<Rightarrow> slot" where
  "new_slot d inst i prio =
     \<lparr>sl_delegate = d, sl_instance = inst, sl_id = i, sl_priority = prio, sl_flag = True\<rparr>"

text \<open>\<^verbatim>\<open>alive\<close> is an atomic test-and-set: it tells whether the flag was set, and sets it.\<close>

definition slot_kill :: "slot \<Rightarrow> slot" where
  "slot_kill sl = sl\<lparr>sl_flag := False\<rparr>"

definition slot_alive :: "slot \<Rightarrow> bool \<times> slot" where
  "slot_alive sl = (sl_flag sl, sl\<lparr>sl_flag := True\<rparr>)"

subsection \<open>Signals\<close>

record signal =
  sg_heap :: "slot list"
  sg_slots :: "nat list"
  sg_lastId :: int

definition new_signal :: signal where
  "new_signal = \<lparr>sg_heap = [], sg_slots = [], sg_lastId = 0\<rparr>"

text \<open>\<^verbatim>\<open>std::make_shared<Slot>\<close>.\<close>

definition sg_make :: "signal \<Rightarrow> slot \<Rightarrow> nat \<times> signal" where
  "sg_make s sl = (length (sg_heap s), s\<lparr>sg_heap := sg_heap s @ [sl]\<rparr>)"

text \<open>The loops of \<^verbatim>\<open>detach\<close>: up to the first live slot that matches, or over all slots.\<close>

fun detach_first :: "(slot \<Rightarrow> bool) \<Rightarrow> slot list \<Rightarrow> nat list \<Rightarrow> bool \<times> slot list \<times> nat list" where
  "detach_first p h [] = (False, h, [])"
| "detach_first p h (a # as) =
     (let (alive, sl) = slot_alive (h ! a) in
      if alive \<and> p sl then (True, h[a := slot_kill sl], as)
      else let (res, h', as') = detach_first p (h[a := sl]) as in (res, h', a # as'))"

fun detach_all :: "(slot \<Rightarrow> bool) \<Rightarrow> slot list \<Rightarrow> nat list \<Rightarrow> slot list \<times> nat list" where
  "detach_all p h [] = (h, [])"
| "detach_all p h (a # as) =
     (let (alive, sl) = slot_alive (h ! a) in
      if alive \<and> p sl then detach_all p (h[a := slot_kill sl]) as
      else let (h', as') = detach_all p (h[a := sl]) as in (h', a # as'))"

definition sg_detach_where :: "(slot \<Rightarrow> bool) \<Rightarrow> signal \<Rightarrow> bool \<times> signal" where
  "sg_detach_where p s =
     (let (res, h, as) = detach_first p (sg_heap s) (sg_slots s)
      in (res, s\<lparr>sg_heap := h, sg_slots := as\<rparr>))"

definition sg_detach_id :: "signal \<Rightarrow> int \<Rightarrow> bool \<times> signal" where
  "sg_detach_id s i = sg_detach_where (\<lambda>sl. sl_id sl = i) s"

definition sg_detach_slot :: "signal \<Rightarrow> delegate \<Rightarrow> bool \<times> signal" where
  "sg_detach_slot s other = sg_detach_where (\<lambda>sl. delegate_eq (sl_delegate sl) other) s"

text \<open>The flag \<^verbatim>\<open>removed\<close> of the overload for instances starts as \<^verbatim>\<open>true\<close>.\<close>

definition sg_detach_instance :: "signal \<Rightarrow> nat option \<Rightarrow> bool \<times> signal" where
  "sg_detach_instance s inst =
     (let (h, as) = detach_all (\<lambda>sl. sl_instance sl = inst) (sg_heap s) (sg_slots s)
      in (True, s\<lparr>sg_heap := h, sg_slots := as\<rparr>))"

definition sg_detachAll :: "signal \<Rightarrow> signal" where
  "sg_detachAll s =
     s\<lparr>sg_heap := foldr (\<lambda>a h. h[a := slot_kill (h ! a)]) (sg_slots s) (sg_heap s), sg_slots := []\<rparr>"

type_synonym sorter = "(nat \<Rightarrow> int) \<Rightarrow> nat list \<Rightarrow> nat list"

definition sg_attach :: "sorter \<Rightarrow> signal \<Rightarrow> nat \<Rightarrow> int \<times> signal" where
  "sg_attach srt s a =
     (let s = snd (sg_detach_slot s (sl_delegate (sg_heap s ! a)));
          s = (if sl_id (sg_heap s ! a) = -1
               then s\<lparr>sg_lastId := sg_lastId s + 1,
                      sg_heap := (sg_heap s)[a := (sg_heap s ! a)\<lparr>sl_id := sg_lastId s + 1\<rparr>]\<rparr>
               else s);
          s = s\<lparr>sg_slots := srt (\<lambda>b. sl_priority (sg_heap s ! b)) (sg_slots s @ [a])\<rparr>
      in (sl_id (sg_heap s ! a), s))"

text \<open>\<^verbatim>\<open>attach(func, instance, id, priority)\<close> and \<^verbatim>\<open>+=\<close>: allocate a slot and attach it.\<close>

definition sg_connect :: "sorter \<Rightarrow> signal \<Rightarrow> slot \<Rightarrow> int \<times> signal" where
  "sg_connect srt s sl = (let (a, s) = sg_make s sl in sg_attach srt s a)"

text \<open>
  \<^verbatim>\<open>emit\<close> walks over a copy of the slot list. A callback \<open>call d\<close> works on the signal itself
  and on the rest of the program's state, and may throw \<^verbatim>\<open>StopPropagation\<close>, which ends the
  emission.
\<close>

fun emit_loop ::
    "(delegate \<Rightarrow> signal \<Rightarrow> 'w \<Rightarrow> bool \<times> signal \<times> 'w) \<Rightarrow> nat list \<Rightarrow> signal \<Rightarrow> 'w \<Rightarrow> signal \<times> 'w" where
  "emit_loop call [] s w = (s, w)"
| "emit_loop call (a # as) s w =
     (let (alive, sl) = slot_alive (sg_heap s ! a);
          s = s\<lparr>sg_heap := (sg_heap s)[a := sl]\<rparr>
      in if alive then
           (case call (sl_delegate sl) s w of
              (stop, s, w) \<Rightarrow> if stop then (s, w) else emit_loop call as s w)
         else emit_loop call as s w)"

definition sg_emit ::
    "(delegate \<Rightarrow> signal \<Rightarrow> 'w \<Rightarrow> bool \<times> signal \<times> 'w) \<Rightarrow> signal \<Rightarrow> 'w \<Rightarrow> signal \<times> 'w" where
  "sg_emit call s w = emit_loop call (sg_slots s) s w"

subsection \<open>Well-formed signals\<close>

abbreviation slot_at :: "signal \<Rightarrow> nat \<Rightarrow> slot" where
  "slot_at s a \<equiv> sg_heap s ! a"

definition attached_ok :: "slot list \<Rightarrow> nat list \<Rightarrow> bool" where
  "attached_ok h as \<longleftrightarrow> distinct as \<and> (\<forall>a \<in> set as. a < length h \<and> sl_flag (h ! a))"

text \<open>
  The attached slots are distinct, alive, ordered by descending priority, and no two of them hold
  equal delegates.
\<close>

definition signal_ok :: "signal \<Rightarrow> bool" where
  "signal_ok s \<longleftrightarrow> attached_ok (sg_heap s) (sg_slots s) \<and>
     sorted_wrt (\<lambda>a b. sl_priority (slot_at s b) \<le> sl_priority (slot_at s a)) (sg_slots s) \<and>
     (\<forall>a \<in> set (sg_slots s). \<forall>b \<in> set (sg_slots s).
        a \<noteq> b \<longrightarrow> \<not> delegate_eq (sl_delegate (slot_at s a)) (sl_delegate (slot_at s b)))"

lemma slot_alive_id [simp]: "sl_flag sl \<Longrightarrow> slot_alive sl = (True, sl)"
  by (simp add: slot_alive_def)

text \<open>On live slots \<^verbatim>\<open>detach\<close> kills and removes the first match, or does nothing.\<close>

lemma detach_first_ok:
  assumes "attached_ok h as"
  shows "detach_first p h as =
    (case find (\<lambda>a. p (h ! a)) as of
       None \<Rightarrow> (False, h, as)
     | Some a \<Rightarrow> (True, h[a := slot_kill (h ! a)], remove1 a as))"
  using assms
proof (induction as)
  case (Cons a as)
  then have ok: "attached_ok h as" and fl: "sl_flag (h ! a)" and "a \<notin> set as"
    by (auto simp: attached_ok_def)
  have "find (\<lambda>a. p (h ! a)) as = Some b \<Longrightarrow> b \<in> set as" for b
    by (auto simp: find_Some_iff)
  then show ?case
    using Cons.IH [OF ok] fl \<open>a \<notin> set as\<close> by (auto split: option.splits)
qed simp

definition kill_where :: "(slot \<Rightarrow> bool) \<Rightarrow> nat list \<Rightarrow> slot list \<Rightarrow> slot list" where
  "kill_where p as h =
     map (\<lambda>i. if i \<in> set as \<and> p (h ! i) then slot_kill (h ! i) else h ! i) [0..<length h]"

lemma kill_where_simps [simp]:
  "length (kill_where p as h) = length h"
  "i < length h \<Longrightarrow>
    kill_where p as h ! i = (if i \<in> set as \<and> p (h ! i) then slot_kill (h ! i) else h ! i)"
  by (simp_all add: kill_where_def)

lemma detach_all_ok:
  "attached_ok h as \<Longrightarrow>
   detach_all p h as = (kill_where p as h, filter (\<lambda>a. \<not> p (h ! a)) as)"
proof (induction as arbitrary: h)
  case Nil
  show ?case by (auto intro: nth_equalityI)
next
  case (Cons a as)
  then have fl: "sl_flag (h ! a)" and na: "a \<notin> set as" and al: "a < length h"
    by (auto simp: attached_ok_def)
  show ?case
  proof (cases "p (h ! a)")
    case True
    let ?h = "h[a := slot_kill (h ! a)]"
    have "attached_ok ?h as" using Cons.prems na by (auto simp: attached_ok_def nth_list_update)
    moreover have "kill_where p as ?h = kill_where p (a # as) h"
      using True na al by (auto intro!: nth_equalityI simp: nth_list_update)
    moreover have "filter (\<lambda>b. \<not> p (?h ! b)) as = filter (\<lambda>b. \<not> p (h ! b)) as"
      using na by (intro filter_cong refl) (metis nth_list_update_neq)
    ultimately show ?thesis
      using Cons.IH [of ?h] True fl by simp
  next
    case False
    have "attached_ok h as" using Cons.prems by (auto simp: attached_ok_def)
    moreover have "kill_where p as h = kill_where p (a # as) h"
      using False by (auto intro!: nth_equalityI)
    ultimately show ?thesis
      using Cons.IH [of h] False fl by simp
  qed
qed

lemma sorted_wrt_remove1: "sorted_wrt P xs \<Longrightarrow> sorted_wrt P (remove1 x xs)"
  by (induction xs) (auto dest: notin_set_remove1 [THEN contrapos_pp] set_remove1_subset [THEN subsetD])

subsection \<open>Detaching keeps a signal well formed\<close>

text \<open>Killing slots and dropping them from the list, with everything else kept.\<close>

lemma signal_ok_kill:
  assumes "signal_ok s" and "length h = length (sg_heap s)"
    and "set as \<subseteq> set (sg_slots s)" and "distinct as"
    and "\<And>P. sorted_wrt P (sg_slots s) \<Longrightarrow> sorted_wrt P as"
    and "\<And>a. a \<in> set as \<Longrightarrow> h ! a = slot_at s a"
  shows "signal_ok (s\<lparr>sg_heap := h, sg_slots := as\<rparr>)"
proof -
  have same: "\<forall>a \<in> set as. h ! a = slot_at s a" using assms(6) by blast
  have "sorted_wrt (\<lambda>a b. sl_priority (slot_at s b) \<le> sl_priority (slot_at s a)) as"
    using assms(1,5) by (auto simp: signal_ok_def)
  then have "sorted_wrt (\<lambda>a b. sl_priority (h ! b) \<le> sl_priority (h ! a)) as"
    using same by (auto intro: sorted_wrt_mono_rel [rotated])
  then show ?thesis
    using assms(1-4) same by (auto simp: signal_ok_def attached_ok_def) (meson subsetD)
qed

lemma detach_where_ok:
  assumes "signal_ok s"
  shows "signal_ok (snd (sg_detach_where p s))"
    and "fst (sg_detach_where p s) \<longleftrightarrow> (\<exists>a \<in> set (sg_slots s). p (slot_at s a))"
proof -
  have ok: "attached_ok (sg_heap s) (sg_slots s)" using assms by (simp add: signal_ok_def)
  have mem: "find (\<lambda>a. p (slot_at s a)) (sg_slots s) = Some a \<Longrightarrow> a \<in> set (sg_slots s)" for a
    by (auto simp: find_Some_iff)
  show "signal_ok (snd (sg_detach_where p s))"
  proof (cases "find (\<lambda>a. p (slot_at s a)) (sg_slots s)")
    case None
    then show ?thesis using assms detach_first_ok [OF ok, of p] by (simp add: sg_detach_where_def)
  next
    case (Some a)
    have "signal_ok (s\<lparr>sg_heap := (sg_heap s)[a := slot_kill (slot_at s a)],
                        sg_slots := remove1 a (sg_slots s)\<rparr>)"
      by (rule signal_ok_kill [OF assms])
        (use ok in \<open>auto simp: attached_ok_def sorted_wrt_remove1 nth_list_update
          dest: set_remove1_subset [THEN subsetD]\<close>)
    then show ?thesis using Some detach_first_ok [OF ok, of p] by (simp add: sg_detach_where_def)
  qed
  show "fst (sg_detach_where p s) \<longleftrightarrow> (\<exists>a \<in> set (sg_slots s). p (slot_at s a))"
    using detach_first_ok [OF ok, of p]
    by (auto simp: sg_detach_where_def find_None_iff find_Some_iff split: option.splits dest: mem)
qed

lemma detach_instance_ok:
  assumes "signal_ok s"
  shows "signal_ok (snd (sg_detach_instance s i))"
proof -
  have ok: "attached_ok (sg_heap s) (sg_slots s)" using assms by (simp add: signal_ok_def)
  let ?p = "\<lambda>sl. sl_instance sl = i"
  have "signal_ok (s\<lparr>sg_heap := kill_where ?p (sg_slots s) (sg_heap s),
                      sg_slots := filter (\<lambda>a. \<not> ?p (slot_at s a)) (sg_slots s)\<rparr>)"
    by (rule signal_ok_kill [OF assms]) (use ok in \<open>auto simp: attached_ok_def sorted_wrt_filter\<close>)
  then show ?thesis by (simp add: sg_detach_instance_def detach_all_ok [OF ok])
qed

lemma detachAll_ok: "signal_ok (sg_detachAll s)"
  by (simp add: sg_detachAll_def signal_ok_def attached_ok_def)

lemma delegate_eq_sym: "delegate_eq d e \<Longrightarrow> delegate_eq e d"
  by (cases d; cases e) auto

lemma delegate_eq_trans: "delegate_eq d e \<Longrightarrow> delegate_eq e f \<Longrightarrow> delegate_eq d f"
  by (cases d; cases e; cases f) auto

text \<open>At most one attached slot matches a delegate, so its removal removes all matches.\<close>

lemma detach_slot_spec:
  fixes d :: delegate
  assumes "signal_ok s"
  defines "s1 \<equiv> snd (sg_detach_slot s d)"
  shows "length (sg_heap s1) = length (sg_heap s)" and "sg_lastId s1 = sg_lastId s"
    and "sg_slots s1 = filter (\<lambda>b. \<not> delegate_eq (sl_delegate (slot_at s b)) d) (sg_slots s)"
    and "b \<notin> set (sg_slots s) \<or> b \<in> set (sg_slots s1) \<Longrightarrow> slot_at s1 b = slot_at s b"
proof -
  let ?p = "\<lambda>sl. delegate_eq (sl_delegate sl) d"
  have ok: "attached_ok (sg_heap s) (sg_slots s)" using assms by (simp add: signal_ok_def)
  have eq: "s1 = snd (sg_detach_where ?p s)" by (simp add: s1_def sg_detach_slot_def)
  have "length (sg_heap s1) = length (sg_heap s) \<and> sg_lastId s1 = sg_lastId s \<and>
    sg_slots s1 = filter (\<lambda>b. \<not> ?p (slot_at s b)) (sg_slots s) \<and>
    (\<forall>b. b \<notin> set (sg_slots s) \<or> b \<in> set (sg_slots s1) \<longrightarrow> slot_at s1 b = slot_at s b)"
  proof (cases "find (\<lambda>a. ?p (slot_at s a)) (sg_slots s)")
    case None
    then have "filter (\<lambda>b. \<not> ?p (slot_at s b)) (sg_slots s) = sg_slots s"
      by (auto simp: find_None_iff filter_id_conv)
    with None show ?thesis using detach_first_ok [OF ok, of ?p] by (simp add: eq sg_detach_where_def)
  next
    case (Some a)
    then have a: "a \<in> set (sg_slots s)" "?p (slot_at s a)" by (auto simp: find_Some_iff)
    have "?p (slot_at s b) \<longleftrightarrow> b = a" if "b \<in> set (sg_slots s)" for b
      using that a assms(1) delegate_eq_sym delegate_eq_trans unfolding signal_ok_def by metis
    then have "filter (\<lambda>b. \<not> ?p (slot_at s b)) (sg_slots s) = remove1 a (sg_slots s)"
      using ok by (auto simp: attached_ok_def distinct_remove1_removeAll removeAll_filter_not_eq
          intro!: filter_cong)
    with Some a show ?thesis using detach_first_ok [OF ok, of ?p] ok
      by (auto simp: eq sg_detach_where_def attached_ok_def nth_list_update)
  qed
  then show "length (sg_heap s1) = length (sg_heap s)" and "sg_lastId s1 = sg_lastId s"
    and "sg_slots s1 = filter (\<lambda>b. \<not> ?p (slot_at s b)) (sg_slots s)"
    and "b \<notin> set (sg_slots s) \<or> b \<in> set (sg_slots s1) \<Longrightarrow> slot_at s1 b = slot_at s b"
    by blast+
qed

subsection \<open>Sorting\<close>

locale slot_sorter =
  fixes srt :: sorter
  assumes srt_perm: "mset (srt f xs) = mset xs"
    and srt_sorted: "sorted_wrt (\<lambda>a b. f b \<le> f a) (srt f xs)"
begin

lemma srt_set: "set (srt f xs) = set xs"
  using srt_perm mset_eq_setD by blast

lemma srt_distinct: "distinct xs \<Longrightarrow> distinct (srt f xs)"
  using srt_perm mset_eq_imp_distinct_iff by blast

lemma attach_ok:
  assumes ok: "signal_ok s" and a: "a < length (sg_heap s)" "a \<notin> set (sg_slots s)"
    and fl: "sl_flag (slot_at s a)"
  shows "signal_ok (snd (sg_attach srt s a))"
proof -
  let ?d = "sl_delegate (slot_at s a)"
  define s1 where "s1 = snd (sg_detach_slot s ?d)"
  note spec = detach_slot_spec [OF ok, where d = ?d, folded s1_def]
  have ok1: "signal_ok s1" using detach_where_ok(1) [OF ok] by (simp add: s1_def sg_detach_slot_def)
  have a1: "a < length (sg_heap s1)" "a \<notin> set (sg_slots s1)" "slot_at s1 a = slot_at s a"
    using spec a by auto
  define s2 where "s2 = (if sl_id (slot_at s1 a) = -1
      then s1\<lparr>sg_lastId := sg_lastId s1 + 1,
              sg_heap := (sg_heap s1)[a := (slot_at s1 a)\<lparr>sl_id := sg_lastId s1 + 1\<rparr>]\<rparr> else s1)"
  have s2: "sg_slots s2 = sg_slots s1" "length (sg_heap s2) = length (sg_heap s1)"
    "\<And>b. b \<noteq> a \<Longrightarrow> slot_at s2 b = slot_at s1 b" "sl_delegate (slot_at s2 a) = ?d" "sl_flag (slot_at s2 a)"
    using a1 fl by (auto simp: s2_def)
  have ne: "\<not> delegate_eq (sl_delegate (slot_at s1 b)) ?d" if "b \<in> set (sg_slots s1)" for b
    using that spec(3,4) by auto
  have old: "\<forall>b \<in> set (sg_slots s1). b \<noteq> a \<and> slot_at s2 b = slot_at s1 b"
    using a1(2) s2(3) by metis
  let ?f = "\<lambda>b. sl_priority (slot_at s2 b)"
  have res: "snd (sg_attach srt s a) = s2\<lparr>sg_slots := srt ?f (sg_slots s1 @ [a])\<rparr>"
    using s2(1) by (simp add: sg_attach_def Let_def s1_def [symmetric] s2_def [symmetric])
  have "attached_ok (sg_heap s2) (srt ?f (sg_slots s1 @ [a]))"
    using ok1 a1 s2 old by (auto simp: attached_ok_def srt_set signal_ok_def intro!: srt_distinct)
  moreover have "\<not> delegate_eq (sl_delegate (slot_at s2 b)) (sl_delegate (slot_at s2 c))"
    if "b \<in> set (sg_slots s1 @ [a])" "c \<in> set (sg_slots s1 @ [a])" "b \<noteq> c" for b c
  proof (cases "b = a \<or> c = a")
    case True
    then show ?thesis using that s2(4) old ne by (auto dest: delegate_eq_sym)
  next
    case False
    then show ?thesis using that ok1 old by (simp add: signal_ok_def)
  qed
  ultimately show ?thesis
    unfolding res signal_ok_def using srt_sorted [of ?f] by (auto simp: srt_set)
qed

lemma connect_ok: "signal_ok s \<Longrightarrow> sl_flag sl \<Longrightarrow> signal_ok (snd (sg_connect srt s sl))"
  unfolding sg_connect_def sg_make_def Let_def prod.case
  by (rule attach_ok) (auto simp: signal_ok_def attached_ok_def nth_append elim!: sorted_wrt_mono_rel [rotated])

end

interpretation std_sort: slot_sorter "\<lambda>f xs. sort_key (\<lambda>a. - f a) xs"
proof
  fix f :: "nat \<Rightarrow> int" and xs :: "nat list"
  show "mset (sort_key (\<lambda>a. - f a) xs) = mset xs" by simp
  have "sorted (map (\<lambda>a. - f a) (sort_key (\<lambda>a. - f a) xs))" by simp
  then show "sorted_wrt (\<lambda>a b. f b \<le> f a) (sort_key (\<lambda>a. - f a) xs)"
    by (simp add: sorted_map)
qed

subsection \<open>Emission\<close>

text \<open>
  What the program and the callbacks may do to a signal. An emission comes with what its callbacks
  do: the \<open>k\<close>-th callback that runs performs the actions of the \<open>k\<close>-th entry, emissions of the same
  signal among them, and throws \<^verbatim>\<open>StopPropagation\<close> if the entry says so; callbacks without an entry
  leave the signal alone. Every emission that returns is of this form, whatever its callbacks
  depend on.
\<close>

datatype sig_op =
    Connect delegate "nat option" int int
  | DetachId int
  | DetachSlot delegate
  | DetachInstance "nat option"
  | DetachAll
  | Emit "(sig_op list \<times> bool) list"

type_synonym script = "((signal \<Rightarrow> signal) list \<times> bool) list"

definition play :: "delegate \<Rightarrow> signal \<Rightarrow> script \<Rightarrow> bool \<times> signal \<times> script" where
  "play d s w = (case w of [] \<Rightarrow> (False, s, []) | (acts, stop) # rest \<Rightarrow> (stop, fold (\<lambda>f. f) acts s, rest))"

primrec run_op :: "sorter \<Rightarrow> sig_op \<Rightarrow> signal \<Rightarrow> signal" where
  "run_op srt (Connect d inst i prio) = (\<lambda>s. snd (sg_connect srt s (new_slot d inst i prio)))"
| "run_op srt (DetachId i) = (\<lambda>s. snd (sg_detach_id s i))"
| "run_op srt (DetachSlot d) = (\<lambda>s. snd (sg_detach_slot s d))"
| "run_op srt (DetachInstance i) = (\<lambda>s. snd (sg_detach_instance s i))"
| "run_op srt DetachAll = sg_detachAll"
| "run_op srt (Emit calls) = (\<lambda>s. fst (sg_emit play s (map (map_prod (map (run_op srt)) id) calls)))"

lemma visit_ok:
  assumes "signal_ok s"
  shows "signal_ok (s\<lparr>sg_heap := (sg_heap s)[a := snd (slot_alive (slot_at s a))]\<rparr>)"
proof (cases "a \<in> set (sg_slots s)")
  case True
  with assms have "slot_alive (slot_at s a) = (True, slot_at s a)"
    by (auto simp: signal_ok_def attached_ok_def)
  with assms show ?thesis by simp
next
  case False
  let ?h = "(sg_heap s)[a := snd (slot_alive (slot_at s a))]"
  have "signal_ok (s\<lparr>sg_heap := ?h, sg_slots := sg_slots s\<rparr>)"
  proof (rule signal_ok_kill [OF assms])
    show "b \<in> set (sg_slots s) \<Longrightarrow> ?h ! b = slot_at s b" for b
      using False by (metis nth_list_update_neq)
  qed (use assms in \<open>auto simp: signal_ok_def attached_ok_def\<close>)
  then show ?thesis by simp
qed

text \<open>An emission whose callbacks play a script of actions that keep the signal well formed.\<close>

lemma fold_apply_ok: "(\<And>f s. f \<in> set fs \<Longrightarrow> signal_ok s \<Longrightarrow> signal_ok (f s)) \<Longrightarrow> signal_ok s \<Longrightarrow> signal_ok (fold (\<lambda>f. f) fs s)"
  by (induction fs arbitrary: s) auto

lemma play_ok:
  assumes "\<And>acts stop f s. (acts, stop) \<in> set w \<Longrightarrow> f \<in> set acts \<Longrightarrow> signal_ok s \<Longrightarrow> signal_ok (f s)" "signal_ok s"
  shows "signal_ok (fst (emit_loop play as s w))"
  using assms
proof (induction as arbitrary: s w)
  case (Cons a as)
  let ?s = "s\<lparr>sg_heap := (sg_heap s)[a := snd (slot_alive (slot_at s a))]\<rparr>"
  have s: "signal_ok ?s" by (rule visit_ok [OF Cons.prems(2)])
  show ?case
  proof (cases "w = [] \<or> \<not> fst (slot_alive (slot_at s a))")
    case True
    then show ?thesis using Cons.IH [of w ?s] Cons.prems(1) s by (auto simp: play_def Let_def split_beta)
  next
    case False
    then obtain acts stop rest where w: "w = (acts, stop) # rest" by (cases w) auto
    have "signal_ok (fold (\<lambda>f. f) acts ?s)" using Cons.prems(1) s w by (intro fold_apply_ok) auto
    then show ?thesis using Cons.IH [of rest "fold (\<lambda>f. f) acts ?s"] Cons.prems(1) False w
      by (auto simp: play_def Let_def split_beta)
  qed
qed simp

context slot_sorter
begin

lemma run_op_ok: "signal_ok s \<Longrightarrow> signal_ok (run_op srt p s)"
proof (induction p arbitrary: s)
  case (Emit calls)
  show ?case using Emit.prems Emit.IH
    by (auto simp: sg_emit_def intro!: play_ok)
qed (auto simp: connect_ok new_slot_def sg_detach_id_def sg_detach_slot_def detach_where_ok
      detach_instance_ok detachAll_ok)

lemma fold_ops_ok: "signal_ok s \<Longrightarrow> signal_ok (fold (run_op srt) ps s)"
  by (induction ps arbitrary: s) (simp_all add: run_op_ok)

end

lemma new_signal_ok: "signal_ok new_signal"
  by (simp add: new_signal_def signal_ok_def attached_ok_def)

text \<open>Callbacks that record the delegate and leave the signal alone, or all but one of which do.\<close>

lemma emit_loop_live:
  assumes "attached_ok (sg_heap s) as"
  shows "emit_loop (\<lambda>d s w. (False, s, f d w)) as s w = (s, fold f (map (\<lambda>a. sl_delegate (slot_at s a)) as) w)"
  using assms by (induction as arbitrary: w) (auto simp: attached_ok_def)

definition logging :: "delegate \<Rightarrow> (signal \<Rightarrow> signal) \<Rightarrow> delegate \<Rightarrow> signal \<Rightarrow> delegate list \<Rightarrow> bool \<times> signal \<times> delegate list" where
  "logging d0 g d s w = (False, if d = d0 then g s else s, w @ [d])"

lemma emit_loop_prefix:
  assumes "attached_ok (sg_heap s) as" and "\<forall>a \<in> set as. sl_delegate (slot_at s a) \<noteq> d0"
  shows "emit_loop (logging d0 g) (as @ bs) s w =
         emit_loop (logging d0 g) bs s (w @ map (\<lambda>a. sl_delegate (slot_at s a)) as)"
  using assms by (induction as arbitrary: w) (auto simp: attached_ok_def logging_def)

lemma emit_loop_log:
  assumes "distinct as" and "\<forall>a \<in> set as. a < length (sg_heap s) \<and> sl_delegate (slot_at s a) \<noteq> d0"
  shows "snd (emit_loop (logging d0 g) as s w) =
    w @ map (\<lambda>a. sl_delegate (slot_at s a)) (filter (\<lambda>a. sl_flag (slot_at s a)) as)"
  using assms
proof (induction as arbitrary: s w)
  case (Cons a as)
  let ?s = "s\<lparr>sg_heap := (sg_heap s)[a := (slot_at s a)\<lparr>sl_flag := True\<rparr>]\<rparr>"
  have same: "\<forall>b \<in> set as. slot_at ?s b = slot_at s b"
    using Cons.prems(1) by (auto simp: nth_list_update_neq) (metis nth_list_update_neq)
  have ih: "snd (emit_loop (logging d0 g) as ?s v) =
      v @ map (\<lambda>b. sl_delegate (slot_at s b)) (filter (\<lambda>b. sl_flag (slot_at s b)) as)" for v
    using Cons.IH [of ?s v] Cons.prems same by (auto cong: filter_cong map_cong)
  show ?case using ih Cons.prems by (simp add: slot_alive_def logging_def [of d0 g "sl_delegate (slot_at s a)"])
qed simp

subsection \<open>Properties\<close>

text \<open>
  C9 (invariant). Whatever sequence of connections of new slots, disconnections (by id, by delegate, by
  instance, or of everything) and emissions a signal goes through, where the callbacks of an
  emission may do all of these in turn, nested emissions of the same signal included, and
  whichever way the sorting function orders slots of equal priority: the attached slots are
  pairwise distinct and alive, they are ordered by descending priority, and the same member
  function of the same object is never attached twice. (Attaching a slot that is attached already
  breaks this: \<open>reattached_slot_dead\<close>.)
\<close>

theorem signal_invariant:
  assumes "slot_sorter srt"
  shows "signal_ok (fold (run_op srt) ps new_signal)"
  using assms new_signal_ok by (rule slot_sorter.fold_ops_ok)

definition sample_signal :: signal where
  "sample_signal =
     fold (run_op (\<lambda>f xs. sort_key (\<lambda>a. - f a) xs))
       [Connect (ClassDelegate 1 1) (Some 1) (-1) 0, Connect (ClassDelegate 2 1) (Some 2) (-1) 5,
        Connect (ClassDelegate 3 1) (Some 3) (-1) 0, Connect (ClassDelegate 1 1) (Some 1) (-1) 9]
       new_signal"

lemma sample_signal_ok: "signal_ok sample_signal"
  unfolding sample_signal_def by (rule std_sort.fold_ops_ok [OF new_signal_ok])

text \<open>The second callback of an emission connects a slot and emits again; within that a callback detaches an object.\<close>

definition nested_ops :: "sig_op list" where
  "nested_ops =
     [Connect (ClassDelegate 1 1) (Some 1) (-1) 0, Connect (ClassDelegate 2 1) (Some 2) (-1) 5,
      Emit [([], False), ([Connect (ClassDelegate 3 1) (Some 3) (-1) 7, Emit [([DetachInstance (Some 2)], False), ([], True)]], False)]]"

lemma sample_signal_eq:
  "sample_signal =
    \<lparr>sg_heap = [(new_slot (ClassDelegate 1 1) (Some 1) 1 0)\<lparr>sl_flag := False\<rparr>,
                new_slot (ClassDelegate 2 1) (Some 2) 2 5, new_slot (ClassDelegate 3 1) (Some 3) 3 0,
                new_slot (ClassDelegate 1 1) (Some 1) 4 9],
     sg_slots = [3, 1, 2], sg_lastId = 4\<rparr>"
  by code_simp

theorem signal_invariant_witness:
  "signal_ok (fold (run_op (\<lambda>f xs. sort_key (\<lambda>a. - f a) xs)) nested_ops new_signal) \<and>
   sg_slots (fold (run_op (\<lambda>f xs. sort_key (\<lambda>a. - f a) xs)) nested_ops new_signal) = [2, 0]"
proof
  show "signal_ok (fold (run_op (\<lambda>f xs. sort_key (\<lambda>a. - f a) xs)) nested_ops new_signal)"
    by (rule signal_invariant [OF std_sort.slot_sorter_axioms])
  show "sg_slots (fold (run_op (\<lambda>f xs. sort_key (\<lambda>a. - f a) xs)) nested_ops new_signal) = [2, 0]" by code_simp
qed

text \<open>
  \<^verbatim>\<open>attach\<close> clears duplicates by detaching the slot first. For a slot that is attached already this
  kills the slot itself, which is then attached dead: the next emission skips it.
\<close>

lemma reattached_slot_dead:
  "sg_slots (snd (sg_attach (\<lambda>f xs. sort_key (\<lambda>a. - f a) xs) sample_signal 1)) = [3, 1, 2]"
  "\<not> sl_flag (slot_at (snd (sg_attach (\<lambda>f xs. sort_key (\<lambda>a. - f a) xs) sample_signal 1)) 1)"
  "snd (sg_emit (\<lambda>d s w. (False, s, w @ [d])) (snd (sg_attach (\<lambda>f xs. sort_key (\<lambda>a. - f a) xs) sample_signal 1)) []) =
     [ClassDelegate 1 1, ClassDelegate 3 1]"
  by code_simp+

text \<open>
  Emitting a signal whose callbacks leave it alone calls every attached slot
  exactly once, in the order of the slot list, and leaves the signal as it was.
\<close>

theorem emit_calls_each_once:
  assumes "signal_ok s"
  shows "sg_emit (\<lambda>d s w. (False, s, f d w)) s w =
         (s, fold f (map (\<lambda>a. sl_delegate (slot_at s a)) (sg_slots s)) w)"
  using assms emit_loop_live [of s "sg_slots s" f w] by (simp add: sg_emit_def signal_ok_def)

theorem emit_calls_each_once_witness:
  "sg_emit (\<lambda>d s w. (False, s, w @ [d])) sample_signal [] =
   (sample_signal, [ClassDelegate 1 1, ClassDelegate 2 1, ClassDelegate 3 1])"
  using emit_calls_each_once [of sample_signal "\<lambda>d w. w @ [d]" "[]"]
    sample_signal_ok by (simp add: sample_signal_eq new_slot_def)

text \<open>
  A callback may detach an object while the signal is being emitted: when the
  callback of one slot detaches every slot of an instance, the slots after it are still called in
  order, except those of the detached instance, none of which is called any more.
\<close>

theorem emit_skips_detached:
  assumes ok: "signal_ok s" and slots: "sg_slots s = as @ a # bs"
    and d0: "sl_delegate (slot_at s a) = d0"
    and other: "\<forall>b \<in> set (as @ bs). sl_delegate (slot_at s b) \<noteq> d0"
  shows "snd (sg_emit (logging d0 (\<lambda>s. snd (sg_detach_instance s i))) s []) =
         map (\<lambda>b. sl_delegate (slot_at s b))
           (as @ a # filter (\<lambda>b. sl_instance (slot_at s b) \<noteq> i) bs)"
proof -
  let ?p = "\<lambda>sl. sl_instance sl = i" and ?g = "\<lambda>s. snd (sg_detach_instance s i)"
  have att: "attached_ok (sg_heap s) (as @ a # bs)" using ok slots by (simp add: signal_ok_def)
  then have live: "\<forall>b \<in> set (as @ a # bs). b < length (sg_heap s) \<and> sl_flag (slot_at s b)"
    and dist: "distinct (as @ a # bs)" by (auto simp: attached_ok_def)
  let ?s = "?g s"
  have heap: "sg_heap ?s = kill_where ?p (as @ a # bs) (sg_heap s)"
    using detach_all_ok [OF att, of ?p] by (simp add: sg_detach_instance_def slots)
  have after: "\<forall>b \<in> set bs. slot_at ?s b = (if ?p (slot_at s b) then slot_kill (slot_at s b) else slot_at s b)"
    using live by (simp add: heap)
  have "snd (emit_loop (logging d0 ?g) bs ?s w) =
      w @ map (\<lambda>b. sl_delegate (slot_at ?s b)) (filter (\<lambda>b. sl_flag (slot_at ?s b)) bs)" for w
    using dist live other after by (intro emit_loop_log) (auto simp: heap slot_kill_def)
  moreover have "map (\<lambda>b. sl_delegate (slot_at ?s b)) (filter (\<lambda>b. sl_flag (slot_at ?s b)) bs) =
      map (\<lambda>b. sl_delegate (slot_at s b)) (filter (\<lambda>b. \<not> ?p (slot_at s b)) bs)"
    using after live by (auto simp: slot_kill_def intro!: map_cong filter_cong)
  moreover have "sg_emit (logging d0 ?g) s [] =
      emit_loop (logging d0 ?g) (a # bs) s (map (\<lambda>a. sl_delegate (slot_at s a)) as)"
    using emit_loop_prefix [of s as d0 ?g "a # bs" "[]"] att other
    by (simp add: sg_emit_def slots attached_ok_def)
  ultimately show ?thesis using live d0 by (simp add: logging_def [of d0 ?g d0])
qed

theorem emit_skips_detached_witness:
  "snd (sg_emit (logging (ClassDelegate 1 1) (\<lambda>s. snd (sg_detach_instance s (Some 2)))) sample_signal []) =
   [ClassDelegate 1 1, ClassDelegate 3 1]"
  using emit_skips_detached [of sample_signal "[]" 3 "[1, 2]" "ClassDelegate 1 1" "Some 2"]
    sample_signal_ok
  by (simp add: sample_signal_eq new_slot_def)

definition nested_call :: "delegate \<Rightarrow> signal \<Rightarrow> delegate list \<Rightarrow> bool \<times> signal \<times> delegate list" where
  "nested_call d s w =
     (if d = ClassDelegate 1 1
      then let (s, w) = sg_emit (logging d (\<lambda>s. snd (sg_detach_slot s (ClassDelegate 2 1)))) s (w @ [d])
           in (False, s, w)
      else (False, s, w @ [d]))"

definition two_slots :: signal where
  "two_slots = fold (run_op (\<lambda>f xs. sort_key (\<lambda>a. - f a) xs))
     [Connect (ClassDelegate 1 1) (Some 1) (-1) 1, Connect (ClassDelegate 2 1) (Some 2) (-1) 0] new_signal"

text \<open>
  A detached slot can still be called. \<^verbatim>\<open>Slot::alive\<close> sets the flag it tests,
  so a killed slot is refused once and accepted afterwards. Here the first slot of a signal emits
  the signal again, and within the inner emission the first slot detaches the second one: the
  inner emission skips the second slot, and the outer emission then calls it although it is no
  longer attached.
\<close>

theorem detached_slot_called:
  "sg_slots (fst (sg_emit nested_call two_slots [])) = [0] \<and>
   snd (sg_emit nested_call two_slots []) = [ClassDelegate 1 1, ClassDelegate 1 1, ClassDelegate 2 1]"
  by code_simp

end
