(* ===== verification/Stream_Coder.thy ===== *)
theory Stream_Coder
  imports Scy_Prelude
begin

text \<open>
  \<^verbatim>\<open>basic::Encoder\<close> and \<^verbatim>\<open>basic::Decoder\<close> of \<^verbatim>\<open>src/base/include/scy/interface.h\<close>: a coder
  keeps a state between calls, and each call turns a block of input into output.

  The locale states what makes such a coder usable on a stream: splitting the input into blocks
  makes no difference. \<open>run_blocks\<close> is the reading loop of the \<^verbatim>\<open>istream\<close> overloads, which
  read up to \<open>N\<close> characters at a time until a read comes back short; \<open>fits\<close> is the test that a
  call stays within the buffers it was given.
\<close>

type_synonym 's coder = "'s \<Rightarrow> bytes \<Rightarrow> bytes \<times> 's"

function run_blocks ::
    "'s coder \<Rightarrow> (nat \<Rightarrow> bytes \<Rightarrow> bool) \<Rightarrow> nat \<Rightarrow> 's \<Rightarrow> bytes \<Rightarrow> (bytes \<times> 's) result" where
  "run_blocks code fits N st input =
     (if fits (length (take N input)) (fst (code st (take N input))) then
        (if length (take N input) = N \<and> 0 < N
         then (case run_blocks code fits N (snd (code st (take N input))) (drop N input) of
                 Inl e \<Rightarrow> Inl e
               | Inr (rest, st') \<Rightarrow> Inr (fst (code st (take N input)) @ rest, st'))
         else Inr (code st (take N input)))
      else Inl Undefined)"
  by pat_completeness auto
termination
  by (relation "measure (\<lambda>(code, fits, N, st, input). length input)") auto

declare run_blocks.simps [simp del]

locale stream_coder =
  fixes code :: "'s coder"
  assumes code_Nil: "code st [] = ([], st)"
    and code_append: "code st (xs @ ys) =
      (fst (code st xs) @ fst (code (snd (code st xs)) ys), snd (code (snd (code st xs)) ys))"
begin

lemma run_blocks_eq:
  assumes "0 < N" and "\<And>st block. length block \<le> N \<Longrightarrow> fits (length block) (fst (code st block))"
  shows "run_blocks code fits N st input = Inr (code st input)"
proof (induction input arbitrary: st rule: length_induct)
  case (1 input)
  let ?b = "take N input"
  have fit: "fits (length ?b) (fst (code st ?b))" by (rule assms(2)) simp
  show ?case
  proof (cases "length ?b = N")
    case True
    have "run_blocks code fits N (snd (code st ?b)) (drop N input) =
        Inr (code (snd (code st ?b)) (drop N input))"
      using 1 True assms(1) by simp
    then show ?thesis
      using True assms(1) fit code_append [of st ?b "drop N input"]
      by (subst run_blocks.simps) (simp add: split_beta Let_def)
  next
    case False
    then have "?b = input" by simp
    then show ?thesis using False fit
      by (subst run_blocks.simps) (simp add: split_beta Let_def)
  qed
qed

end

end
