(* ===== verification/Hex.thy ===== *)
theory Hex
  imports Stream_Coder Byte_Order Text_Util
begin

text \<open>
  \<^verbatim>\<open>src/base/include/scy/hex.h\<close>: the hexadecimal encoder and decoder.

  The decoder assembles a byte in an \<^verbatim>\<open>int\<close> and copies the first byte of that \<^verbatim>\<open>int\<close> in
  memory to the output, so its result depends on the byte order of the host, which is an argument
  as in \<open>Byte_Order\<close>.
\<close>

subsection \<open>Encoder\<close>

record hex_encoder =
  he_linePos :: int
  he_lineLength :: int
  he_uppercase :: nat

definition new_hex_encoder :: hex_encoder where
  "new_hex_encoder = \<lparr>he_linePos = 0, he_lineLength = 72, he_uppercase = 0\<rparr>"

definition hex_setUppercase :: "hex_encoder \<Rightarrow> bool \<Rightarrow> hex_encoder" where
  "hex_setUppercase e flag = e\<lparr>he_uppercase := (if flag then 16 else 0)\<rparr>"

definition hex_setLineLength :: "hex_encoder \<Rightarrow> int \<Rightarrow> hex_encoder" where
  "hex_setLineLength e n = e\<lparr>he_lineLength := n\<rparr>"

definition hex_digits :: bytes where
  "hex_digits = bytes_of_text ''0123456789abcdef0123456789ABCDEF''"

fun hex_encode_block :: "hex_encoder \<Rightarrow> bytes \<Rightarrow> bytes \<times> hex_encoder" where
  "hex_encode_block e [] = ([], e)"
| "hex_encode_block e (c # cs) =
     (let hi = hex_digits ! (he_uppercase e + unat (drop_bit 4 c AND 0xF));
          lo = hex_digits ! (he_uppercase e + unat (c AND 0xF));
          (nl, e) = (if he_lineLength e > 0 then
                       (if he_linePos e + 2 \<ge> he_lineLength e then ([10], e\<lparr>he_linePos := 0\<rparr>)
                        else ([], e\<lparr>he_linePos := he_linePos e + 2\<rparr>))
                     else ([], e));
          (rest, e) = hex_encode_block e cs
      in ([hi, lo] @ nl @ rest, e))"

text \<open>\<^verbatim>\<open>hex::encode\<close>: lower case, no line feeds.\<close>

definition hex_encode :: "bytes \<Rightarrow> bytes" where
  "hex_encode bs =
     concat (map (\<lambda>c. [hex_digits ! unat (drop_bit 4 c AND 0xF), hex_digits ! unat (c AND 0xF)]) bs)"

subsection \<open>Decoder\<close>

text \<open>The state of a decoder is \<^verbatim>\<open>lastbyte\<close>, 0 when there is none.\<close>

definition iswspace :: "u8 \<Rightarrow> bool" where
  "iswspace c \<longleftrightarrow> c = 32 \<or> c = 13 \<or> c = 9 \<or> c = 10"

definition nybble :: "u8 \<Rightarrow> u32 result" where
  "nybble n =
     (if 48 \<le> sint n \<and> sint n \<le> 57 then Inr (ucast n - 48)
      else if 65 \<le> sint n \<and> sint n \<le> 70 then Inr (ucast n - (65 - 10))
      else if 97 \<le> sint n \<and> sint n \<le> 102 then Inr (ucast n - (97 - 10))
      else Inl RuntimeError)"

text \<open>The inner loop of \<^verbatim>\<open>readnext\<close>: from \<open>c\<close>, read just before \<open>rpos\<close>, skip white space.\<close>

function skip_space :: "bytes \<Rightarrow> nat \<Rightarrow> u8 \<Rightarrow> u8 \<times> nat" where
  "skip_space inbuf rpos c =
     (if iswspace c \<and> rpos < length inbuf then skip_space inbuf (rpos + 1) (inbuf ! rpos) else (c, rpos))"
  by pat_completeness auto
termination
  by (relation "measure (\<lambda>(inbuf, rpos, c). length inbuf - rpos)") auto

declare skip_space.simps [simp del]

text \<open>
  \<^verbatim>\<open>readnext\<close> gives the character, the new position and the new \<^verbatim>\<open>lastbyte\<close>; it reads
  \<^verbatim>\<open>inbuf[rpos]\<close> without a check.
\<close>

definition readnext :: "bytes \<Rightarrow> u8 \<Rightarrow> nat \<Rightarrow> (u8 \<times> nat \<times> u8) result" where
  "readnext inbuf lastbyte rpos =
     (if rpos = 0 \<and> lastbyte \<noteq> 0 then assert_r (\<not> iswspace lastbyte) (Inr (lastbyte, rpos, 0))
      else if rpos < length inbuf then
        (let (c, rpos) = skip_space inbuf (rpos + 1) (inbuf ! rpos) in Inr (c, rpos, lastbyte))
      else Inl Undefined)"

lemma skip_space_bound: "rpos \<le> length inbuf \<Longrightarrow> snd (skip_space inbuf rpos c) \<le> length inbuf"
proof (induction inbuf rpos c rule: skip_space.induct)
  case (1 inbuf rpos c)
  then show ?case by (subst skip_space.simps) auto
qed

lemma skip_space_le: "rpos \<le> snd (skip_space inbuf rpos c)"
proof (induction inbuf rpos c rule: skip_space.induct)
  case (1 inbuf rpos c)
  then show ?case
    by (cases "iswspace c \<and> rpos < length inbuf") (auto simp: skip_space.simps [of inbuf rpos c])
qed

lemma readnext_progress:
  "readnext inbuf lb rpos = Inr (c, rpos', lb') \<Longrightarrow>
   rpos' \<le> length inbuf \<and> (rpos < rpos' \<and> lb' = lb \<or> rpos = 0 \<and> rpos' = 0 \<and> lb \<noteq> 0 \<and> lb' = 0)"
  using skip_space_bound [of "rpos + 1" inbuf "inbuf ! rpos"] skip_space_le [of "rpos + 1" inbuf "inbuf ! rpos"]
  by (auto simp: readnext_def assert_r_eq_Inr split_beta split: if_splits)

text \<open>
  The loop of \<^verbatim>\<open>decode\<close>. When the first read of a pair ends the input, the character is kept for
  the next call; after that read \<^verbatim>\<open>rpos\<close> is the length, so the second test always holds there.
\<close>

function hex_decode_loop ::
    "bool \<Rightarrow> bytes \<Rightarrow> u8 \<Rightarrow> nat \<Rightarrow> (bytes \<times> u8) result" where
  "hex_decode_loop be inbuf lastbyte rpos =
     (if rpos < length inbuf then
        (case readnext inbuf lastbyte rpos of
           Inl e \<Rightarrow> Inl e
         | Inr (c, rpos1, lastbyte1) \<Rightarrow>
             if rpos1 < length inbuf then
               bind_r (nybble c) (\<lambda>n.
                 (case readnext inbuf lastbyte1 rpos1 of
                    Inl e \<Rightarrow> Inl e
                  | Inr (c, rpos2, lastbyte2) \<Rightarrow>
                      bind_r (nybble c) (\<lambda>k.
                        bind_r (hex_decode_loop be inbuf lastbyte2 rpos2) (\<lambda>(rest, lb).
                          Inr (get8 (store32 be (push_bit 4 n OR k)) 0 # rest, lb)))))
             else Inr ([], if iswspace (inbuf ! (rpos1 - 1)) then lastbyte1 else inbuf ! (rpos1 - 1)))
      else Inr ([], lastbyte))"
  by pat_completeness auto
termination
  by (relation "measure (\<lambda>(be, inbuf, lastbyte, rpos). length inbuf - rpos)")
    (auto dest!: readnext_progress)

declare hex_decode_loop.simps [simp del]

definition hex_decode :: "bool \<Rightarrow> u8 \<Rightarrow> bytes \<Rightarrow> (bytes \<times> u8) result" where
  "hex_decode be lastbyte inbuf = hex_decode_loop be inbuf lastbyte 0"

subsection \<open>Digits\<close>

lemma hex_digits_codes:
  "hex_digits =
     [48, 49, 50, 51, 52, 53, 54, 55, 56, 57, 97, 98, 99, 100, 101, 102, 48, 49, 50, 51, 52, 53,
      54, 55, 56, 57, 65, 66, 67, 68, 69, 70]"
  by (simp add: hex_digits_def bytes_of_text_def)

lemma upt_16: "[0..<16] = [0, 1, 2, 3, 4, 5, 6, 7, 8, 9, 10, 11, 12, 13, 14, 15]"
  by (simp add: upt_rec)

lemma digit_table:
  "list_all (\<lambda>i. let c = hex_digits ! i; d = hex_digits ! (16 + i) in
     nybble c = Inr (word_of_nat i) \<and> nybble d = Inr (word_of_nat i) \<and> \<not> iswspace c \<and> \<not> iswspace d)
   [0..<16]"
  unfolding upt_16 by (simp add: hex_digits_codes nybble_def iswspace_def)

lemma and_F: "unat (c AND 0xF) < 16" for c :: u8
proof -
  have "c AND 0xF = take_bit 4 c" by (simp add: take_bit_eq_mask mask_eq_exp_minus_1)
  then show ?thesis by (simp only: unsigned_take_bit_eq) (simp add: take_bit_eq_mod)
qed

lemma digit_nybble:
  fixes c :: u8
  assumes "u = 0 \<or> u = 16"
  shows "nybble (hex_digits ! (u + unat (c AND 0xF))) = Inr (ucast (c AND 0xF))"
    and "\<not> iswspace (hex_digits ! (u + unat (c AND 0xF)))"
proof -
  have "unat (c AND 0xF) \<in> set [0..<16]" using and_F by simp
  then have "nybble (hex_digits ! (u + unat (c AND 0xF))) = Inr (word_of_nat (unat (c AND 0xF))) \<and>
      \<not> iswspace (hex_digits ! (u + unat (c AND 0xF)))"
    using digit_table assms unfolding list_all_iff Let_def by auto
  then show "nybble (hex_digits ! (u + unat (c AND 0xF))) = Inr (ucast (c AND 0xF))"
    and "\<not> iswspace (hex_digits ! (u + unat (c AND 0xF)))" by auto
qed

lemma byte_of_nybbles:
  fixes c :: u8
  shows "get8 (store32 False (push_bit 4 (ucast (drop_bit 4 c AND 0xF)) OR ucast (c AND 0xF))) 0 = c"
proof -
  have m: "(0xF :: u8) = mask 4" by (simp add: mask_eq_exp_minus_1)
  have "ucast (push_bit 4 (ucast (drop_bit 4 c AND 0xF)) OR ucast (c AND 0xF) :: u32) = c"
    unfolding m by (rule bit_word_eqI) (auto simp: bit_simps)
  then show ?thesis by (simp add: store32_def setLE32_def get8_def)
qed

subsection \<open>Encoding and decoding\<close>

lemma hex_encode_append:
  "hex_encode_block e (xs @ ys) =
   (fst (hex_encode_block e xs) @ fst (hex_encode_block (snd (hex_encode_block e xs)) ys),
    snd (hex_encode_block (snd (hex_encode_block e xs)) ys))"
  by (induction xs arbitrary: e) (simp_all add: split_beta Let_def)

interpretation hex_coder: stream_coder hex_encode_block
  by unfold_locales (simp_all add: hex_encode_append)

text \<open>Reading a digit with or without a line feed in front of it.\<close>

lemma readnext_digit:
  assumes "\<not> iswspace c"
  shows "readnext (pre @ c # post) 0 (length pre) = Inr (c, length pre + 1, 0)"
    and "readnext (pre @ 10 # c # post) 0 (length pre) = Inr (c, length pre + 2, 0)"
proof -
  have skip: "skip_space buf p c = (c, p)" for buf p
    using assms by (simp add: skip_space.simps)
  show "readnext (pre @ c # post) 0 (length pre) = Inr (c, length pre + 1, 0)"
    by (simp add: readnext_def skip)
  have "skip_space (pre @ 10 # c # post) (Suc (length pre)) 10 = (c, length pre + 2)"
    by (subst skip_space.simps) (simp add: skip iswspace_def nth_append)
  then show "readnext (pre @ 10 # c # post) 0 (length pre) = Inr (c, length pre + 2, 0)"
    by (simp add: readnext_def)
qed

lemma hex_encode_step:
  obtains nl e' where "fst (hex_encode_block e (c # cs)) =
      hex_digits ! (he_uppercase e + unat (drop_bit 4 c AND 0xF)) #
      hex_digits ! (he_uppercase e + unat (c AND 0xF)) # nl @ fst (hex_encode_block e' cs)"
    and "nl = [] \<or> nl = [10]" and "he_uppercase e' = he_uppercase e"
proof -
  let ?r = "if he_lineLength e > 0 then
      (if he_linePos e + 2 \<ge> he_lineLength e then ([10 :: u8], e\<lparr>he_linePos := 0\<rparr>)
       else ([], e\<lparr>he_linePos := he_linePos e + 2\<rparr>)) else ([], e)"
  show thesis by (rule that [of "fst ?r" "snd ?r"]) (auto simp: split_beta Let_def)
qed

lemma decode_loop_encoded:
  assumes "nl = [] \<or> nl = [10]" and "he_uppercase e = 0 \<or> he_uppercase e = 16"
  shows "hex_decode_loop False (pre @ nl @ fst (hex_encode_block e bs)) 0 (length pre) = Inr (bs, 0)"
  using assms
proof (induction bs arbitrary: pre nl e)
  case Nil
  have "readnext (pre @ [10]) 0 (length pre) = Inr (10, Suc (length pre), 0)"
    by (simp add: readnext_def skip_space.simps)
  with Nil show ?case
    by (subst hex_decode_loop.simps) (auto simp: iswspace_def)
next
  case (Cons c cs)
  let ?hi = "hex_digits ! (he_uppercase e + unat (drop_bit 4 c AND 0xF))"
  let ?lo = "hex_digits ! (he_uppercase e + unat (c AND 0xF))"
  obtain nl' e' where enc: "fst (hex_encode_block e (c # cs)) = ?hi # ?lo # nl' @ fst (hex_encode_block e' cs)"
    and nl': "nl' = [] \<or> nl' = [10]" and up: "he_uppercase e' = he_uppercase e"
    by (rule hex_encode_step)
  let ?rest = "nl' @ fst (hex_encode_block e' cs)" and ?buf = "pre @ nl @ ?hi # ?lo # nl' @ fst (hex_encode_block e' cs)"
  let ?p = "pre @ nl @ [?hi]"
  note d = digit_nybble [OF Cons.prems(2)]
  have r1: "readnext ?buf 0 (length pre) = Inr (?hi, length ?p, 0)"
    using Cons.prems(1) readnext_digit [OF d(2), of pre "drop_bit 4 c" "?lo # ?rest"] by auto
  have r2: "readnext ?buf 0 (length ?p) = Inr (?lo, length (?p @ [?lo]), 0)"
    using readnext_digit(1) [OF d(2), of ?p c ?rest] by simp
  have ih: "hex_decode_loop False ?buf 0 (length (?p @ [?lo])) = Inr (cs, 0)"
    using Cons.IH [OF nl', of e' "?p @ [?lo]"] up Cons.prems(2) by simp
  show ?case
    unfolding enc
    by (subst hex_decode_loop.simps) (simp add: r1 [simplified] r2 [simplified] ih [simplified] d byte_of_nybbles)
qed

subsection \<open>Properties\<close>

text \<open>
  C26 (round trip). On a little-endian host the decoder gives back what the encoder encoded, in
  upper or lower case and with lines of any length, also when the encoder was called before and
  is in the middle of a line; no character is left over.
\<close>

theorem hex_roundtrip:
  assumes "he_uppercase e = 0 \<or> he_uppercase e = 16"
  shows "hex_decode False 0 (fst (hex_encode_block e bs)) = Inr (bs, 0)"
  using decode_loop_encoded [of "[]" e "[]" bs] assms by (simp add: hex_decode_def)

theorem hex_roundtrip_witness:
  "hex_decode False 0 (fst (hex_encode_block (hex_setUppercase new_hex_encoder True) [0, 171, 255])) =
   Inr ([0, 171, 255], 0)"
  by (rule hex_roundtrip) (simp add: hex_setUppercase_def)

text \<open>
  Without line feeds the encoder, called block by block on any splitting of the
  input, produces what \<^verbatim>\<open>hex::encode\<close> produces for the whole input.
\<close>

theorem hex_encode_blocks:
  assumes "he_lineLength e \<le> 0" and "he_uppercase e = 0"
  shows "fst (hex_encode_block e xs) @ fst (hex_encode_block (snd (hex_encode_block e xs)) ys) =
         hex_encode (xs @ ys)"
proof -
  have "fst (hex_encode_block e bs) = hex_encode bs" for bs
    using assms by (induction bs) (simp_all add: hex_encode_def split_beta Let_def)
  then show ?thesis using hex_encode_append [of e xs ys] by (metis fst_conv)
qed

theorem hex_encode_blocks_witness:
  "fst (hex_encode_block (hex_setLineLength new_hex_encoder 0) [1]) @
   fst (hex_encode_block (snd (hex_encode_block (hex_setLineLength new_hex_encoder 0) [1])) [2]) =
   hex_encode ([1] @ [2])"
  by (rule hex_encode_blocks) (simp_all add: hex_setLineLength_def new_hex_encoder_def)

text \<open>
  On a big-endian host every decoded byte is 0: the first byte of the \<^verbatim>\<open>int\<close> the
  decoder copies is then its most significant byte.
\<close>

theorem hex_decode_big_endian: "hex_decode True 0 (hex_encode [b]) = Inr ([0], 0)"
proof -
  let ?hi = "hex_digits ! (0 + unat (drop_bit 4 b AND 0xF))" and ?lo = "hex_digits ! (0 + unat (b AND 0xF))"
  have d: "nybble ?hi = Inr (ucast (drop_bit 4 b AND 0xF))" "nybble ?lo = Inr (ucast (b AND 0xF))"
    "\<not> iswspace ?hi" "\<not> iswspace ?lo"
    using digit_nybble [of 0] by blast+
  have r1: "readnext [?hi, ?lo] 0 0 = Inr (?hi, 1, 0)" and r2: "readnext [?hi, ?lo] 0 1 = Inr (?lo, 2, 0)"
    using readnext_digit(1) [OF d(3), of "[]" "[?lo]"] readnext_digit(1) [OF d(4), of "[?hi]" "[]"] by simp_all
  have m: "(0xF :: u8) = mask 4" by (simp add: mask_eq_exp_minus_1)
  have "ucast (drop_bit 24 (push_bit 4 (ucast (drop_bit 4 b AND 0xF)) OR ucast (b AND 0xF) :: u32)) = (0 :: u8)"
    unfolding m by (rule bit_word_eqI) (auto simp: bit_simps)
  then have "get8 (store32 True (push_bit 4 (ucast (drop_bit 4 b AND 0xF)) OR ucast (b AND 0xF))) 0 = 0"
    by (simp add: store32_def setBE32_def get8_def)
  moreover have "hex_decode_loop True [?hi, ?lo] 0 2 = Inr ([], 0)"
    by (subst hex_decode_loop.simps) simp
  ultimately have "hex_decode_loop True [?hi, ?lo] 0 0 = Inr ([0], 0)"
    using r1 r2 d by (subst hex_decode_loop.simps) simp
  then show ?thesis by (simp add: hex_decode_def hex_encode_def)
qed

text \<open>A digit followed by white space at the end of a block is an error, although its second
  digit may come with the next block.\<close>

lemma digit_then_space: "hex_decode be 0 [52, 10] = Inl RuntimeError"
proof -
  have "readnext [52, 10] 0 0 = Inr (52, 1, 0)" "readnext [52, 10] 0 1 = Inr (10, 2, 0)"
    by (simp_all add: readnext_def skip_space.simps iswspace_def)
  then show ?thesis
    by (simp add: hex_decode_def hex_decode_loop.simps [of be "[52, 10]" 0 0] nybble_def)
qed

end
