(* ===== verification/Base64.thy ===== *)
theory Base64
  imports Stream_Coder Text_Util
begin

text \<open>
  \<^verbatim>\<open>src/base/src/base64.cpp\<close> and \<^verbatim>\<open>base64.h\<close>: the Base64 encoder and decoder.

  The two \<^verbatim>\<open>switch\<close> statements that jump into a loop are state machines that consume one
  character at a time; the model has one clause per state. \<^verbatim>\<open>char\<close> is signed, as on the
  platforms the code is built for. The output goes to buffers the callers allocate, and the
  callers' models check that it fits.
\<close>

subsection \<open>Encoder\<close>

datatype encodestep = step_A | step_B | step_C

record encodestate =
  es_step :: encodestep
  es_result :: u8
  es_stepcount :: int
  es_linelength :: int
  es_nullptrlterminate :: bool

definition LINE_LENGTH :: int where "LINE_LENGTH = 72"

definition init_encodestate :: encodestate where
  "init_encodestate =
     \<lparr>es_step = step_A, es_result = 0, es_stepcount = 0, es_linelength = LINE_LENGTH,
      es_nullptrlterminate = False\<rparr>"

definition encoding :: bytes where
  "encoding = bytes_of_text ''ABCDEFGHIJKLMNOPQRSTUVWXYZabcdefghijklmnopqrstuvwxyz0123456789+/''"

definition encode_value :: "u8 \<Rightarrow> u8" where
  "encode_value v = (if sint v > 63 then 61 else encoding ! unat v)"

text \<open>The end of a group of four characters: a line feed when the line is full.\<close>

definition line_feed :: "encodestate \<Rightarrow> bytes \<times> encodestate" where
  "line_feed st =
     (if es_linelength st \<noteq> 0 then
        (if es_stepcount st + 1 = (if es_linelength st < 0 then - ((- es_linelength st) div 4)
                                   else es_linelength st div 4)
         then ([10], st\<lparr>es_stepcount := 0\<rparr>) else ([], st\<lparr>es_stepcount := es_stepcount st + 1\<rparr>))
      else ([], st))"

definition encode_char :: "encodestate \<Rightarrow> u8 \<Rightarrow> bytes \<times> encodestate" where
  "encode_char st fragment =
     (case es_step st of
        step_A \<Rightarrow>
          ([encode_value (drop_bit 2 (fragment AND 0xfc))],
           st\<lparr>es_step := step_B, es_result := push_bit 4 (fragment AND 0x03)\<rparr>)
      | step_B \<Rightarrow>
          ([encode_value (es_result st OR drop_bit 4 (fragment AND 0xf0))],
           st\<lparr>es_step := step_C, es_result := push_bit 2 (fragment AND 0x0f)\<rparr>)
      | step_C \<Rightarrow>
          (let (lf, st') = line_feed st
           in ([encode_value (es_result st OR drop_bit 6 (fragment AND 0xc0)),
                encode_value (fragment AND 0x3f)] @ lf,
               st'\<lparr>es_step := step_A, es_result := fragment AND 0x3f\<rparr>)))"

fun encode_block :: "encodestate \<Rightarrow> bytes \<Rightarrow> bytes \<times> encodestate" where
  "encode_block st [] = ([], st)"
| "encode_block st (b # bs) =
     (let (out, st) = encode_char st b;
          (rest, st) = encode_block st bs
      in (out @ rest, st))"

definition encode_blockend :: "encodestate \<Rightarrow> bytes" where
  "encode_blockend st =
     (case es_step st of
        step_B \<Rightarrow> [encode_value (es_result st), 61, 61]
      | step_C \<Rightarrow> [encode_value (es_result st), 61]
      | step_A \<Rightarrow> []) @ (if es_nullptrlterminate st then [10] else [])"

text \<open>
  \<^verbatim>\<open>base64::encode(bytes, lineLength)\<close> and \<^verbatim>\<open>Encoder::encode(in, out)\<close>: the buffer has twice
  the size of the input and is used for the blocks and again for the end.
\<close>

definition base64_encode :: "bytes \<Rightarrow> int \<Rightarrow> bytes result" where
  "base64_encode bs lineLength =
     (let cap = length bs * 2;
          (out, st) = encode_block (init_encodestate\<lparr>es_linelength := lineLength\<rparr>) bs;
          fin = encode_blockend st
      in if length out > cap then Inl Undefined
         else if length fin > cap then Inl Undefined
         else Inr (out @ fin))"

text \<open>\<^verbatim>\<open>Encoder::encode(istrm, ostrm)\<close>: buffers of \<open>N\<close> and \<open>2 * N\<close> characters.\<close>

definition base64_encode_stream :: "nat \<Rightarrow> int \<Rightarrow> bytes \<Rightarrow> bytes result" where
  "base64_encode_stream N lineLength input =
     bind_r (run_blocks encode_block (\<lambda>n out. length out \<le> 2 * N) N
               (init_encodestate\<lparr>es_linelength := lineLength\<rparr>) input) (\<lambda>(out, st).
       if length (encode_blockend st) > 2 * N then Inl Undefined
       else Inr (out @ encode_blockend st))"

subsection \<open>Decoder\<close>

datatype decodestep = step_a | step_b | step_c | step_d

record decodestate =
  ds_step :: decodestep
  ds_plainchar :: u8

definition init_decodestate :: decodestate where
  "init_decodestate = \<lparr>ds_step = step_a, ds_plainchar = 0\<rparr>"

definition decoding :: "int list" where
  "decoding =
     [62, -1, -1, -1, 63, 52, 53, 54, 55, 56, 57, 58, 59, 60, 61, -1,
      -1, -1, -2, -1, -1, -1, 0, 1, 2, 3, 4, 5, 6, 7, 8, 9,
      10, 11, 12, 13, 14, 15, 16, 17, 18, 19, 20, 21, 22, 23, 24, 25,
      -1, -1, -1, -1, -1, -1, 26, 27, 28, 29, 30, 31, 32, 33, 34, 35,
      36, 37, 38, 39, 40, 41, 42, 43, 44, 45, 46, 47, 48, 49, 50, 51]"

definition decode_value :: "u8 \<Rightarrow> int" where
  "decode_value v =
     (let v = v - 43
      in if sint v < 0 \<or> sint v \<ge> int (length decoding) then -1 else decoding ! unat v)"

text \<open>
  One character: those without a value are skipped. In the last state the next output position
  holds nothing yet; the state keeps its content, which the first state overwrites.
\<close>

definition decode_char :: "decodestate \<Rightarrow> u8 \<Rightarrow> bytes \<times> decodestate" where
  "decode_char st c =
     (if decode_value c < 0 then ([], st)
      else let fragment = (word_of_int (decode_value c) :: u8) in
        case ds_step st of
          step_a \<Rightarrow> ([], \<lparr>ds_step = step_b, ds_plainchar = push_bit 2 (fragment AND 0x3f)\<rparr>)
        | step_b \<Rightarrow> ([ds_plainchar st OR drop_bit 4 (fragment AND 0x30)],
                     \<lparr>ds_step = step_c, ds_plainchar = push_bit 4 (fragment AND 0x0f)\<rparr>)
        | step_c \<Rightarrow> ([ds_plainchar st OR drop_bit 2 (fragment AND 0x3c)],
                     \<lparr>ds_step = step_d, ds_plainchar = push_bit 6 (fragment AND 0x03)\<rparr>)
        | step_d \<Rightarrow> ([ds_plainchar st OR (fragment AND 0x3f)],
                     \<lparr>ds_step = step_a, ds_plainchar = 0\<rparr>))"

fun decode_block :: "decodestate \<Rightarrow> bytes \<Rightarrow> bytes \<times> decodestate" where
  "decode_block st [] = ([], st)"
| "decode_block st (c # cs) =
     (let (out, st) = decode_char st c;
          (rest, st) = decode_block st cs
      in (out @ rest, st))"

text \<open>
  The decoder writes the character it is working on behind the characters it has finished, so the
  buffer has to be larger than the output.
\<close>

definition base64_decode :: "bytes \<Rightarrow> bytes result" where
  "base64_decode code =
     (let (out, st) = decode_block init_decodestate code
      in if length out \<ge> length code * 2 then Inl Undefined else Inr out)"

definition base64_decode_stream :: "nat \<Rightarrow> bytes \<Rightarrow> bytes result" where
  "base64_decode_stream N input =
     bind_r (run_blocks decode_block (\<lambda>n out. length out < N) N init_decodestate input)
       (\<lambda>(out, st). Inr out)"

subsection \<open>Blocks of any size\<close>

lemma encode_block_append:
  "encode_block st (xs @ ys) =
   (fst (encode_block st xs) @ fst (encode_block (snd (encode_block st xs)) ys),
    snd (encode_block (snd (encode_block st xs)) ys))"
  by (induction xs arbitrary: st) (simp_all add: split_beta Let_def)

lemma decode_block_append:
  "decode_block st (xs @ ys) =
   (fst (decode_block st xs) @ fst (decode_block (snd (decode_block st xs)) ys),
    snd (decode_block (snd (decode_block st xs)) ys))"
  by (induction xs arbitrary: st) (simp_all add: split_beta Let_def)

interpretation base64_encoder: stream_coder encode_block
  by unfold_locales (simp_all add: encode_block_append)

interpretation base64_decoder: stream_coder decode_block
  by unfold_locales (simp_all add: decode_block_append)

subsection \<open>The alphabet\<close>

text \<open>Every six-bit value has a character, no line feed or padding, that decodes to it.\<close>

lemma encoding_codes:
  "encoding =
     [65, 66, 67, 68, 69, 70, 71, 72, 73, 74, 75, 76, 77, 78, 79, 80, 81, 82, 83, 84, 85, 86,
      87, 88, 89, 90, 97, 98, 99, 100, 101, 102, 103, 104, 105, 106, 107, 108, 109, 110, 111,
      112, 113, 114, 115, 116, 117, 118, 119, 120, 121, 122, 48, 49, 50, 51, 52, 53, 54, 55, 56,
      57, 43, 47]"
  by (simp add: encoding_def bytes_of_text_def)

lemma upt_64:
  "[0..<64] =
     [0, 1, 2, 3, 4, 5, 6, 7, 8, 9, 10, 11, 12, 13, 14, 15, 16, 17, 18, 19, 20, 21, 22, 23, 24,
      25, 26, 27, 28, 29, 30, 31, 32, 33, 34, 35, 36, 37, 38, 39, 40, 41, 42, 43, 44, 45, 46,
      47, 48, 49, 50, 51, 52, 53, 54, 55, 56, 57, 58, 59, 60, 61, 62, 63]"
  by (simp add: upt_rec)

lemma alphabet:
  "list_all (\<lambda>n. let c = encode_value (word_of_nat n) in
     decode_value c = int n \<and> c = encoding ! n \<and> c \<noteq> 10 \<and> c \<noteq> 61) [0..<64]"
  unfolding upt_64
  by (simp add: encode_value_def encoding_codes decode_value_def decoding_def Let_def)

lemma sextet_char:
  fixes v :: u8
  assumes "v < 64"
  shows "decode_value (encode_value v) = uint v" and "encode_value v = encoding ! unat v"
    and "encode_value v \<noteq> 10" and "encode_value v \<noteq> 61"
proof -
  have "unat v \<in> set [0..<64]" using assms by (simp add: word_less_nat_alt)
  with alphabet show "decode_value (encode_value v) = uint v" "encode_value v = encoding ! unat v"
    "encode_value v \<noteq> 10" "encode_value v \<noteq> 61"
    by (auto simp: list_all_iff Let_def dest!: bspec [of _ _ "unat v"])
qed

lemma skipped [simp]: "decode_value 10 = -1" "decode_value 61 = -2"
  by code_simp+

lemma masks: "(0x3f :: u8) = mask 6" "(0x0f :: u8) = mask 4" "(0x03 :: u8) = mask 2"
  by (simp_all add: mask_eq_exp_minus_1)

text \<open>Bit \<open>i\<close> of the other masks, by cases.\<close>

lemma high_masks:
  "(0xfc :: u8) = push_bit 2 (mask 6)" "(0xf0 :: u8) = push_bit 4 (mask 4)"
  "(0xc0 :: u8) = push_bit 6 (mask 2)" "(0x30 :: u8) = push_bit 4 (mask 2)"
  "(0x3c :: u8) = push_bit 2 (mask 4)"
  by (simp_all add: mask_eq_exp_minus_1)

lemma u8_bit_less: "v < 64" if "\<And>n. bit v n \<Longrightarrow> n < 6" for v :: u8
proof -
  have "v = take_bit 6 v" by (rule bit_word_eqI) (use that in \<open>auto simp: bit_simps\<close>)
  moreover have "take_bit 6 v < 64"
    by (simp only: word_less_nat_alt unsigned_take_bit_eq) (simp add: take_bit_eq_mod)
  ultimately show ?thesis by simp
qed

subsection \<open>Groups of three bytes\<close>

text \<open>RFC 4648: three bytes are 24 bits, and each six of them are a character.\<close>

definition sextet :: "u8 \<Rightarrow> u8 \<Rightarrow> u8 \<Rightarrow> nat \<Rightarrow> u8" where
  "sextet a b c i =
     take_bit 6 (ucast (drop_bit (18 - 6 * i)
       (push_bit 16 (ucast a) OR push_bit 8 (ucast b) OR ucast c :: u32)))"

fun base64_spec :: "bytes \<Rightarrow> bytes" where
  "base64_spec [] = []"
| "base64_spec [a] = [encoding ! unat (sextet a 0 0 0), encoding ! unat (sextet a 0 0 1), 61, 61]"
| "base64_spec [a, b] =
     [encoding ! unat (sextet a b 0 0), encoding ! unat (sextet a b 0 1),
      encoding ! unat (sextet a b 0 2), 61]"
| "base64_spec (a # b # c # rest) =
     map (\<lambda>i. encoding ! unat (sextet a b c i)) [0, 1, 2, 3] @ base64_spec rest"

lemma sextet_less: "sextet a b c i < 64"
  by (rule u8_bit_less) (auto simp: sextet_def bit_simps)

lemma sextet_eqs:
  "drop_bit 2 (a AND 0xfc) = sextet a b c 0"
  "push_bit 4 (a AND 0x03) OR drop_bit 4 (b AND 0xf0) = sextet a b c 1"
  "push_bit 2 (b AND 0x0f) OR drop_bit 6 (c AND 0xc0) = sextet a b c 2"
  "c AND 0x3f = sextet a b c 3"
  "push_bit 4 (a AND 0x03) = sextet a 0 0 1"
  "push_bit 2 (b AND 0x0f) = sextet a b 0 2"
  unfolding masks high_masks
  by (rule bit_word_eqI, auto simp: sextet_def bit_simps)+


lemma encode_sextet:
  "encode_value (drop_bit 2 (a AND 0xfc)) = encoding ! unat (sextet a b c 0)"
  "encode_value (push_bit 4 (a AND 0x03) OR drop_bit 4 (b AND 0xf0)) = encoding ! unat (sextet a b c 1)"
  "encode_value (push_bit 2 (b AND 0x0f) OR drop_bit 6 (c AND 0xc0)) = encoding ! unat (sextet a b c 2)"
  "encode_value (c AND 0x3f) = encoding ! unat (sextet a b c 3)"
  by (simp_all only: sextet_eqs(1) [of a b c] sextet_eqs(2) [of a b c] sextet_eqs(3) [of b c a]
      sextet_eqs(4) [of c a b] sextet_char(2) [OF sextet_less])

lemma encode_sextet_end:
  "encode_value (push_bit 4 (a AND 0x03)) = encoding ! unat (sextet a 0 0 1)"
  "encode_value (push_bit 2 (b AND 0x0f)) = encoding ! unat (sextet a b 0 2)"
  by (simp_all only: sextet_eqs(5) [of a] sextet_eqs(6) [of b a] sextet_char(2) [OF sextet_less])

lemma line_feed_keeps:
  "es_linelength (snd (line_feed st)) = es_linelength st"
  "es_nullptrlterminate (snd (line_feed st)) = es_nullptrlterminate st"
  "fst (line_feed st) = [] \<or> fst (line_feed st) = [10]"
  "es_linelength st = 0 \<Longrightarrow> fst (line_feed st) = []"
  by (simp_all add: line_feed_def)

lemma encode_group:
  assumes "es_step st = step_A"
  obtains lf st' where "encode_block st (a # b # c # rest) =
      (map (\<lambda>i. encoding ! unat (sextet a b c i)) [0, 1, 2, 3] @ lf @ fst (encode_block st' rest),
       snd (encode_block st' rest))"
    and "es_step st' = step_A" and "lf = [] \<or> lf = [10]" and "es_linelength st = 0 \<Longrightarrow> lf = []"
    and "es_linelength st' = es_linelength st" and "es_nullptrlterminate st' = es_nullptrlterminate st"
proof -
  let ?s2 = "st\<lparr>es_step := step_C, es_result := push_bit 2 (b AND 0x0f)\<rparr>"
  let ?s3 = "(snd (line_feed ?s2))\<lparr>es_step := step_A, es_result := c AND 0x3f\<rparr>"
  note lf = line_feed_keeps [of ?s2]
  have "encode_block st (a # b # c # rest) =
      (map (\<lambda>i. encoding ! unat (sextet a b c i)) [0, 1, 2, 3] @ fst (line_feed ?s2) @ fst (encode_block ?s3 rest),
       snd (encode_block ?s3 rest))"
    using assms encode_sextet [where a = a and b = b and c = c] by (simp add: encode_char_def split_beta Let_def)
  then show thesis by (rule that) (use lf in simp_all)
qed

lemma encode_spec:
  assumes "es_step st = step_A" and "\<not> es_nullptrlterminate st"
  shows "filter (\<lambda>c. c \<noteq> 10) (fst (encode_block st bs) @ encode_blockend (snd (encode_block st bs))) =
         base64_spec bs \<and>
         (es_linelength st = 0 \<longrightarrow>
          fst (encode_block st bs) @ encode_blockend (snd (encode_block st bs)) = base64_spec bs)"
  using assms
proof (induction bs arbitrary: st rule: base64_spec.induct)
  case 1
  then show ?case by (simp add: encode_blockend_def)
next
  case (2 a)
  then show ?case
    using encode_sextet(1) [of a 0 0] encode_sextet_end(1) [of a] sextet_char(2,3) [OF sextet_less]
    by (simp add: encode_char_def encode_blockend_def split_beta Let_def)
next
  case (3 a b)
  then show ?case
    using encode_sextet(1,2) [of a b 0] encode_sextet_end(2) [of b a] sextet_char(2,3) [OF sextet_less]
    by (simp add: encode_char_def encode_blockend_def split_beta Let_def)
next
  case (4 a b c rest)
  obtain lf st' where g: "encode_block st (a # b # c # rest) =
      (map (\<lambda>i. encoding ! unat (sextet a b c i)) [0, 1, 2, 3] @ lf @ fst (encode_block st' rest),
       snd (encode_block st' rest))"
    "es_step st' = step_A" "lf = [] \<or> lf = [10]" "es_linelength st = 0 \<Longrightarrow> lf = []"
    "es_linelength st' = es_linelength st" "es_nullptrlterminate st' = es_nullptrlterminate st"
    using encode_group [OF 4(2)] by metis
  have "encoding ! unat (sextet a b c i) \<noteq> 10" for i
    using sextet_char(2,3) [OF sextet_less] by metis
  then show ?case using 4(1) [of st'] g 4(3) by auto
qed

subsection \<open>Decoding\<close>

lemma decode_block_skip:
  "decode_block st (filter (\<lambda>c. c \<noteq> 10) cs) = decode_block st cs"
  by (induction cs arbitrary: st) (simp_all add: decode_char_def split_beta Let_def)

lemma decode_sextet:
  "decode_value (encoding ! unat (sextet a b c i)) = uint (sextet a b c i)"
  using sextet_char(1,2) [OF sextet_less] by metis

lemma u8_eqI:
  fixes v w :: u8
  assumes "bit v 0 = bit w 0" "bit v 1 = bit w 1" "bit v 2 = bit w 2" "bit v 3 = bit w 3"
    "bit v 4 = bit w 4" "bit v 5 = bit w 5" "bit v 6 = bit w 6" "bit v 7 = bit w 7"
  shows "v = w"
proof (rule bit_word_eqI)
  fix n assume "n < LENGTH(8)"
  then have "n \<in> {0, 1, 2, 3, 4, 5, 6, 7}" by (simp, linarith)
  then show "bit v n = bit w n" using assms by (elim insertE emptyE) simp_all
qed

lemma sextet_join:
  "push_bit 2 (sextet a b c 0 AND 0x3f) OR drop_bit 4 (sextet a b c 1 AND 0x30) = a"
  "push_bit 4 (sextet a b c 1 AND 0x0f) OR drop_bit 2 (sextet a b c 2 AND 0x3c) = b"
  "push_bit 6 (sextet a b c 2 AND 0x03) OR (sextet a b c 3 AND 0x3f) = c"
  unfolding masks high_masks
  by (rule u8_eqI; simp add: sextet_def bit_simps; simp add: numeral_2_eq_2 numeral_3_eq_3)+

lemma decode_spec:
  "ds_step st = step_a \<Longrightarrow> fst (decode_block st (base64_spec bs)) = bs"
proof (induction bs arbitrary: st rule: base64_spec.induct)
  case (2 a)
  then show ?case using sextet_join(1) [of a 0 0]
    by (simp add: decode_char_def decode_sextet split_beta Let_def)
next
  case (3 a b)
  then show ?case using sextet_join(1,2) [of a b 0]
    by (simp add: decode_char_def decode_sextet split_beta Let_def)
next
  case (4 a b c rest)
  then show ?case using sextet_join [of a b c]
    by (simp add: decode_char_def decode_sextet split_beta Let_def)
qed simp

subsection \<open>Buffer sizes\<close>

text \<open>How much one block can produce beyond twice its size, by the state it starts in.\<close>

fun encode_excess :: "encodestep \<Rightarrow> nat \<Rightarrow> int" where
  "encode_excess step_A n = (if n = 0 then 0 else -1)"
| "encode_excess step_B n = 0"
| "encode_excess step_C n = (if n = 1 then 1 else 0)"

lemma encode_length:
  "int (length (fst (encode_block st bs))) \<le> 2 * int (length bs) + encode_excess (es_step st) (length bs)"
proof (induction bs arbitrary: st)
  case Nil
  then show ?case by (cases "es_step st") auto
next
  case (Cons b bs)
  let ?st = "snd (encode_char st b)"
  have ih: "int (length (fst (encode_block ?st bs))) \<le> 2 * int (length bs) + encode_excess (es_step ?st) (length bs)"
    by (rule Cons.IH)
  show ?case
  proof (cases "es_step st")
    case step_A
    then show ?thesis using ih by (auto simp: encode_char_def split_beta Let_def split: if_splits)
  next
    case step_B
    then show ?thesis using ih by (auto simp: encode_char_def split_beta Let_def split: if_splits)
  next
    case step_C
    then have "length (fst (encode_char st b)) \<le> 3" "es_step ?st = step_A"
      using line_feed_keeps(3) [of st] by (auto simp: encode_char_def split_beta Let_def)
    then show ?thesis using ih step_C by (auto simp: split_beta Let_def split: if_splits)
  qed
qed

lemma encode_end_length: "\<not> es_nullptrlterminate st \<Longrightarrow> length (encode_blockend st) \<le> 3"
  by (simp add: encode_blockend_def split: encodestep.splits)

lemma encode_nullterminate: "es_nullptrlterminate (snd (encode_block st bs)) = es_nullptrlterminate st"
  by (induction bs arbitrary: st)
    (simp_all add: encode_char_def split_beta Let_def line_feed_keeps split: encodestep.splits)

fun decode_excess :: "decodestep \<Rightarrow> nat" where
  "decode_excess step_a = 0"
| "decode_excess step_b = 3"
| "decode_excess step_c = 2"
| "decode_excess step_d = 1"

lemma decode_length:
  "4 * length (fst (decode_block st cs)) \<le> 3 * length cs + decode_excess (ds_step st)"
proof (induction cs arbitrary: st)
  case (Cons c cs)
  have "4 * length (fst (decode_char st c)) + decode_excess (ds_step (snd (decode_char st c))) \<le>
      3 + decode_excess (ds_step st)"
    by (cases "ds_step st") (simp_all add: decode_char_def Let_def)
  then show ?case using Cons.IH [of "snd (decode_char st c)"]
    by (simp add: split_beta Let_def)
qed simp

lemma decode_excess_le: "decode_excess x \<le> 3" by (cases x) simp_all

subsection \<open>Properties\<close>

abbreviation start_state :: "int \<Rightarrow> encodestate" where
  "start_state L \<equiv> init_encodestate\<lparr>es_linelength := L\<rparr>"

lemma base64_encode_eq:
  assumes "length bs \<noteq> 1"
  shows "base64_encode bs L =
    Inr (fst (encode_block (start_state L) bs) @ encode_blockend (snd (encode_block (start_state L) bs)))"
proof -
  have "length (fst (encode_block (start_state L) bs)) \<le> 2 * length bs"
    using encode_length [of "start_state L" bs] by (simp add: init_encodestate_def split: if_splits)
  moreover have "length (encode_blockend (snd (encode_block (start_state L) bs))) \<le> 2 * length bs"
  proof (cases "bs = []")
    case True
    then show ?thesis by (simp add: encode_blockend_def init_encodestate_def)
  next
    case False
    then have "3 \<le> 2 * length bs" using assms by (cases bs; cases "tl bs") auto
    moreover have "length (encode_blockend (snd (encode_block (start_state L) bs))) \<le> 3"
      by (rule encode_end_length) (simp add: encode_nullterminate init_encodestate_def)
    ultimately show ?thesis by linarith
  qed
  ultimately show ?thesis by (simp add: base64_encode_def split_beta Let_def)
qed

text \<open>
  C16 (equivalence). The encoder implements RFC 4648. For every input except one of a single
  byte, and every line length, \<^verbatim>\<open>base64::encode\<close> returns text which is the standard encoding
  once its line feeds are removed, and is exactly the standard encoding when the line length is 0.
\<close>

theorem base64_encode_correct:
  assumes "length bs \<noteq> 1"
  shows "\<exists>out. base64_encode bs L = Inr out \<and> filter (\<lambda>c. c \<noteq> 10) out = base64_spec bs \<and>
               (L = 0 \<longrightarrow> out = base64_spec bs)"
  using base64_encode_eq [OF assms, of L] encode_spec [of "start_state L" bs]
  by (simp add: init_encodestate_def)

theorem base64_encode_correct_witness:
  "\<exists>out. base64_encode [77, 97] 0 = Inr out \<and> filter (\<lambda>c. c \<noteq> 10) out = base64_spec [77, 97] \<and>
         ((0 :: int) = 0 \<longrightarrow> out = base64_spec [77, 97])"
  by (rule base64_encode_correct) simp

text \<open>
  C24 (round trip). Decoding what the encoder produced, with line feeds after any number of
  characters or without, gives back the input, for every input of at least two bytes.
\<close>

theorem base64_roundtrip:
  assumes "2 \<le> length bs"
  shows "\<exists>out. base64_encode bs L = Inr out \<and> base64_decode out = Inr bs"
proof -
  obtain out where out: "base64_encode bs L = Inr out" "filter (\<lambda>c. c \<noteq> 10) out = base64_spec bs"
    using base64_encode_eq [of bs L] encode_spec [of "start_state L" bs] assms
    by (auto simp: init_encodestate_def)
  have dec: "fst (decode_block init_decodestate out) = bs"
    using decode_spec [of init_decodestate bs] out(2) decode_block_skip [of init_decodestate out]
    by (simp add: init_decodestate_def)
  have "length bs < length out * 2"
    using decode_length [of init_decodestate out] dec assms by (simp add: init_decodestate_def)
  then show ?thesis using out(1) dec by (simp add: base64_decode_def split_beta)
qed

theorem base64_roundtrip_witness:
  "\<exists>out. base64_encode [0, 255, 16, 7] 4 = Inr out \<and> base64_decode out = Inr [0, 255, 16, 7]"
  by (rule base64_roundtrip) simp

text \<open>
  C25 (equivalence). The stream interfaces give the same result as the ones on whole buffers:
  with blocks of at least two bytes for encoding and of at least four characters for decoding, for
  an input of at least two bytes and a code that is not empty, no call overruns its buffers, and
  the output is that of a single call.
\<close>

theorem base64_stream:
  assumes "2 \<le> N" and "2 \<le> length bs" and "4 \<le> M" and "code \<noteq> []"
  shows "base64_encode_stream N L bs = base64_encode bs L \<and>
         base64_decode_stream M code = base64_decode code"
proof
  have "length (fst (encode_block st block)) \<le> 2 * N" if "length block \<le> N" for st block
  proof -
    have "encode_excess (es_step st) (length block) \<le> (if length block = 1 then 1 else 0)"
      by (cases "es_step st") auto
    then show ?thesis using encode_length [of st block] that assms(1) by (auto split: if_splits)
  qed
  then have "run_blocks encode_block (\<lambda>n out. length out \<le> 2 * N) N (start_state L) bs =
      Inr (encode_block (start_state L) bs)"
    using assms(1) by (intro base64_encoder.run_blocks_eq) auto
  moreover have "length (encode_blockend (snd (encode_block (start_state L) bs))) \<le> 3"
    by (rule encode_end_length) (simp add: encode_nullterminate init_encodestate_def)
  ultimately show "base64_encode_stream N L bs = base64_encode bs L"
    using base64_encode_eq [of bs L] assms(1,2)
    by (simp add: base64_encode_stream_def split_beta)
next
  have "length (fst (decode_block st block)) < M" if "length block \<le> M" for st block
    using decode_length [of st block] decode_excess_le [of "ds_step st"] that assms(3) by linarith
  then have "run_blocks decode_block (\<lambda>n out. length out < M) M init_decodestate code =
      Inr (decode_block init_decodestate code)"
    using assms(3) by (intro base64_decoder.run_blocks_eq) auto
  moreover have "length (fst (decode_block init_decodestate code)) < length code * 2"
    using decode_length [of init_decodestate code] assms(4) by (cases code) (auto simp: init_decodestate_def)
  ultimately show "base64_decode_stream M code = base64_decode code"
    by (simp add: base64_decode_stream_def base64_decode_def split_beta)
qed

theorem base64_stream_witness:
  "base64_encode_stream 2 72 [1, 2, 3] = base64_encode [1, 2, 3] 72 \<and>
   base64_decode_stream 4 [65, 66] = base64_decode [65, 66]"
  by (rule base64_stream) simp_all

text \<open>
  The buffers of the two convenience functions are too small at the lower end: the
  padding of a one-byte input takes three characters of a two-character buffer, and decoding an
  empty input writes a character into a buffer of none.
\<close>

theorem base64_small_inputs_overflow:
  "base64_encode [b] L = Inl Undefined \<and> base64_decode [] = Inl Undefined"
  by (simp add: base64_encode_def base64_decode_def encode_char_def encode_blockend_def
      init_encodestate_def split_beta Let_def)

end
