(* ===== verification/String_Util.thy ===== *)
theory String_Util
  imports Text_Util "HOL-Library.List_Lexorder"
begin

text \<open>
  The string functions of \<^verbatim>\<open>src/base/include/scy/util.h\<close> and \<^verbatim>\<open>src/base/src/util.cpp\<close>:
  case conversion and case-insensitive comparison, trimming, splitting, replacing, node matching
  and version comparison.

  Text is a \<open>string\<close>. The C library's character classes are those of the "C" locale; a
  \<^verbatim>\<open>char\<close> is signed, so comparing characters compares \<open>char_code\<close>. Loops over positions are
  written over positions, and an access outside a string is \<open>Undefined\<close>.
\<close>

subsection \<open>Characters\<close>

definition char_code :: "char \<Rightarrow> int" where
  "char_code c = (let n = (of_char c :: nat) in if n < 128 then int n else int n - 256)"

definition is_upper :: "char \<Rightarrow> bool" where
  "is_upper c \<longleftrightarrow> 65 \<le> (of_char c :: nat) \<and> (of_char c :: nat) \<le> 90"

definition is_lower :: "char \<Rightarrow> bool" where
  "is_lower c \<longleftrightarrow> 97 \<le> (of_char c :: nat) \<and> (of_char c :: nat) \<le> 122"

definition is_alnum :: "char \<Rightarrow> bool" where
  "is_alnum c \<longleftrightarrow> is_digit c \<or> is_upper c \<or> is_lower c"

definition tolower_c :: "char \<Rightarrow> char" where
  "tolower_c c = (if is_upper c then char_of ((of_char c :: nat) + 32) else c)"

definition toupper_c :: "char \<Rightarrow> char" where
  "toupper_c c = (if is_lower c then char_of ((of_char c :: nat) - 32) else c)"

fun toUpper :: "string \<Rightarrow> string" where
  "toUpper [] = []"
| "toUpper (c # s) = toupper_c c # toUpper s"

fun toLower :: "string \<Rightarrow> string" where
  "toLower [] = []"
| "toLower (c # s) = tolower_c c # toLower s"

subsection \<open>Comparison\<close>

fun icompare :: "string \<Rightarrow> string \<Rightarrow> int" where
  "icompare (a # s) (b # t) =
     (if char_code (tolower_c a) < char_code (tolower_c b) then -1
      else if char_code (tolower_c a) > char_code (tolower_c b) then 1
      else icompare s t)"
| "icompare [] t = (if t = [] then 0 else -1)"
| "icompare (a # s) [] = 1"

text \<open>The overload that compares at most \<open>n\<close> characters from \<open>pos\<close> with an iterator range.\<close>

definition icompare_at :: "string \<Rightarrow> nat \<Rightarrow> nat \<Rightarrow> string \<Rightarrow> int" where
  "icompare_at str pos n t =
     (let sz = length str;
          pos = (if pos > sz then sz else pos);
          n = (if size_add pos n > sz then sz - pos else n)
      in icompare (take n (drop pos str)) t)"

subsection \<open>Trimming\<close>

fun trimLeft :: "string \<Rightarrow> string" where
  "trimLeft [] = []"
| "trimLeft (c # s) = (if is_space c then trimLeft s else c # s)"

text \<open>The loops \<^verbatim>\<open>while (pos >= lo && isspace(str[pos])) --pos\<close> and
  \<^verbatim>\<open>while (first <= last && isspace(str[first])) ++first\<close>.\<close>

function scan_back :: "string \<Rightarrow> int \<Rightarrow> int \<Rightarrow> int" where
  "scan_back str lo pos =
     (if 0 \<le> lo \<and> lo \<le> pos \<and> is_space (str ! nat pos) then scan_back str lo (pos - 1) else pos)"
  by pat_completeness auto
termination
  by (relation "measure (\<lambda>(str, lo, pos). nat (pos - lo + 1))") auto

function scan_fwd :: "string \<Rightarrow> int \<Rightarrow> int \<Rightarrow> int" where
  "scan_fwd str first hi =
     (if first \<le> hi \<and> is_space (str ! nat first) then scan_fwd str (first + 1) hi else first)"
  by pat_completeness auto
termination
  by (relation "measure (\<lambda>(str, first, hi). nat (hi - first + 1))") auto

declare scan_back.simps [simp del] scan_fwd.simps [simp del]

definition trimRight :: "string \<Rightarrow> string" where
  "trimRight str = take (nat (scan_back str 0 (int (length str) - 1) + 1)) str"

definition trim :: "string \<Rightarrow> string" where
  "trim str =
     (let first = scan_fwd str 0 (int (length str) - 1);
          hi = scan_back str first (int (length str) - 1)
      in take (nat (hi - first + 1)) (drop (nat first) str))"

subsection \<open>Searching, splitting and replacing\<close>

text \<open>\<^verbatim>\<open>str.find(sub, pos)\<close>; \<open>None\<close> is \<^verbatim>\<open>npos\<close>.\<close>

function find_sub :: "string \<Rightarrow> string \<Rightarrow> nat \<Rightarrow> nat option" where
  "find_sub s sub pos =
     (if pos + length sub > length s then None
      else if take (length sub) (drop pos s) = sub then Some pos
      else find_sub s sub (pos + 1))"
  by pat_completeness auto
termination
  by (relation "measure (\<lambda>(s, sub, pos). Suc (length s) - pos)") auto

declare find_sub.simps [simp del]

text \<open>\<^verbatim>\<open>str.substr(pos, n)\<close>, with \<open>None\<close> for a length of \<^verbatim>\<open>npos\<close>.\<close>

definition substr :: "string \<Rightarrow> nat \<Rightarrow> nat option \<Rightarrow> string result" where
  "substr s pos n =
     (if pos > length s then Inl OutOfRange
      else Inr (case n of None \<Rightarrow> drop pos s | Some n \<Rightarrow> take n (drop pos s)))"

text \<open>
  \<^verbatim>\<open>split(s, delim, elems, limit)\<close> for a delimiter string. After the last element of a
  limited split \<open>pos\<close> and \<open>prev\<close> are equal, so an empty element follows.
\<close>

lemma find_sub_Some:
  "find_sub s sub pos = Some i \<Longrightarrow>
     pos \<le> i \<and> i + length sub \<le> length s \<and> take (length sub) (drop i s) = sub"
proof (induction s sub pos rule: find_sub.induct)
  case (1 s sub pos)
  show ?case using 1 find_sub.simps [of s sub pos] by (auto split: if_splits)
qed

function split_loop :: "string \<Rightarrow> string \<Rightarrow> int \<Rightarrow> nat \<Rightarrow> nat \<Rightarrow> string list \<Rightarrow> string list result" where
  "split_loop s delim limit prev pos elems =
     (case find_sub s delim pos of
        None \<Rightarrow> bind_r (substr s prev None) (\<lambda>x. Inr (elems @ [x]))
      | Some i \<Rightarrow>
          if limit \<noteq> 0 \<and> int (length elems) + 1 = limit then
            bind_r (substr s prev (Some (length s - prev))) (\<lambda>x.
            bind_r (substr s (i + 1) (Some 0)) (\<lambda>y. Inr (elems @ [x, y])))
          else
            (case substr s prev (Some (i - prev)) of
               Inl e \<Rightarrow> Inl e
             | Inr x \<Rightarrow> split_loop s delim limit (i + 1) (i + 1) (elems @ [x])))"
  by pat_completeness auto
termination
  by (relation "measure (\<lambda>(s, delim, limit, prev, pos, elems). Suc (length s) - pos)")
    (auto dest: find_sub_Some)

declare split_loop.simps [simp del]

definition split :: "string \<Rightarrow> string \<Rightarrow> string list \<Rightarrow> int \<Rightarrow> string list result" where
  "split s delim elems limit = split_loop s delim limit 0 0 elems"

text \<open>
  \<^verbatim>\<open>split(s, delim, elems, limit)\<close> for a delimiter character, with \<^verbatim>\<open>std::getline\<close>. The
  stream position is \<open>-1\<close> once the end of the stream was hit, so the rest of the string is
  appended only when the loop ended at the limit and after a delimiter.
\<close>

function split_char_loop :: "string \<Rightarrow> char \<Rightarrow> int \<Rightarrow> string list \<Rightarrow> string list" where
  "split_char_loop s delim limit elems =
     (if s = [] then elems
      else let item = takeWhile (\<lambda>c. c \<noteq> delim) s;
               rest = dropWhile (\<lambda>c. c \<noteq> delim) s;
               elems = elems @ [item]
           in if limit \<noteq> 0 \<and> int (length elems) + 1 = limit
              then (if rest = [] then elems else elems @ [tl rest])
              else split_char_loop (tl rest) delim limit elems)"
  by pat_completeness auto
termination
proof (relation "measure (\<lambda>(s, delim, limit, elems). length s)", goal_cases)
  case (2 s delim limit elems item rest elems')
  then have "length rest \<le> length s" "0 < length s" by (simp_all add: length_dropWhile_le)
  then have "length rest - 1 < length s" by linarith
  then show ?case by simp
qed simp

declare split_char_loop.simps [simp del]

definition split_char :: "string \<Rightarrow> char \<Rightarrow> string list \<Rightarrow> int \<Rightarrow> string list" where
  "split_char s delim elems limit = split_char_loop s delim limit elems"

text \<open>\<^verbatim>\<open>replaceInPlace\<close>: the searched string must not be empty.\<close>

function replace_loop :: "string \<Rightarrow> string \<Rightarrow> string \<Rightarrow> nat \<Rightarrow> string \<Rightarrow> string" where
  "replace_loop str from to start result =
     (if from = [] then result
      else case find_sub str from start of
             Some pos \<Rightarrow> replace_loop str from to (pos + length from)
                            (result @ take (pos - start) (drop start str) @ to)
           | None \<Rightarrow> result @ drop start str)"
  by pat_completeness auto
termination
  by (relation "measure (\<lambda>(str, from, to, start, result). Suc (length str) - start)")
    (auto dest!: find_sub_Some simp: length_greater_0_conv [symmetric] simp del: length_greater_0_conv)

declare replace_loop.simps [simp del]

definition replaceInPlace :: "string \<Rightarrow> string \<Rightarrow> string \<Rightarrow> nat \<Rightarrow> string result" where
  "replaceInPlace str from to start =
     assert_r (from \<noteq> [])
       (if start > length str then Inl OutOfRange
        else Inr (replace_loop str from to start (take start str)))"

subsection \<open>Predicates and filters\<close>

definition isNumber :: "string \<Rightarrow> bool" where
  "isNumber str = list_all is_digit str"

text \<open>\<^verbatim>\<open>std::equal(suffix.rbegin(), suffix.rend(), str.rbegin())\<close> has no end for \<open>str\<close>.\<close>

fun equal_rev :: "string \<Rightarrow> string \<Rightarrow> bool result" where
  "equal_rev [] t = Inr True"
| "equal_rev (c # s) [] = Inl Undefined"
| "equal_rev (c # s) (d # t) = (if c = d then equal_rev s t else Inr False)"

definition endsWith :: "string \<Rightarrow> string \<Rightarrow> bool result" where
  "endsWith str suffix = equal_rev (rev suffix) (rev str)"

definition special_char :: "bool \<Rightarrow> char \<Rightarrow> bool" where
  "special_char allowSpaces c \<longleftrightarrow>
     \<not> is_alnum c \<and> (\<not> allowSpaces \<or> \<not> is_space c) \<and> c \<noteq> CHR ''.''"

text \<open>After erasing a character the loop moves on by one position all the same.\<close>

function remove_loop :: "bool \<Rightarrow> nat \<Rightarrow> string \<Rightarrow> string" where
  "remove_loop allowSpaces i str =
     (if i < length str then
        remove_loop allowSpaces (i + 1)
          (if special_char allowSpaces (str ! i) then take i str @ drop (i + 1) str else str)
      else str)"
  by pat_completeness auto
termination
  by (relation "measure (\<lambda>(a, i, str). length str - i)") auto

declare remove_loop.simps [simp del]

definition removeSpecialCharacters :: "string \<Rightarrow> bool \<Rightarrow> string" where
  "removeSpecialCharacters str allowSpaces = remove_loop allowSpaces 0 str"

definition replaceSpecialCharacters :: "string \<Rightarrow> char \<Rightarrow> bool \<Rightarrow> string" where
  "replaceSpecialCharacters str with_c allowSpaces =
     map (\<lambda>c. if special_char allowSpaces c then with_c else c) str"

text \<open>The copy that \<^verbatim>\<open>toLower\<close> returns is dropped.\<close>

definition toUnderscore :: "string \<Rightarrow> string" where
  "toUnderscore str =
     (let str = replaceSpecialCharacters str CHR ''_'' False; _ = toLower str in str)"

fun dumpbin_loop :: "bytes \<Rightarrow> nat \<Rightarrow> string" where
  "dumpbin_loop [] i = []"
| "dumpbin_loop (b # bs) i =
     map (\<lambda>k. if bit b (7 - k) then CHR ''1'' else CHR ''0'') [0, 1, 2, 3, 4, 5, 6, 7] @
     (if i mod 4 = 3 then CHR 0x0A else CHR '' '') # dumpbin_loop bs (i + 1)"

definition dumpbin :: "bytes \<Rightarrow> string" where
  "dumpbin data = dumpbin_loop data 0"

subsection \<open>Versions and nodes\<close>

text \<open>\<^verbatim>\<open>strtoi<int>\<close>: out of the range of a 32-bit \<^verbatim>\<open>int\<close> the extraction fails.\<close>

definition strtoi_int :: "string \<Rightarrow> int" where
  "strtoi_int s =
     (let s1 = dropWhile is_space s;
          neg = (s1 \<noteq> [] \<and> hd s1 = CHR ''-'');
          s2 = (if s1 \<noteq> [] \<and> (hd s1 = CHR ''-'' \<or> hd s1 = CHR ''+'') then tl s1 else s1);
          ds = takeWhile is_digit s2;
          v = (if neg then - int (dec_value ds) else int (dec_value ds))
      in if ds = [] \<or> v < - (2 ^ 31) \<or> 2 ^ 31 \<le> v then 0 else v)"

fun version_loop :: "string list \<Rightarrow> string list \<Rightarrow> bool \<Rightarrow> bool" where
  "version_loop [] rnums equal = (\<not> equal)"
| "version_loop (l # lnums) [] equal = (\<not> equal)"
| "version_loop (l # lnums) (r # rnums) equal =
     (if strtoi_int l < strtoi_int r then False
      else version_loop lnums rnums (if strtoi_int l > strtoi_int r then False else equal))"

definition compareVersion :: "string \<Rightarrow> string \<Rightarrow> bool result" where
  "compareVersion l r =
     (if l = [] then Inr False
      else if r = [] then Inr True
      else bind_r (split l ''.'' [] (-1)) (\<lambda>lnums.
           bind_r (split r ''.'' [] (-1)) (\<lambda>rnums.
             Inr (version_loop lnums rnums True))))"

fun match_loop :: "string list \<Rightarrow> string list \<Rightarrow> bool" where
  "match_loop params [] = True"
| "match_loop (p # params) (x # xparams) =
     (if x = ''*'' then match_loop params xparams
      else if x \<noteq> p then False
      else match_loop params xparams)"
| "match_loop [] (x # xparams) = False"

text \<open>An empty pattern list reads \<^verbatim>\<open>xparams[-1]\<close> when there are nodes to match.\<close>

definition matchNodes_list :: "string list \<Rightarrow> string list \<Rightarrow> bool result" where
  "matchNodes_list params xparams =
     (if length xparams > length params then Inr False
      else if length params > length xparams \<and> xparams = [] then Inl Undefined
      else if length params > length xparams \<and> last xparams \<noteq> ''*'' then Inr False
      else Inr (match_loop params xparams))"

definition matchNodes :: "string \<Rightarrow> string \<Rightarrow> string \<Rightarrow> bool result" where
  "matchNodes node xnode delim =
     (if xnode = ''*'' then Inr True
      else bind_r (split node delim [] (-1)) (\<lambda>params.
           bind_r (split xnode delim [] (-1)) (\<lambda>xparams.
             matchNodes_list params xparams)))"

subsection \<open>Comparison is an order\<close>

text \<open>Strings are compared by the codes of their lower-case characters, lexicographically.\<close>

definition ikey :: "string \<Rightarrow> int list" where
  "ikey s = map char_code (map tolower_c s)"

lemma ikey_simps [simp]:
  "ikey [] = []" "ikey (c # s) = char_code (tolower_c c) # ikey s"
  by (simp_all add: ikey_def)

lemma icompare_less: "icompare s t < 0 \<longleftrightarrow> ikey s < ikey t"
  by (induction s t rule: icompare.induct) (auto simp: neq_Nil_conv)

lemma icompare_zero: "icompare s t = 0 \<longleftrightarrow> ikey s = ikey t"
  by (induction s t rule: icompare.induct) (auto simp: neq_Nil_conv)

lemma icompare_refl [simp]: "icompare s s = 0"
  by (simp add: icompare_zero)

lemma of_char_bound: "(of_char c :: nat) < 256"
  by (simp add: of_char_def horner_sum_eq_sum)

lemma char_code_inj: "char_code a = char_code b \<longleftrightarrow> a = b"
proof
  define x y :: nat where "x = of_char a" and "y = of_char b"
  have "x < 256" "y < 256" unfolding x_def y_def by (rule of_char_bound)+
  moreover assume "char_code a = char_code b"
  ultimately have "x = y"
    unfolding char_code_def Let_def x_def [symmetric] y_def [symmetric] by (auto split: if_splits)
  then show "a = b" by (simp add: x_def y_def)
qed simp

lemma inj_char_code: "inj char_code"
  by (simp add: inj_def char_code_inj)

lemma toLower_map: "toLower s = map tolower_c s"
  by (induction s) auto

lemma icompare_zero_toLower: "icompare s t = 0 \<longleftrightarrow> toLower s = toLower t"
  unfolding icompare_zero ikey_def toLower_map by (rule inj_map_eq_map [OF inj_char_code])

subsection \<open>Trimming\<close>

lemma scan_back_take:
  "0 \<le> lo \<Longrightarrow> lo \<le> pos + 1 \<Longrightarrow> pos < int (length str) \<Longrightarrow>
   take (nat (scan_back str lo pos - lo + 1)) (drop (nat lo) str) =
     rev (dropWhile is_space (rev (take (nat (pos - lo + 1)) (drop (nat lo) str))))"
proof (induction str lo pos rule: scan_back.induct)
  case (1 str lo pos)
  show ?case
  proof (cases "lo \<le> pos")
    case True
    define k l where "k = nat (pos - lo)" and "l = nat lo"
    have k: "pos = int l + int k" "lo = int l" "l + k < length str" using True 1(2,4) by (auto simp: k_def l_def)
    have n: "nat (int l + int k) = l + k" "nat (int k + 1) = Suc k" by simp_all
    have sp: "take (Suc k) (drop l str) = take k (drop l str) @ [str ! (l + k)]"
      using k by (subst take_Suc_conv_app_nth) auto
    show ?thesis
    proof (cases "is_space (str ! (l + k))")
      case True
      have "take (nat (scan_back str lo (pos - 1) - lo + 1)) (drop (nat lo) str) =
          rev (dropWhile is_space (rev (take (nat (pos - 1 - lo + 1)) (drop (nat lo) str))))"
        by (rule 1(1)) (use True k n in auto)
      then show ?thesis using True k sp n
        by (subst scan_back.simps) simp
    next
      case False
      then show ?thesis using k sp n by (subst scan_back.simps) simp
    qed
  next
    case False
    then have "pos = lo - 1" using 1(3) by simp
    then show ?thesis by (subst scan_back.simps) simp
  qed
qed

lemma trimRight_eq: "trimRight s = rev (dropWhile is_space (rev s))"
  using scan_back_take [of 0 "int (length s) - 1" s] by (simp add: trimRight_def)

lemma trimLeft_eq: "trimLeft s = dropWhile is_space s"
  by (induction s) auto

lemma scan_fwd_drop:
  "0 \<le> first \<Longrightarrow> first \<le> int (length str) \<Longrightarrow>
   0 \<le> scan_fwd str first (int (length str) - 1) \<and> scan_fwd str first (int (length str) - 1) \<le> int (length str) \<and>
   drop (nat (scan_fwd str first (int (length str) - 1))) str = dropWhile is_space (drop (nat first) str)"
proof (induction str first "int (length str) - 1" rule: scan_fwd.induct)
  case (1 str first)
  show ?case
  proof (cases "first < int (length str)")
    case True
    define k where "k = nat first"
    have k: "first = int k" "k < length str" using True 1(2) by (auto simp: k_def)
    have sp: "drop k str = str ! k # drop (Suc k) str" using k by (simp add: Cons_nth_drop_Suc)
    show ?thesis
      using 1(1) k sp by (cases "is_space (str ! k)"; subst (1 2 3) scan_fwd.simps) (simp_all add: nat_add_distrib)
  next
    case False
    then show ?thesis using 1(2,3) by (subst (1 2 3) scan_fwd.simps) simp
  qed
qed

lemma trim_eq: "trim s = rev (dropWhile is_space (rev (dropWhile is_space s)))"
proof -
  define f where "f = scan_fwd s 0 (int (length s) - 1)"
  have f: "0 \<le> f" "f \<le> int (length s)" "drop (nat f) s = dropWhile is_space s"
    using scan_fwd_drop [of 0 s] by (auto simp: f_def)
  from f(3) have "length (dropWhile is_space s) = length s - nat f" by (metis length_drop)
  then show ?thesis using scan_back_take [of f "int (length s) - 1" s] f
    by (simp add: trim_def f_def [symmetric] Let_def nat_diff_distrib)
qed


subsection \<open>Fields\<close>

fun fields :: "char \<Rightarrow> string \<Rightarrow> string list" where
  "fields d [] = [[]]"
| "fields d (c # s) =
     (if c = d then [] # fields d s
      else case fields d s of [] \<Rightarrow> [[c]] | f # fs \<Rightarrow> (c # f) # fs)"

fun join :: "char \<Rightarrow> string list \<Rightarrow> string" where
  "join d [] = []"
| "join d [f] = f"
| "join d (f # fs) = f @ d # join d fs"

lemma fields_ne [simp]: "fields d s \<noteq> []"
  by (induction s) (auto split: list.splits)

lemma join_fields: "join d (fields d s) = s"
proof (induction s)
  case (Cons c s)
  then show ?case by (cases "fields d s"; cases "tl (fields d s)") auto
qed simp

lemma fields_free: "f \<in> set (fields d s) \<Longrightarrow> d \<notin> set f"
  by (induction s arbitrary: f) (fastforce split: if_splits list.splits)+

lemma fields_join: "fs \<noteq> [] \<Longrightarrow> list_all (\<lambda>f. d \<notin> set f) fs \<Longrightarrow> fields d (join d fs) = fs"
proof (induction d fs rule: join.induct)
  case (2 d f)
  then show ?case by (induction f) auto
next
  case (3 d f g fs)
  then have "fields d (join d (g # fs)) = g # fs" "d \<notin> set f" by simp_all
  then show ?case by (induction f) auto
qed simp

lemma fields_step:
  "fields d s = (if d \<in> set s then takeWhile (\<lambda>c. c \<noteq> d) s # fields d (tl (dropWhile (\<lambda>c. c \<noteq> d) s)) else [s])"
  by (induction s) auto

lemma find_sub_char:
  "p \<le> length s \<Longrightarrow> find_sub s [d] p =
    (if d \<in> set (drop p s) then Some (p + length (takeWhile (\<lambda>c. c \<noteq> d) (drop p s))) else None)"
proof (induction s "[d]" p rule: find_sub.induct)
  case (1 s p)
  show ?case
  proof (cases "p < length s")
    case True
    have "drop p s = s ! p # drop (Suc p) s" using True by (simp add: Cons_nth_drop_Suc)
    then show ?thesis using 1 True by (subst find_sub.simps) auto
  next
    case False
    then show ?thesis using 1 by (subst find_sub.simps) auto
  qed
qed

lemma drop_takeWhile_mem:
  "d \<in> set xs \<Longrightarrow> length (takeWhile (\<lambda>c. c \<noteq> d) xs) < length xs"
  by (induction xs) auto

lemma split_loop_fields:
  "p \<le> length s \<Longrightarrow> limit < 0 \<Longrightarrow> split_loop s [d] limit p p elems = Inr (elems @ fields d (drop p s))"
proof (induction "length s - p" arbitrary: p elems rule: less_induct)
  case less
  show ?case
  proof (cases "d \<in> set (drop p s)")
    case True
    define k where "k = length (takeWhile (\<lambda>c. c \<noteq> d) (drop p s))"
    have k: "p + k < length s" using drop_takeWhile_mem [OF True] by (simp add: k_def)
    have "takeWhile (\<lambda>c. c \<noteq> d) (drop p s) = take k (drop p s)"
      unfolding k_def by (rule takeWhile_eq_take)
    moreover have "tl (dropWhile (\<lambda>c. c \<noteq> d) (drop p s)) = drop (Suc (p + k)) s"
      by (simp add: k_def dropWhile_eq_drop add.commute [of p]) (simp add: drop_Suc tl_drop)
    ultimately have f: "fields d (drop p s) = take k (drop p s) # fields d (drop (Suc (p + k)) s)"
      using True fields_step [of d "drop p s"] by simp
    have "split_loop s [d] limit (Suc (p + k)) (Suc (p + k)) (elems @ [take k (drop p s)]) =
        Inr ((elems @ [take k (drop p s)]) @ fields d (drop (Suc (p + k)) s))"
      by (rule less(1)) (use k less in auto)
    then show ?thesis using True k less(2,3) f
      by (subst split_loop.simps) (simp add: find_sub_char k_def [symmetric] substr_def)
  next
    case False
    then show ?thesis using less(2) fields_step [of d "drop p s"]
      by (subst split_loop.simps) (simp add: find_sub_char substr_def)
  qed
qed

lemma split_fields: "limit < 0 \<Longrightarrow> split s [d] [] limit = Inr (fields d s)"
  by (simp add: split_def split_loop_fields)

subsection \<open>Nodes and versions\<close>

lemma match_loop_iff:
  "length xparams \<le> length params \<Longrightarrow>
   match_loop params xparams \<longleftrightarrow> list_all2 (\<lambda>x p. x = ''*'' \<or> x = p) xparams (take (length xparams) params)"
  by (induction params xparams rule: match_loop.induct) auto

lemma matchNodes_list_iff:
  "xparams \<noteq> [] \<Longrightarrow>
   matchNodes_list params xparams = Inr (
     length xparams \<le> length params \<and> (length xparams < length params \<longrightarrow> last xparams = ''*'') \<and>
     list_all2 (\<lambda>x p. x = ''*'' \<or> x = p) xparams (take (length xparams) params))"
  by (auto simp: matchNodes_list_def match_loop_iff)

lemma version_loop_iff:
  "version_loop ls rs equal \<longleftrightarrow>
     list_all (\<lambda>(l, r). strtoi_int r \<le> strtoi_int l) (zip ls rs) \<and>
     (\<not> equal \<or> list_ex (\<lambda>(l, r). strtoi_int r < strtoi_int l) (zip ls rs))"
  by (induction ls rs equal rule: version_loop.induct) auto

lemma strtoi_int_itostr: "n < 2 ^ 31 \<Longrightarrow> strtoi_int (itostr n) = int n"
proof -
  assume n: "n < 2 ^ 31"
  have d: "list_all is_digit (itostr n)" by (rule itostr_digits)
  then have "is_digit (hd (itostr n))" by (cases "itostr n") auto
  then have "hd (itostr n) \<noteq> CHR ''-''" "hd (itostr n) \<noteq> CHR ''+''"
    by (auto dest: is_digit_not_sign)
  moreover have "int n < 2 ^ 31" using n by simp
  ultimately show ?thesis
    by (simp add: strtoi_int_def Let_def digits_only [OF d])
qed

text \<open>A version number as text, and the parts it is split into.\<close>

definition version_text :: "nat list \<Rightarrow> string" where
  "version_text ns = join CHR ''.'' (map itostr ns)"

lemma version_text_ne: "version_text (n # ns) \<noteq> []"
  by (cases ns) (simp_all add: version_text_def)

lemma version_text_split: "split (version_text (n # ns)) ''.'' [] (-1) = Inr (map itostr (n # ns))"
proof -
  have "CHR ''.'' \<notin> set (itostr n)" for n
    by (rule itostr_only_digits) (simp add: is_digit_def)
  then have "list_all (\<lambda>f. CHR ''.'' \<notin> set f) (map itostr (n # ns))" by (simp add: list_all_iff)
  then show ?thesis
    unfolding version_text_def using fields_join [of "map itostr (n # ns)"]
    by (simp add: split_fields)
qed

lemma split_long_delimiter: "split ''a--b'' ''--'' [] (-1) = Inr [''a'', ''-b'']"
  by (simp add: split_def split_loop.simps find_sub.simps substr_def)

lemma split_limit_extra: "split ''a.b.c'' ''.'' [] 2 = Inr [''a'', ''b.c'', '''']"
  by (simp add: split_def split_loop.simps find_sub.simps substr_def)

lemma endsWith_short: "endsWith ''b'' ''ab'' = Inl Undefined"
  by (simp add: endsWith_def)

lemma removeSpecial_adjacent: "removeSpecialCharacters ''a!!b'' False = ''a!b''"
  by (simp add: removeSpecialCharacters_def remove_loop.simps special_char_def is_alnum_def
      is_digit_def is_upper_def is_lower_def)

lemma toUnderscore_keeps_case: "toUnderscore ''A b'' = ''A_b''"
  by (simp add: toUnderscore_def replaceSpecialCharacters_def special_char_def is_alnum_def
      is_digit_def is_upper_def is_lower_def)

subsection \<open>Properties\<close>

text \<open>
  Splitting at a delimiter character undoes joining: fields without the
  delimiter, joined by it, are what \<^verbatim>\<open>split\<close> returns; and every string is split into fields
  without the delimiter that join to it.
\<close>

theorem split_join:
  assumes "fs \<noteq> []" and "list_all (\<lambda>f. d \<notin> set f) fs"
  shows "split (join d fs) [d] [] (-1) = Inr fs \<and>
    (\<exists>gs. split s [d] [] (-1) = Inr gs \<and> join d gs = s \<and> list_all (\<lambda>f. d \<notin> set f) gs)"
  using assms fields_join [of fs d] join_fields [of d s] fields_free [of _ d s]
  by (auto simp: split_fields list_all_iff)

theorem split_join_witness:
  "split (join CHR ''.'' [''a'', '''', ''b'']) ''.'' [] (-1) = Inr [''a'', '''', ''b''] \<and>
    (\<exists>gs. split ''x.y'' ''.'' [] (-1) = Inr gs \<and> join CHR ''.'' gs = ''x.y'' \<and>
       list_all (\<lambda>f. CHR ''.'' \<notin> set f) gs)"
  by (rule split_join) simp_all

text \<open>
  \<^verbatim>\<open>matchNodes\<close> accepts exactly the node paths that fit the pattern: the
  pattern is a single star, or it is no longer than the path, ends in a star if it is shorter,
  and each of its nodes is a star or the node of the path at its place.
\<close>

theorem matchNodes_iff:
  assumes "list_all (\<lambda>f. d \<notin> set f) nodes" and "list_all (\<lambda>f. d \<notin> set f) pat"
    and "nodes \<noteq> []" and "pat \<noteq> []"
  shows "matchNodes (join d nodes) (join d pat) [d] = Inr (
    join d pat = ''*'' \<or>
    (length pat \<le> length nodes \<and> (length pat < length nodes \<longrightarrow> last pat = ''*'') \<and>
     list_all2 (\<lambda>x n. x = ''*'' \<or> x = n) pat (take (length pat) nodes)))"
  using assms by (simp add: matchNodes_def split_fields fields_join matchNodes_list_iff)

theorem matchNodes_iff_witness:
  "matchNodes (join CHR ''/'' ['''', ''a'', ''b'', ''c'']) (join CHR ''/'' ['''', ''*'', ''b'']) ''/'' = Inr False"
  by (subst matchNodes_iff) simp_all

text \<open>
  \<^verbatim>\<open>compareVersion\<close> does not compare versions: a version with a greater first
  component is not reported as greater when its second component is smaller, so that version 2.0
  does not count as newer than 1.5.
\<close>

theorem compareVersion_componentwise:
  assumes "c < a" and "b < d" and "a < 2 ^ 31" and "d < 2 ^ 31"
  shows "compareVersion (version_text [a, b]) (version_text [c, d]) = Inr False"
proof -
  have "c < 2 ^ 31" "b < 2 ^ 31" using assms by linarith+
  then show ?thesis using assms
    by (simp add: compareVersion_def version_text_ne version_text_split version_loop_iff strtoi_int_itostr)
qed

theorem compareVersion_componentwise_witness:
  "compareVersion (version_text [2, 0]) (version_text [1, 5]) = Inr False"
  by (rule compareVersion_componentwise) simp_all

end
