(* ===== verification/NV_Collection.thy ===== *)
theory NV_Collection
  imports String_Util
begin

text \<open>
  \<^verbatim>\<open>src/base/src/collection.cpp\<close>: \<^verbatim>\<open>NVCollection\<close>, the name-value collection that holds
  HTTP headers, cookies and form fields. It is a \<^verbatim>\<open>std::multimap\<close> ordered by the
  case-insensitive comparison \<^verbatim>\<open>ILT\<close>.

  The multimap is the list of its entries in iteration order: \<open>mm_insert\<close> puts an entry behind
  those with an equivalent name, \<open>mm_find\<close> is the first equivalent entry, \<open>mm_erase\<close> removes all
  of them. A comparison function makes a multimap work when it is a strict weak ordering: that is
  the locale \<open>weak_order\<close>, interpreted on \<^verbatim>\<open>ILT\<close>. The specification of the collection
  is a function that gives for each name the list of its values in order of insertion.
\<close>

type_synonym entry = "string \<times> string"
type_synonym nv = "entry list"

definition ILT :: "string \<Rightarrow> string \<Rightarrow> bool" where
  "ILT s1 s2 \<longleftrightarrow> icompare s1 s2 < 0"

subsection \<open>Multimaps\<close>

definition mm_equiv :: "('k \<Rightarrow> 'k \<Rightarrow> bool) \<Rightarrow> 'k \<Rightarrow> 'k \<Rightarrow> bool" where
  "mm_equiv lt a b \<longleftrightarrow> \<not> lt a b \<and> \<not> lt b a"

fun mm_insert :: "('k \<Rightarrow> 'k \<Rightarrow> bool) \<Rightarrow> 'k \<times> 'v \<Rightarrow> ('k \<times> 'v) list \<Rightarrow> ('k \<times> 'v) list" where
  "mm_insert lt e [] = [e]"
| "mm_insert lt e (x # xs) = (if lt (fst e) (fst x) then e # x # xs else x # mm_insert lt e xs)"

text \<open>The position of the first entry that is not before the key: \<^verbatim>\<open>find\<close> tests it.\<close>

fun mm_find :: "('k \<Rightarrow> 'k \<Rightarrow> bool) \<Rightarrow> 'k \<Rightarrow> ('k \<times> 'v) list \<Rightarrow> nat option" where
  "mm_find lt k [] = None"
| "mm_find lt k (x # xs) =
     (if lt (fst x) k then map_option Suc (mm_find lt k xs)
      else if lt k (fst x) then None else Some 0)"

definition mm_erase :: "('k \<Rightarrow> 'k \<Rightarrow> bool) \<Rightarrow> 'k \<Rightarrow> ('k \<times> 'v) list \<Rightarrow> ('k \<times> 'v) list" where
  "mm_erase lt k xs = filter (\<lambda>x. \<not> mm_equiv lt (fst x) k) xs"

definition mm_sorted :: "('k \<Rightarrow> 'k \<Rightarrow> bool) \<Rightarrow> ('k \<times> 'v) list \<Rightarrow> bool" where
  "mm_sorted lt xs = sorted_wrt (\<lambda>x y. \<not> lt (fst y) (fst x)) xs"

definition mm_values :: "('k \<Rightarrow> 'k \<Rightarrow> bool) \<Rightarrow> ('k \<times> 'v) list \<Rightarrow> 'k \<Rightarrow> 'v list" where
  "mm_values lt xs k = map snd (filter (\<lambda>x. mm_equiv lt (fst x) k) xs)"

locale weak_order =
  fixes lt :: "'k \<Rightarrow> 'k \<Rightarrow> bool"
  assumes irrefl: "\<not> lt a a"
    and trans: "lt a b \<Longrightarrow> lt b c \<Longrightarrow> lt a c"
    and equiv_trans: "mm_equiv lt a b \<Longrightarrow> mm_equiv lt b c \<Longrightarrow> mm_equiv lt a c"
begin

lemma equiv_refl: "mm_equiv lt a a"
  by (simp add: mm_equiv_def irrefl)

lemma equiv_sym: "mm_equiv lt a b \<Longrightarrow> mm_equiv lt b a"
  by (simp add: mm_equiv_def)

lemma not_lt_trans: "\<not> lt b a \<Longrightarrow> \<not> lt c b \<Longrightarrow> \<not> lt c a"
  using trans equiv_trans unfolding mm_equiv_def by blast

lemma insert_set: "set (mm_insert lt e xs) = insert e (set xs)"
  by (induction xs) auto

lemma insert_sorted: "mm_sorted lt xs \<Longrightarrow> mm_sorted lt (mm_insert lt e xs)"
proof (induction xs)
  case (Cons x xs)
  show ?case
  proof (cases "lt (fst e) (fst x)")
    case True
    then have "\<not> lt (fst y) (fst e)" if "y = x \<or> y \<in> set xs" for y
      using that Cons(2) trans irrefl not_lt_trans unfolding mm_sorted_def by (metis sorted_wrt.simps(2))
    with True Cons(2) show ?thesis by (auto simp: mm_sorted_def)
  next
    case False
    then show ?thesis using Cons by (auto simp: mm_sorted_def insert_set)
  qed
qed (simp add: mm_sorted_def)

lemma erase_sorted: "mm_sorted lt xs \<Longrightarrow> mm_sorted lt (mm_erase lt k xs)"
  by (simp add: mm_sorted_def mm_erase_def sorted_wrt_filter)

lemma find_None: "mm_sorted lt xs \<Longrightarrow> mm_find lt k xs = None \<longleftrightarrow> mm_values lt xs k = []"
proof (induction xs)
  case (Cons x xs)
  have "\<not> mm_equiv lt (fst y) k" if "lt k (fst x)" "y \<in> set xs" for y
    using that Cons(2) trans equiv_sym unfolding mm_sorted_def mm_equiv_def
    by (metis not_lt_trans sorted_wrt.simps(2))
  then show ?case using Cons by (auto simp: mm_sorted_def mm_values_def mm_equiv_def)
qed (simp add: mm_values_def)

lemma find_Some:
  "mm_sorted lt xs \<Longrightarrow> mm_find lt k xs = Some i \<Longrightarrow>
   i < length xs \<and> mm_equiv lt (fst (xs ! i)) k \<and> (\<forall>j<i. \<not> mm_equiv lt (fst (xs ! j)) k)"
proof (induction xs arbitrary: i)
  case (Cons x xs)
  show ?case
  proof (cases "lt (fst x) k")
    case True
    then obtain i' where "i = Suc i'" "mm_find lt k xs = Some i'" using Cons(3) by auto
    moreover have "mm_sorted lt xs" using Cons(2) by (simp add: mm_sorted_def)
    ultimately show ?thesis using Cons(1) [of i'] True
      by (auto simp: mm_equiv_def less_Suc_eq_0_disj)
  next
    case False
    then show ?thesis using Cons(3) by (auto simp: mm_equiv_def split: if_splits)
  qed
qed simp

end

context weak_order
begin

lemma equiv_left: "mm_equiv lt a b \<Longrightarrow> mm_equiv lt a c = mm_equiv lt b c"
  using equiv_trans equiv_sym by blast

lemma equiv_right: "mm_equiv lt a b \<Longrightarrow> mm_equiv lt c a = mm_equiv lt c b"
  using equiv_trans equiv_sym by blast

lemma values_equiv: "mm_equiv lt a b \<Longrightarrow> mm_values lt xs a = mm_values lt xs b"
  using equiv_right by (simp add: mm_values_def)

lemma values_insert:
  assumes "mm_sorted lt xs"
  shows "mm_values lt (mm_insert lt e xs) k =
    (if mm_equiv lt (fst e) k then mm_values lt xs k @ [snd e] else mm_values lt xs k)"
  using assms
proof (induction xs)
  case (Cons x xs)
  have "mm_values lt (x # xs) k = []" if "lt (fst e) (fst x)" "mm_equiv lt (fst e) k"
  proof -
    have "lt k (fst x)" using that trans not_lt_trans unfolding mm_equiv_def by blast
    then have "mm_find lt k (x # xs) = None" using trans irrefl by auto
    then show ?thesis using find_None [OF Cons(2)] by simp
  qed
  then show ?case using Cons by (auto simp: mm_sorted_def mm_values_def)
qed (simp add: mm_values_def)

lemma values_erase:
  "mm_values lt (mm_erase lt n xs) k = (if mm_equiv lt n k then [] else mm_values lt xs k)"
proof (cases "mm_equiv lt n k")
  case True
  then show ?thesis using equiv_right [of n k] by (simp add: mm_values_def mm_erase_def filter_empty_conv)
next
  case False
  have "\<not> mm_equiv lt x n" if "mm_equiv lt x k" for x
    using False equiv_left [OF that] equiv_sym by blast
  then have "filter (\<lambda>x. mm_equiv lt (fst x) k \<and> \<not> mm_equiv lt (fst x) n) xs =
      filter (\<lambda>x. mm_equiv lt (fst x) k) xs"
    by (auto intro: filter_cong)
  with False show ?thesis by (simp add: mm_values_def mm_erase_def conj_commute)
qed

lemma values_update:
  assumes "mm_sorted lt xs" and "mm_find lt n xs = Some i"
  shows "mm_values lt (xs[i := (fst (xs ! i), v)]) k =
      (if mm_equiv lt n k then v # tl (mm_values lt xs k) else mm_values lt xs k)"
    and "mm_sorted lt (xs[i := (fst (xs ! i), v)])"
    and "mm_values lt xs n \<noteq> [] \<and> hd (mm_values lt xs n) = snd (xs ! i)"
proof -
  note i = find_Some [OF assms]
  define x ys zs where "x = xs ! i" and "ys = take i xs" and "zs = drop (Suc i) xs"
  have xs: "xs = ys @ x # zs" and l: "length ys = i"
    using i by (simp_all add: x_def ys_def zs_def id_take_nth_drop [symmetric])
  have x: "mm_equiv lt (fst x) n" using i by (simp add: x_def)
  have ys: "\<not> mm_equiv lt (fst y) n" if "y \<in> set ys" for y
    using that i l by (auto simp: ys_def in_set_conv_nth)
  have up: "xs[i := (fst x, v)] = ys @ (fst x, v) # zs"
    unfolding xs by (simp add: l [symmetric])
  have eq: "mm_equiv lt (fst x) k = mm_equiv lt n k" using x equiv_trans equiv_sym by blast
  have ys': "filter (\<lambda>y. mm_equiv lt (fst y) k) ys = []" if "mm_equiv lt n k"
    using ys equiv_right [OF that] by (simp add: filter_empty_conv)
  show "mm_values lt (xs[i := (fst (xs ! i), v)]) k =
      (if mm_equiv lt n k then v # tl (mm_values lt xs k) else mm_values lt xs k)"
    using ys' eq unfolding x_def [symmetric] up by (auto simp: mm_values_def xs)
  show "mm_sorted lt (xs[i := (fst (xs ! i), v)])"
    using assms(1) unfolding x_def [symmetric] up by (auto simp: mm_sorted_def xs sorted_wrt_append)
  show "mm_values lt xs n \<noteq> [] \<and> hd (mm_values lt xs n) = snd (xs ! i)"
    using x ys unfolding x_def [symmetric] mm_values_def by (auto simp: xs filter_empty_conv)
qed

lemma takeWhile_values:
  "mm_sorted lt ys \<Longrightarrow> list_all (\<lambda>y. \<not> lt (fst y) k) ys \<Longrightarrow>
   takeWhile (\<lambda>y. mm_equiv lt (fst y) k) ys = filter (\<lambda>y. mm_equiv lt (fst y) k) ys"
proof (induction ys)
  case (Cons y ys)
  have "\<not> mm_equiv lt (fst z) k" if "\<not> mm_equiv lt (fst y) k" "z \<in> set ys" for z
  proof -
    have "lt k (fst y)" "\<not> lt (fst z) (fst y)"
      using that Cons(2,3) by (auto simp: mm_equiv_def mm_sorted_def)
    then show ?thesis using not_lt_trans [of "fst z" "fst y" k] by (auto simp: mm_equiv_def)
  qed
  then show ?case using Cons by (auto simp: mm_sorted_def filter_empty_conv)
qed simp

lemma find_values:
  assumes s: "mm_sorted lt xs" and f: "mm_find lt k xs = Some i"
  shows "map snd (takeWhile (\<lambda>y. mm_equiv lt (fst y) k) (drop i xs)) = mm_values lt xs k"
proof -
  note i = find_Some [OF s f]
  have xs: "xs = take i xs @ xs ! i # drop (Suc i) xs" using i by (simp add: id_take_nth_drop)
  have d: "drop i xs = xs ! i # drop (Suc i) xs" using i by (simp add: Cons_nth_drop_Suc)
  have sd: "mm_sorted lt (drop i xs)" using s by (simp add: mm_sorted_def sorted_wrt_drop)
  have "list_all (\<lambda>y. \<not> lt (fst y) k) (drop i xs)"
  proof -
    have "\<not> lt (fst (xs ! i)) k" using i by (simp add: mm_equiv_def)
    moreover have "\<not> lt (fst y) (fst (xs ! i))" if "y \<in> set (drop (Suc i) xs)" for y
      using that sd by (simp add: d mm_sorted_def)
    ultimately show ?thesis using i not_lt_trans [of "fst (xs ! i)" k]
      by (auto simp: d list_all_iff mm_equiv_def)
  qed
  then have "takeWhile (\<lambda>y. mm_equiv lt (fst y) k) (drop i xs) = filter (\<lambda>y. mm_equiv lt (fst y) k) (drop i xs)"
    by (rule takeWhile_values [OF sd])
  moreover have "filter (\<lambda>y. mm_equiv lt (fst y) k) (take i xs) = []"
    using i by (fastforce simp: filter_empty_conv in_set_conv_nth)
  moreover have "filter P xs = filter P (take i xs) @ filter P (drop i xs)" for P
    by (metis append_take_drop_id filter_append)
  ultimately show ?thesis by (simp add: mm_values_def)
qed

lemma insert_last:
  "list_all (\<lambda>x. \<not> lt (fst e) (fst x)) xs \<Longrightarrow> mm_insert lt e xs = xs @ [e]"
  by (induction xs) auto

lemma insert_sorted_all:
  "mm_sorted lt (xs @ ys) \<Longrightarrow> fold (mm_insert lt) ys xs = xs @ ys"
proof (induction ys arbitrary: xs)
  case (Cons y ys)
  have "list_all (\<lambda>x. \<not> lt (fst y) (fst x)) xs"
    using Cons(2) by (auto simp: mm_sorted_def sorted_wrt_append list_all_iff)
  then show ?case using Cons(1) [of "xs @ [y]"] Cons(2) by (simp add: insert_last)
qed simp

end

lemma mm_equiv_ILT: "mm_equiv ILT a b \<longleftrightarrow> ikey a = ikey b"
  by (auto simp: mm_equiv_def ILT_def icompare_less not_less order_antisym_conv)

interpretation ilt: weak_order ILT
  by unfold_locales (auto simp: mm_equiv_ILT ILT_def icompare_less)

subsection \<open>NVCollection\<close>

definition nv_set :: "nv \<Rightarrow> string \<Rightarrow> string \<Rightarrow> nv" where
  "nv_set c name value =
     (case mm_find ILT name c of
        Some i \<Rightarrow> c[i := (fst (c ! i), value)]
      | None \<Rightarrow> mm_insert ILT (name, value) c)"

definition nv_add :: "nv \<Rightarrow> string \<Rightarrow> string \<Rightarrow> nv" where
  "nv_add c name value = mm_insert ILT (name, value) c"

definition nv_get :: "nv \<Rightarrow> string \<Rightarrow> string result" where
  "nv_get c name =
     (case mm_find ILT name c of Some i \<Rightarrow> Inr (snd (c ! i)) | None \<Rightarrow> Inl RuntimeError)"

definition nv_index :: "nv \<Rightarrow> string \<Rightarrow> string result" where
  "nv_index c name =
     (case mm_find ILT name c of Some i \<Rightarrow> Inr (snd (c ! i)) | None \<Rightarrow> Inl RuntimeError)"

definition nv_get_default :: "nv \<Rightarrow> string \<Rightarrow> string \<Rightarrow> string" where
  "nv_get_default c name defaultValue =
     (case mm_find ILT name c of Some i \<Rightarrow> snd (c ! i) | None \<Rightarrow> defaultValue)"

definition nv_has :: "nv \<Rightarrow> string \<Rightarrow> bool" where
  "nv_has c name = (mm_find ILT name c \<noteq> None)"

definition nv_empty :: "nv \<Rightarrow> bool" where
  "nv_empty c = (c = [])"

text \<open>\<^verbatim>\<open>(int)_map.size()\<close>.\<close>

definition nv_size :: "nv \<Rightarrow> int" where
  "nv_size c = sint (word_of_nat (length c) :: u32)"

definition nv_erase :: "nv \<Rightarrow> string \<Rightarrow> nv" where
  "nv_erase c name = mm_erase ILT name c"

definition nv_clear :: "nv \<Rightarrow> nv" where
  "nv_clear c = []"

definition nv_assign :: "nv \<Rightarrow> nv \<Rightarrow> nv" where
  "nv_assign c other = other"

datatype nv_op = Set string string | Add string string | Erase string | Clear

fun nv_run :: "nv_op \<Rightarrow> nv \<Rightarrow> nv" where
  "nv_run (Set n v) c = nv_set c n v"
| "nv_run (Add n v) c = nv_add c n v"
| "nv_run (Erase n) c = nv_erase c n"
| "nv_run Clear c = nv_clear c"

subsection \<open>Specification\<close>

text \<open>Names are the same when they agree up to the case of letters.\<close>

definition same_name :: "string \<Rightarrow> string \<Rightarrow> bool" where
  "same_name a b \<longleftrightarrow> toLower a = toLower b"

fun spec_run :: "nv_op \<Rightarrow> (string \<Rightarrow> string list) \<Rightarrow> string \<Rightarrow> string list" where
  "spec_run (Set n v) f k = (if same_name n k then v # tl (f k) else f k)"
| "spec_run (Add n v) f k = (if same_name n k then f k @ [v] else f k)"
| "spec_run (Erase n) f k = (if same_name n k then [] else f k)"
| "spec_run Clear f k = []"

definition nv_values :: "nv \<Rightarrow> string \<Rightarrow> string list" where
  "nv_values c = mm_values ILT c"

definition nv_ok :: "nv \<Rightarrow> bool" where
  "nv_ok c = mm_sorted ILT c"

lemma same_name_equiv: "mm_equiv ILT a b = same_name a b"
  by (simp add: mm_equiv_ILT same_name_def icompare_zero [symmetric] icompare_zero_toLower)

lemma nv_ok_Nil [simp]: "nv_ok []"
  by (simp add: nv_ok_def mm_sorted_def)

lemma nv_values_Nil [simp]: "nv_values [] k = []"
  by (simp add: nv_values_def mm_values_def)

lemma nv_find:
  assumes "nv_ok c"
  shows "mm_find ILT n c = None \<Longrightarrow> nv_values c n = []"
    and "mm_find ILT n c = Some i \<Longrightarrow> nv_values c n \<noteq> [] \<and> hd (nv_values c n) = snd (c ! i)"
  using assms ilt.find_None [of c n] ilt.values_update(3) [of c n i]
  by (simp_all add: nv_ok_def nv_values_def)

lemma nv_set_ok: "nv_ok c \<Longrightarrow> nv_ok (nv_set c n v)"
  unfolding nv_ok_def nv_set_def
  by (auto split: option.split intro: ilt.insert_sorted ilt.values_update(2))

lemma nv_set_values:
  assumes "nv_ok c"
  shows "nv_values (nv_set c n v) k = (if same_name n k then v # tl (nv_values c k) else nv_values c k)"
proof (cases "mm_find ILT n c")
  case None
  have "nv_values c k = []" if "same_name n k"
    using nv_find(1) [OF assms None] ilt.values_equiv [of n k c] that
    by (simp add: nv_values_def same_name_equiv)
  with None assms show ?thesis
    using ilt.values_insert [of c "(n, v)" k] same_name_equiv
    by (simp add: nv_set_def nv_values_def nv_ok_def)
next
  case (Some i)
  with assms show ?thesis using ilt.values_update(1) [of c n i v k] same_name_equiv
    by (simp add: nv_set_def nv_values_def nv_ok_def)
qed

lemma nv_get_values:
  assumes "nv_ok c"
  shows "nv_get c n = (case nv_values c n of [] \<Rightarrow> Inl RuntimeError | v # _ \<Rightarrow> Inr v)"
    and "nv_index c n = nv_get c n"
    and "nv_get_default c n d = (case nv_values c n of [] \<Rightarrow> d | v # _ \<Rightarrow> v)"
    and "nv_has c n \<longleftrightarrow> nv_values c n \<noteq> []"
proof -
  have f: "mm_find ILT n c = None \<and> nv_values c n = [] \<or>
      (\<exists>i vs. mm_find ILT n c = Some i \<and> nv_values c n = snd (c ! i) # vs)"
    using nv_find [OF assms, of n] by (cases "mm_find ILT n c"; cases "nv_values c n") auto
  show "nv_get c n = (case nv_values c n of [] \<Rightarrow> Inl RuntimeError | v # _ \<Rightarrow> Inr v)"
    using f by (auto simp: nv_get_def)
  show "nv_index c n = nv_get c n" by (simp add: nv_get_def nv_index_def)
  show "nv_get_default c n d = (case nv_values c n of [] \<Rightarrow> d | v # _ \<Rightarrow> v)"
    using f by (auto simp: nv_get_default_def)
  show "nv_has c n \<longleftrightarrow> nv_values c n \<noteq> []" using f by (auto simp: nv_has_def)
qed

lemma nv_run_spec:
  assumes "nv_ok c"
  shows "nv_ok (nv_run a c)" and "nv_values (nv_run a c) = spec_run a (nv_values c)"
proof -
  show "nv_ok (nv_run a c)" using assms
    by (cases a) (simp_all add: nv_set_ok, simp_all add: nv_add_def nv_erase_def nv_clear_def nv_ok_def
        ilt.insert_sorted ilt.erase_sorted, simp add: mm_sorted_def)
  show "nv_values (nv_run a c) = spec_run a (nv_values c)"
  proof
    fix k
    show "nv_values (nv_run a c) k = spec_run a (nv_values c) k" using assms
    proof (cases a)
      case (Set n v)
      then show ?thesis using assms by (simp add: nv_set_values)
    next
      case (Add n v)
      then show ?thesis using assms
        by (simp add: nv_add_def nv_values_def nv_ok_def ilt.values_insert same_name_equiv)
    next
      case (Erase n)
      then show ?thesis by (simp add: nv_erase_def nv_values_def ilt.values_erase same_name_equiv)
    next
      case Clear
      then show ?thesis by (simp add: nv_clear_def)
    qed
  qed
qed

lemma same_name_refl [simp]: "same_name a a"
  by (simp add: same_name_def)

lemma nv_get_set:
  "nv_ok c \<Longrightarrow> nv_get_default (nv_set c n v) k d = (if same_name n k then v else nv_get_default c k d)"
  by (simp add: nv_get_values nv_set_ok nv_set_values)

lemma nv_has_set: "nv_ok c \<Longrightarrow> nv_has (nv_set c n v) k \<longleftrightarrow> same_name n k \<or> nv_has c k"
  by (simp add: nv_get_values nv_set_ok nv_set_values)

lemma nv_erase_ok: "nv_ok c \<Longrightarrow> nv_ok (nv_erase c n)"
  using nv_run_spec(1) [of c "Erase n"] by simp

lemma nv_get_erase:
  "nv_ok c \<Longrightarrow> nv_get_default (nv_erase c n) k d = (if same_name n k then d else nv_get_default c k d)"
  using nv_run_spec(2) [of c "Erase n"] by (simp add: nv_get_values nv_erase_ok)

subsection \<open>Properties\<close>

text \<open>
  C17 (refinement). Any sequence of operations on an \<^verbatim>\<open>NVCollection\<close> acts as on a function
  from names, taken up to case, to lists of values: \<^verbatim>\<open>set\<close> replaces the first value or
  adds one, \<^verbatim>\<open>add\<close> appends a value, \<^verbatim>\<open>erase\<close> drops all values of the name. \<^verbatim>\<open>get\<close>,
  \<^verbatim>\<open>operator[]\<close> and \<^verbatim>\<open>has\<close> then answer from the first value, the first two throw
  when there is none, and the entries stay ordered.
\<close>

theorem nv_refines:
  "let c = fold nv_run ops []; f = fold spec_run ops (\<lambda>_. []) in
     nv_ok c \<and> nv_values c = f \<and>
     nv_get c n = (case f n of [] \<Rightarrow> Inl RuntimeError | v # _ \<Rightarrow> Inr v) \<and>
     nv_index c n = nv_get c n \<and>
     nv_get_default c n d = (case f n of [] \<Rightarrow> d | v # _ \<Rightarrow> v) \<and>
     nv_has c n = (f n \<noteq> [])"
proof -
  have run: "nv_ok c \<Longrightarrow> nv_ok (fold nv_run ops c) \<and>
      nv_values (fold nv_run ops c) = fold spec_run ops (nv_values c)" for c
    by (induction ops arbitrary: c) (simp_all add: nv_run_spec)
  have "nv_values [] = (\<lambda>_. [])" by (simp add: fun_eq_iff)
  then show ?thesis using run [of "[]"] by (simp add: Let_def nv_get_values)
qed

end
