(* ===== verification/Http_Util.thy ===== *)
theory Http_Util
  imports NV_Collection
begin

text \<open>
  \<^verbatim>\<open>src/http/src/util.cpp\<close> and the percent encoding of \<^verbatim>\<open>src/http/src/url.cpp\<close>:
  parsing of request lines, cookies, URI parameters and header parameters.

  The iterator loops run over the rest of the text; the loops over positions read
  \<^verbatim>\<open>uri[i]\<close>, which is the terminating zero character at \<open>i = length uri\<close> and undefined beyond.
\<close>

subsection \<open>util.cpp\<close>

text \<open>\<^verbatim>\<open>parseURI\<close>: the upper-case copy of the request is dropped, so the search is case-sensitive.\<close>

definition parseURI :: "string \<Rightarrow> string" where
  "parseURI request =
     (case find_sub request '' '' 0 of
        None \<Rightarrow> ''''
      | Some i \<Rightarrow>
          let start = i + 1;
              fin = find_sub request '' HTTPS'' start;
              fin = (if fin = None then find_sub request '' HTTP'' start else fin);
              fin = (if fin = None then find_sub request '' RTSP'' start else fin)
          in case fin of
               None \<Rightarrow> ''''
             | Some j \<Rightarrow> take (j - start) (drop start request))"

definition matchURL :: "string \<Rightarrow> string \<Rightarrow> bool result" where
  "matchURL uri expression =
     matchNodes (case find_sub uri ''?'' 0 of None \<Rightarrow> uri | Some i \<Rightarrow> take i uri) expression ''/''"

definition parseCookieItem :: "string \<Rightarrow> string \<Rightarrow> string" where
  "parseCookieItem cookie item =
     (case find_sub cookie (item @ ''='') 0 of
        None \<Rightarrow> ''''
      | Some i \<Rightarrow>
          let start = i + length item + 1
          in case find_sub cookie '';'' start of
               None \<Rightarrow> drop start cookie
             | Some j \<Rightarrow> take (j - start) (drop start cookie))"

definition char_at :: "string \<Rightarrow> nat \<Rightarrow> char result" where
  "char_at s i =
     (if i < length s then Inr (s ! i) else if i = length s then Inr (CHR 0x00) else Inl Undefined)"

text \<open>\<^verbatim>\<open>while (stop not reached at uri[i] && i < len) value += uri[i++];\<close>\<close>

function scan_until :: "(char \<Rightarrow> bool) \<Rightarrow> string \<Rightarrow> nat \<Rightarrow> string \<Rightarrow> (string \<times> nat) result" where
  "scan_until stop uri i acc =
     (case char_at uri i of
        Inl e \<Rightarrow> Inl e
      | Inr c \<Rightarrow> if \<not> stop c \<and> i < length uri then scan_until stop uri (i + 1) (acc @ [c])
                 else Inr (acc, i))"
  by pat_completeness auto
termination
  by (relation "measure (\<lambda>(stop, uri, i, acc). length uri - i)") auto

declare scan_until.simps [simp del]

lemma scan_until_ge: "scan_until stop uri i acc = Inr (v, j) \<Longrightarrow> i \<le> j"
proof (induction stop uri i acc rule: scan_until.induct)
  case (1 stop uri i acc)
  then show ?case
    using scan_until.simps [of stop uri i acc]
    by (cases "char_at uri i") (fastforce split: if_splits)+
qed

definition int_text :: "int \<Rightarrow> string" where
  "int_text n = (if n < 0 then CHR ''-'' # itostr (nat (- n)) else itostr (nat n))"

function rest_params :: "string \<Rightarrow> nat \<Rightarrow> nv \<Rightarrow> (nat \<times> nv) result" where
  "rest_params uri i out =
     (if i < length uri \<and> uri ! i \<noteq> CHR ''?'' then
        (case scan_until (\<lambda>c. c = CHR ''/'' \<or> c = CHR ''?'') uri (i + 1) [] of
           Inl e \<Rightarrow> Inl e
         | Inr (value, j) \<Rightarrow>
             rest_params uri j (if value \<noteq> [] then nv_set out (int_text (nv_size out)) value else out))
      else Inr (i, out))"
  by pat_completeness auto
termination
  by (relation "measure (\<lambda>(uri, i, out). length uri - i)") (auto dest!: scan_until_ge)

function query_params :: "string \<Rightarrow> nat \<Rightarrow> nv \<Rightarrow> nv result" where
  "query_params uri i out =
     (if i < length uri then
        (case scan_until (\<lambda>c. c = CHR ''='') uri i [] of
           Inl e \<Rightarrow> Inl e
         | Inr (name, j) \<Rightarrow>
             (case scan_until (\<lambda>c. c = CHR ''&'') uri (j + 1) [] of
                Inl e \<Rightarrow> Inl e
              | Inr (value, k) \<Rightarrow>
                  query_params uri (k + 1)
                    (if name \<noteq> [] \<and> value \<noteq> [] then nv_set out name value else out)))
      else Inr out)"
  by pat_completeness auto
termination
  by (relation "measure (\<lambda>(uri, i, out). length uri - i)") (auto dest!: scan_until_ge)

declare rest_params.simps [simp del] query_params.simps [simp del]

definition splitURIParameters :: "string \<Rightarrow> nv \<Rightarrow> (bool \<times> nv) result" where
  "splitURIParameters uri out =
     bind_r (rest_params uri 0 out) (\<lambda>(i, out).
     bind_r (char_at uri i) (\<lambda>c.
     bind_r (query_params uri (if c = CHR ''?'' then i + 1 else i) out) (\<lambda>out.
       Inr (nv_size out > 0, out))))"

text \<open>The value of a parameter: quoted text and escapes are unquoted.\<close>

fun quoted_loop :: "string \<Rightarrow> string \<Rightarrow> string \<times> string" where
  "quoted_loop [] pvalue = (pvalue, [])"
| "quoted_loop (c # it) pvalue =
     (if c = CHR 0x22 then (pvalue, it)
      else if c = CHR 0x5C then
        (case it of [] \<Rightarrow> (pvalue, []) | d # it \<Rightarrow> quoted_loop it (pvalue @ [d]))
      else quoted_loop it (pvalue @ [c]))"

lemma quoted_loop_shorter: "length (snd (quoted_loop it pvalue)) \<le> length it"
proof (induction it pvalue rule: quoted_loop.induct)
  case (2 c it pvalue)
  then show ?case by (cases it) (simp_all add: le_SucI)
qed simp

function value_loop :: "string \<Rightarrow> string \<Rightarrow> string \<times> string" where
  "value_loop [] pvalue = (pvalue, [])"
| "value_loop (c # it) pvalue =
     (if c = CHR '';'' then (pvalue, c # it)
      else if c = CHR 0x22 then
        value_loop (snd (quoted_loop it pvalue)) (fst (quoted_loop it pvalue))
      else if c = CHR 0x5C then
        (case it of [] \<Rightarrow> (pvalue, []) | d # it \<Rightarrow> value_loop it (pvalue @ [d]))
      else value_loop it (pvalue @ [c]))"
  by pat_completeness auto
termination
  by (relation "measure (\<lambda>(it, pvalue). length it)")
    (auto simp: less_Suc_eq_le quoted_loop_shorter)

lemma value_loop_shorter: "length (snd (value_loop it pvalue)) \<le> length it"
proof (induction it pvalue rule: value_loop.induct)
  case (2 c it pvalue)
  have q: "length (snd (quoted_loop it pvalue)) \<le> length it" by (rule quoted_loop_shorter)
  consider (s) "c = CHR '';''" | (q) "c = CHR 0x22" | (b) "c = CHR 0x5C"
    | (n) "c \<noteq> CHR '';''" "c \<noteq> CHR 0x22" "c \<noteq> CHR 0x5C" by blast
  then show ?case
  proof cases
    case q
    then show ?thesis using 2(1) \<open>length (snd (quoted_loop it pvalue)) \<le> length it\<close>
      by (simp del: quoted_loop.simps)
  next
    case b
    then show ?thesis using 2(2) by (cases it) (simp_all del: value_loop.simps(2) add: value_loop.simps(2) [of "CHR 0x5C"] le_SucI)
  next
    case n
    then show ?thesis using 2(3) by (simp add: le_SucI)
  qed simp
qed simp

text \<open>One turn of the loop: the name, the value, and the rest of the text.\<close>

definition param_step :: "string \<Rightarrow> string \<times> string \<times> string" where
  "param_step it =
     (let it = dropWhile is_space it;
          pname = takeWhile (\<lambda>c. c \<noteq> CHR ''='' \<and> c \<noteq> CHR '';'') it;
          it = dropWhile (\<lambda>c. c \<noteq> CHR ''='' \<and> c \<noteq> CHR '';'') it;
          it = (if it \<noteq> [] \<and> hd it \<noteq> CHR '';'' then tl it else it);
          it = dropWhile is_space it;
          (pvalue, it) = value_loop it []
      in (trimRight pname, trimRight pvalue, if it \<noteq> [] then tl it else it))"

lemma param_step_shorter: "it \<noteq> [] \<Longrightarrow> length (snd (snd (param_step it))) < length it"
proof -
  assume ne: "it \<noteq> []"
  define i1 where "i1 = dropWhile is_space it"
  define i2 where "i2 = dropWhile (\<lambda>c. c \<noteq> CHR ''='' \<and> c \<noteq> CHR '';'') i1"
  define i3 where "i3 = (if i2 \<noteq> [] \<and> hd i2 \<noteq> CHR '';'' then tl i2 else i2)"
  define i4 where "i4 = snd (value_loop (dropWhile is_space i3) [])"
  have "length i1 \<le> length it" "length i2 \<le> length i1" "length i3 \<le> length i2"
    by (simp_all add: i1_def i2_def i3_def length_dropWhile_le)
  moreover have "length i4 \<le> length i3" unfolding i4_def
    by (rule order_trans [OF value_loop_shorter length_dropWhile_le])
  ultimately have "length i4 \<le> length it" by simp
  moreover have "snd (snd (param_step it)) = (if i4 \<noteq> [] then tl i4 else i4)"
    by (simp add: param_step_def Let_def split_beta i1_def i2_def i3_def i4_def)
  ultimately show ?thesis using ne by (cases i4) auto
qed

function params_loop :: "string \<Rightarrow> nv \<Rightarrow> nv" where
  "params_loop it parameters =
     (if it = [] then parameters
      else case param_step it of
             (pname, pvalue, rest) \<Rightarrow>
               params_loop rest (if pname \<noteq> [] then nv_add parameters pname pvalue else parameters))"
  by pat_completeness auto
termination
proof (relation "measure (\<lambda>(it, parameters). length it)", goal_cases)
  case (2 it parameters pname y pvalue rest)
  then have "rest = snd (snd (param_step it))" by (metis snd_conv)
  with 2 show ?case using param_step_shorter [of it] by simp
qed simp

declare params_loop.simps [simp del]

definition splitParameters :: "string \<Rightarrow> string \<times> nv" where
  "splitParameters s =
     (let it = dropWhile is_space s;
          value = takeWhile (\<lambda>c. c \<noteq> CHR '';'') it;
          it = dropWhile (\<lambda>c. c \<noteq> CHR '';'') it;
          value = trimRight value;
          it = (if it \<noteq> [] then tl it else it)
      in (value, params_loop it (nv_clear [])))"

subsection \<open>Percent encoding\<close>

definition unreserved :: string where
  "unreserved = ''ABCDEFGHIJKLMNOPQRSTUVWXYZabcdefghijklmnopqrstuvwxyz0123456789-_.~''"

definition hex_upper :: string where
  "hex_upper = ''0123456789ABCDEF''"

text \<open>
  \<^verbatim>\<open>sprintf(buf, "%.2X", c)\<close> into three bytes: a negative \<^verbatim>\<open>char\<close> is promoted to a negative
  \<^verbatim>\<open>int\<close> and prints as eight digits.
\<close>

fun URL_encode :: "string \<Rightarrow> string result" where
  "URL_encode [] = Inr []"
| "URL_encode (c # s) =
     (if c \<in> set unreserved then bind_r (URL_encode s) (\<lambda>r. Inr (c # r))
      else if char_code c < 0 then Inl Undefined
      else bind_r (URL_encode s) (\<lambda>r.
             Inr (CHR ''%'' # hex_upper ! (of_char c div 16) # hex_upper ! (of_char c mod 16) # r)))"

text \<open>\<^verbatim>\<open>digits.find(c)\<close>, with \<^verbatim>\<open>npos\<close> for a character that is no digit.\<close>

definition digits_find :: "char \<Rightarrow> nat" where
  "digits_find c =
     (case find_sub hex_upper [c] 0 of Some i \<Rightarrow> i | None \<Rightarrow> size_max - 1)"

function URL_decode_loop :: "string \<Rightarrow> nat \<Rightarrow> string \<Rightarrow> string result" where
  "URL_decode_loop str i clean =
     (if i < length str then
        (if str ! i = CHR ''%'' then
           (case (char_at str (i + 1), char_at str (i + 2)) of
              (Inr a, Inr b) \<Rightarrow>
                URL_decode_loop str (i + 3)
                  (clean @ [char_of ((digits_find a * 16 + digits_find b) mod size_max)])
            | _ \<Rightarrow> Inl Undefined)
         else URL_decode_loop str (i + 1) (clean @ [str ! i]))
      else Inr clean)"
  by pat_completeness auto
termination
  by (relation "measure (\<lambda>(str, i, clean). length str - i)") auto

declare URL_decode_loop.simps [simp del]

definition URL_decode :: "string \<Rightarrow> string result" where
  "URL_decode str = URL_decode_loop str 0 []"

subsection \<open>Percent encoding and decoding\<close>

lemma find_sub_hit: "pos < length s \<Longrightarrow> s ! pos = c \<Longrightarrow> find_sub s [c] pos = Some pos"
  by (subst find_sub.simps) (simp add: take_Suc_conv_app_nth)

lemma find_sub_next: "pos < length s \<Longrightarrow> s ! pos \<noteq> c \<Longrightarrow> find_sub s [c] pos = find_sub s [c] (Suc pos)"
  by (subst find_sub.simps) (simp add: take_Suc_conv_app_nth)

lemma find_sub_nth: "distinct s \<Longrightarrow> d < length s \<Longrightarrow> find_sub s [s ! d] 0 = Some d"
proof -
  assume d: "distinct s" "d < length s"
  have "takeWhile (\<lambda>c. c \<noteq> s ! d) s = take d s"
    by (rule takeWhile_eq_take_P_nth) (use d in \<open>auto simp: nth_eq_iff_index_eq\<close>)
  with d show ?thesis by (simp add: find_sub_char)
qed

lemma hex_upper_nth: "d < 16 \<Longrightarrow> digits_find (hex_upper ! d) = d"
  using find_sub_nth [of hex_upper d] by (simp add: digits_find_def hex_upper_def)

lemma char_at_append:
  "char_at (pre @ c # s) (length pre) = Inr c"
  "char_at (pre @ c # d # s) (Suc (length pre)) = Inr d"
  "char_at (pre @ c # d # e # s) (Suc (Suc (length pre))) = Inr e"
  by (simp_all add: char_at_def nth_append)

lemma percent_reserved: "CHR ''%'' \<notin> set unreserved"
  by (simp add: unreserved_def)

lemma decode_step_plain:
  "c \<noteq> CHR ''%'' \<Longrightarrow>
   URL_decode_loop (pre @ c # s) (length pre) clean =
     URL_decode_loop ((pre @ [c]) @ s) (length (pre @ [c])) (clean @ [c])"
  by (subst URL_decode_loop.simps) simp

lemma decode_step_escape:
  assumes "a < 16" and "b < 16"
  shows "URL_decode_loop (pre @ CHR ''%'' # hex_upper ! a # hex_upper ! b # s) (length pre) clean =
     URL_decode_loop ((pre @ [CHR ''%'', hex_upper ! a, hex_upper ! b]) @ s)
       (length (pre @ [CHR ''%'', hex_upper ! a, hex_upper ! b])) (clean @ [char_of (a * 16 + b)])"
proof -
  have "a * 16 + b < size_max" using assms by simp
  then show ?thesis
    using assms by (subst URL_decode_loop.simps) (simp add: char_at_append hex_upper_nth numeral_3_eq_3)
qed

lemma decode_encode:
  "URL_encode s = Inr e \<Longrightarrow> URL_decode_loop (pre @ e) (length pre) clean = Inr (clean @ s)"
proof (induction s arbitrary: e pre clean)
  case Nil
  then show ?case by (simp add: URL_decode_loop.simps)
next
  case (Cons c s)
  show ?case
  proof (cases "c \<in> set unreserved")
    case True
    then have "c \<noteq> CHR ''%''" using percent_reserved by blast
    moreover obtain r where "URL_encode s = Inr r" "e = c # r" using Cons(2) True by (auto simp: bind_r_eq_Inr)
    ultimately show ?thesis using Cons(1) [of r "pre @ [c]" "clean @ [c]"] decode_step_plain by simp
  next
    case False
    have b: "(of_char c :: nat) < 256" by (rule of_char_bound)
    have "of_char c div 16 < (16::nat)" using b by linarith
    moreover have "of_char c mod 16 < (16::nat)" by simp
    moreover have "char_of (of_char c div 16 * 16 + of_char c mod (16::nat)) = c" by simp
    moreover obtain r where "URL_encode s = Inr r"
      "e = CHR ''%'' # hex_upper ! (of_char c div 16) # hex_upper ! (of_char c mod 16) # r"
      using Cons(2) False by (auto simp: bind_r_eq_Inr split: if_splits)
    ultimately show ?thesis
      using Cons(1) [of r "pre @ [CHR ''%'', hex_upper ! (of_char c div 16), hex_upper ! (of_char c mod 16)]" "clean @ [c]"]
        decode_step_escape by simp
  qed
qed

lemma encode_ascii: "list_all (\<lambda>c. 0 \<le> char_code c) s \<Longrightarrow> \<exists>e. URL_encode s = Inr e"
  by (induction s) auto

subsection \<open>Header parameters\<close>

definition value_char :: "char \<Rightarrow> bool" where
  "value_char c \<longleftrightarrow> c \<noteq> CHR '';'' \<and> c \<noteq> CHR 0x22 \<and> c \<noteq> CHR 0x5C"

text \<open>Names and values that need no quoting.\<close>

definition trimmed :: "string \<Rightarrow> bool" where
  "trimmed s \<longleftrightarrow> s = [] \<or> (\<not> is_space (hd s) \<and> \<not> is_space (last s))"

definition plain_param :: "string \<times> string \<Rightarrow> bool" where
  "plain_param p \<longleftrightarrow>
     fst p \<noteq> [] \<and> trimmed (fst p) \<and> list_all (\<lambda>c. c \<noteq> CHR ''='' \<and> c \<noteq> CHR '';'') (fst p) \<and>
     trimmed (snd p) \<and> list_all value_char (snd p)"

lemma trimmed_trimRight: "trimmed s \<Longrightarrow> trimRight s = s"
  by (cases s rule: rev_cases) (auto simp: trimmed_def trimRight_eq)

lemma value_loop_plain: "list_all value_char v \<Longrightarrow> value_loop (v @ rest) acc = value_loop rest (acc @ v)"
  by (induction v arbitrary: acc) (auto simp: value_char_def)

lemma dropWhile_space_trimmed:
  "trimmed v \<Longrightarrow> rest = [] \<or> hd rest = CHR '';'' \<Longrightarrow> dropWhile is_space (v @ rest) = v @ rest"
  by (cases v; cases rest) (auto simp: trimmed_def is_space_def)

lemma takeWhile_name:
  "list_all P n \<Longrightarrow> \<not> P c \<Longrightarrow> takeWhile P (n @ c # s) = n \<and> dropWhile P (n @ c # s) = c # s"
  by (induction n) auto

lemma param_step_plain:
  assumes p: "plain_param (n, v)" and rest: "rest = [] \<or> hd rest = CHR '';''"
  shows "param_step (n @ CHR ''='' # v @ rest) = (n, v, if rest \<noteq> [] then tl rest else rest)"
proof -
  have n: "n \<noteq> []" "trimmed n" "trimmed v" "list_all value_char v" using p by (simp_all add: plain_param_def)
  have 1: "dropWhile is_space (n @ CHR ''='' # v @ rest) = n @ CHR ''='' # v @ rest"
    using n(1,2) by (cases n) (auto simp: trimmed_def)
  have "list_all (\<lambda>c. c \<noteq> CHR ''='' \<and> c \<noteq> CHR '';'') n" using p by (simp add: plain_param_def)
  then have 2: "takeWhile (\<lambda>c. c \<noteq> CHR ''='' \<and> c \<noteq> CHR '';'') (n @ CHR ''='' # v @ rest) = n \<and>
      dropWhile (\<lambda>c. c \<noteq> CHR ''='' \<and> c \<noteq> CHR '';'') (n @ CHR ''='' # v @ rest) = CHR ''='' # v @ rest"
    by (rule takeWhile_name) simp
  have 3: "value_loop (v @ rest) [] = (v, rest)"
    using rest value_loop_plain [OF n(4), of rest "[]"] by (cases rest) auto
  show ?thesis
    using n rest by (simp add: param_step_def 1 2 3 dropWhile_space_trimmed trimmed_trimRight)
qed

lemma param_step_space: "param_step (CHR '' '' # s) = param_step s"
  by (simp add: param_step_def is_space_def)

text \<open>The text of a list of parameters, as \<^verbatim>\<open>setCookies\<close> writes it.\<close>

fun params_text :: "nv \<Rightarrow> string" where
  "params_text [] = []"
| "params_text [(n, v)] = n @ CHR ''='' # v"
| "params_text ((n, v) # ps) = n @ CHR ''='' # v @ CHR '';'' # CHR '' '' # params_text ps"

lemma params_loop_space: "s \<noteq> [] \<Longrightarrow> params_loop (CHR '' '' # s) c = params_loop s c"
  by (subst (1 2) params_loop.simps) (simp add: param_step_space)

lemma params_loop_text:
  "list_all plain_param ps \<Longrightarrow>
   params_loop (params_text ps) c = fold (\<lambda>(n, v) c. nv_add c n v) ps c"
proof (induction ps arbitrary: c rule: params_text.induct)
  case 1
  show ?case by (simp add: params_loop.simps)
next
  case (2 n v)
  then show ?case using param_step_plain [of n v "[]"]
    by (subst params_loop.simps) (auto simp: plain_param_def params_loop.simps)
next
  case (3 n v p ps)
  obtain n' v' where p: "p = (n', v')" by (cases p)
  have ne: "params_text (p # ps) \<noteq> []" using p by (cases ps) auto
  show ?case using 3 param_step_plain [of n v "CHR '';'' # CHR '' '' # params_text (p # ps)"] ne
    by (subst params_loop.simps) (auto simp: plain_param_def params_loop_space)
qed


subsection \<open>URI parameters\<close>

lemma scan_until_run:
  "list_all (\<lambda>c. \<not> stop c) w \<Longrightarrow> rest = [] \<or> stop (hd rest) \<Longrightarrow>
   scan_until stop (pre @ w @ rest) (length pre) acc = Inr (acc @ w, length pre + length w)"
proof (induction w arbitrary: pre acc)
  case Nil
  then show ?case by (subst scan_until.simps) (cases rest, auto simp: char_at_def nth_append)
next
  case (Cons c w)
  have "scan_until stop ((pre @ [c]) @ w @ rest) (length (pre @ [c])) (acc @ [c]) =
      Inr ((acc @ [c]) @ w, length (pre @ [c]) + length w)"
    using Cons by (intro Cons(1)) auto
  then show ?case using Cons(2)
    by (subst scan_until.simps) (simp add: char_at_append)
qed

lemma query_overrun:
  assumes "n \<noteq> []" and "list_all (\<lambda>c. c \<noteq> CHR ''='') n"
  shows "query_params (pre @ n) (length pre) out = Inl Undefined"
  using scan_until_run [of "\<lambda>c. c = CHR ''=''" n "[]" pre "[]"] assms
  by (subst query_params.simps) (simp add: scan_until.simps [of _ _ "Suc _"] char_at_def)

fun query_text :: "nv \<Rightarrow> string" where
  "query_text [] = []"
| "query_text [(n, v)] = n @ CHR ''='' # v"
| "query_text ((n, v) # ps) = n @ CHR ''='' # v @ CHR ''&'' # query_text ps"

definition query_param :: "string \<times> string \<Rightarrow> bool" where
  "query_param p \<longleftrightarrow> fst p \<noteq> [] \<and> list_all (\<lambda>c. c \<noteq> CHR ''='') (fst p) \<and>
     snd p \<noteq> [] \<and> list_all (\<lambda>c. c \<noteq> CHR ''&'') (snd p)"

lemma query_step:
  assumes "query_param (n, v)" and rest: "rest = [] \<or> hd rest = CHR ''&''"
  shows "query_params (pre @ n @ CHR ''='' # v @ rest) (length pre) out =
    query_params (pre @ n @ CHR ''='' # v @ rest) (length pre + length n + length v + 2) (nv_set out n v)"
proof -
  have p: "n \<noteq> []" "list_all (\<lambda>c. c \<noteq> CHR ''='') n" "v \<noteq> []" "list_all (\<lambda>c. c \<noteq> CHR ''&'') v"
    using assms(1) by (simp_all add: query_param_def)
  have 1: "scan_until (\<lambda>c. c = CHR ''='') (pre @ n @ CHR ''='' # v @ rest) (length pre) [] =
      Inr (n, length pre + length n)"
    using scan_until_run [of "\<lambda>c. c = CHR ''=''" n "CHR ''='' # v @ rest" pre "[]"] p by simp
  have 2: "scan_until (\<lambda>c. c = CHR ''&'') (pre @ n @ CHR ''='' # v @ rest) (Suc (length pre + length n)) [] =
      Inr (v, Suc (length pre + length n + length v))"
    using scan_until_run [of "\<lambda>c. c = CHR ''&''" v rest "pre @ n @ [CHR ''='']" "[]"] p rest by simp
  show ?thesis using p by (subst query_params.simps) (simp add: 1 2)
qed

lemma query_params_text:
  "list_all query_param ps \<Longrightarrow>
   query_params (pre @ query_text ps) (length pre) out = Inr (fold (\<lambda>(n, v) c. nv_set c n v) ps out)"
proof (induction ps arbitrary: pre out rule: query_text.induct)
  case 1
  show ?case by (simp add: query_params.simps)
next
  case (2 n v)
  then show ?case using query_step [of n v "[]" pre out] by (simp add: query_params.simps [of _ "Suc _"])
next
  case (3 n v p ps)
  let ?pre = "pre @ n @ CHR ''='' # v @ [CHR ''&'']"
  have "query_params (?pre @ query_text (p # ps)) (length ?pre) (nv_set out n v) =
      Inr (fold (\<lambda>(n, v) c. nv_set c n v) (p # ps) (nv_set out n v))"
    using 3 by (intro 3(1)) auto
  then show ?case
    using 3(2) query_step [of n v "CHR ''&'' # query_text (p # ps)" pre out]
    by (simp add: add.assoc)
qed

lemma rest_params_none: "uri = [] \<or> hd uri = CHR ''?'' \<Longrightarrow> rest_params uri 0 out = Inr (0, out)"
  by (subst rest_params.simps) (auto simp: hd_conv_nth)

lemma decode_lower_case: "URL_decode ''%2f'' = Inr [CHR 0x1F]"
  by (simp add: URL_decode_def URL_decode_loop.simps char_at_def digits_find_def hex_upper_def
      find_sub_char) (simp add: char_of_def bit_simps)

subsection \<open>Properties\<close>

text \<open>
  C28 (round trip). Percent encoding is undone by decoding, for every text of ASCII characters.
  For a text with any other character the encoder writes eight hexadecimal digits into a buffer
  of three bytes.
\<close>

theorem url_roundtrip:
  "case URL_encode s of
     Inr e \<Rightarrow> list_all (\<lambda>c. 0 \<le> char_code c) s \<and> URL_decode e = Inr s
   | Inl x \<Rightarrow> x = Undefined \<and> list_ex (\<lambda>c. char_code c < 0) s"
proof -
  have unres: "c \<in> set unreserved \<Longrightarrow> 0 \<le> char_code c" for c
    by (auto simp: unreserved_def char_code_def)
  have 1: "URL_encode s = Inr e \<Longrightarrow> list_all (\<lambda>c. 0 \<le> char_code c) s" for e
    by (induction s arbitrary: e) (auto simp: bind_r_eq_Inr unres split: if_splits)
  have 2: "URL_encode s = Inl x \<Longrightarrow> x = Undefined \<and> list_ex (\<lambda>c. char_code c < 0) s" for x
    by (induction s arbitrary: x) (auto simp: bind_r_eq_Inl split: if_splits)
  show ?thesis
    using 1 2 decode_encode [of s _ "[]" "[]"] by (auto simp: URL_decode_def split: sum.splits)
qed

text \<open>
  A query string of parameters with names and values is split into exactly these
  parameters; when the last part of a query has no equals sign, the loop reads behind the end of
  the URI.
\<close>

theorem query_parameters:
  assumes "list_all query_param ps" and "n \<noteq> []" and "list_all (\<lambda>c. c \<noteq> CHR ''='') n"
  shows "splitURIParameters (CHR ''?'' # query_text ps) [] =
      (let c = fold (\<lambda>(n, v) c. nv_set c n v) ps [] in Inr (nv_size c > 0, c)) \<and>
    splitURIParameters (CHR ''?'' # n) [] = Inl Undefined"
  using query_params_text [OF assms(1), of "[CHR ''?'']" "[]"] query_overrun [OF assms(2,3), of "[CHR ''?'']" "[]"]
  by (simp add: splitURIParameters_def rest_params_none char_at_def Let_def)

theorem query_parameters_witness:
  "splitURIParameters (CHR ''?'' # query_text [(''a'', ''b''), (''c'', ''d'')]) [] =
      (let c = fold (\<lambda>(n, v) c. nv_set c n v) [(''a'', ''b''), (''c'', ''d'')] [] in Inr (nv_size c > 0, c)) \<and>
    splitURIParameters (CHR ''?'' # ''x'') [] = Inl Undefined"
  by (rule query_parameters) (simp_all add: query_param_def)

end
