(* ===== verification/Http_Message.thy ===== *)
theory Http_Message
  imports Http_Util
begin

text \<open>
  \<^verbatim>\<open>src/http/src/message.cpp\<close>, \<^verbatim>\<open>request.cpp\<close> and \<^verbatim>\<open>response.cpp\<close>: HTTP messages,
  which are an \<^verbatim>\<open>NVCollection\<close> of headers with a version, a method and URI, or a status.
  Dates and the \<^verbatim>\<open>Cookie\<close> objects of a response, which need the date parser, are left out.
\<close>

record http_message =
  hm_headers :: nv
  hm_version :: string

record http_request = http_message +
  rq_method :: string
  rq_uri :: string

record http_response = http_message +
  rs_status :: int
  rs_reason :: string

definition HTTP_1_1 :: string where "HTTP_1_1 = ''HTTP/1.1''"
definition IDENTITY_TRANSFER_ENCODING :: string where "IDENTITY_TRANSFER_ENCODING = ''identity''"
definition CHUNKED_TRANSFER_ENCODING :: string where "CHUNKED_TRANSFER_ENCODING = ''chunked''"
definition CONTENT_LENGTH :: string where "CONTENT_LENGTH = ''Content-Length''"
definition CONTENT_TYPE :: string where "CONTENT_TYPE = ''Content-Type''"
definition TRANSFER_ENCODING :: string where "TRANSFER_ENCODING = ''Transfer-Encoding''"
definition CONNECTION :: string where "CONNECTION = ''Connection''"
definition CONNECTION_KEEP_ALIVE :: string where "CONNECTION_KEEP_ALIVE = ''Keep-Alive''"
definition CONNECTION_CLOSE :: string where "CONNECTION_CLOSE = ''Close''"

subsection \<open>Message\<close>

definition hm_set :: "string \<Rightarrow> string \<Rightarrow> 'a http_message_scheme \<Rightarrow> 'a http_message_scheme" where
  "hm_set n v m = m\<lparr>hm_headers := nv_set (hm_headers m) n v\<rparr>"

definition hm_add :: "string \<Rightarrow> string \<Rightarrow> 'a http_message_scheme \<Rightarrow> 'a http_message_scheme" where
  "hm_add n v m = m\<lparr>hm_headers := nv_add (hm_headers m) n v\<rparr>"

definition hm_erase :: "string \<Rightarrow> 'a http_message_scheme \<Rightarrow> 'a http_message_scheme" where
  "hm_erase n m = m\<lparr>hm_headers := nv_erase (hm_headers m) n\<rparr>"

definition hm_get :: "'a http_message_scheme \<Rightarrow> string \<Rightarrow> string \<Rightarrow> string" where
  "hm_get m n d = nv_get_default (hm_headers m) n d"

definition hm_has :: "'a http_message_scheme \<Rightarrow> string \<Rightarrow> bool" where
  "hm_has m n = nv_has (hm_headers m) n"

text \<open>\<^verbatim>\<open>int(length) != UNKNOWN_CONTENT_LENGTH\<close> looks at the low 32 bits only.\<close>

definition setContentLength :: "u64 \<Rightarrow> 'a http_message_scheme \<Rightarrow> 'a http_message_scheme" where
  "setContentLength len m =
     (if sint (ucast len :: u32) \<noteq> -1 then hm_set CONTENT_LENGTH (itostr (unat len)) m
      else hm_erase CONTENT_LENGTH m)"

definition getContentLength :: "'a http_message_scheme \<Rightarrow> u64" where
  "getContentLength m =
     (let contentLength = hm_get m CONTENT_LENGTH ''''
      in if contentLength \<noteq> [] then word_of_nat (strtoi 64 contentLength) else -1)"

definition setTransferEncoding :: "string \<Rightarrow> 'a http_message_scheme \<Rightarrow> 'a http_message_scheme" where
  "setTransferEncoding e m =
     (if icompare e IDENTITY_TRANSFER_ENCODING = 0 then hm_erase TRANSFER_ENCODING m
      else hm_set TRANSFER_ENCODING e m)"

definition getTransferEncoding :: "'a http_message_scheme \<Rightarrow> string" where
  "getTransferEncoding m = hm_get m TRANSFER_ENCODING IDENTITY_TRANSFER_ENCODING"

definition setChunkedTransferEncoding :: "bool \<Rightarrow> 'a http_message_scheme \<Rightarrow> 'a http_message_scheme" where
  "setChunkedTransferEncoding flag m =
     (if flag then setTransferEncoding CHUNKED_TRANSFER_ENCODING m
      else setTransferEncoding IDENTITY_TRANSFER_ENCODING m)"

definition isChunkedTransferEncoding :: "'a http_message_scheme \<Rightarrow> bool" where
  "isChunkedTransferEncoding m = (icompare (getTransferEncoding m) CHUNKED_TRANSFER_ENCODING = 0)"

definition setContentType :: "string \<Rightarrow> 'a http_message_scheme \<Rightarrow> 'a http_message_scheme" where
  "setContentType t m = (if t = [] then hm_erase CONTENT_TYPE m else hm_set CONTENT_TYPE t m)"

definition getContentType :: "'a http_message_scheme \<Rightarrow> string" where
  "getContentType m = hm_get m CONTENT_TYPE ''''"

definition setKeepAlive :: "bool \<Rightarrow> 'a http_message_scheme \<Rightarrow> 'a http_message_scheme" where
  "setKeepAlive keepAlive m =
     (if keepAlive then hm_set CONNECTION CONNECTION_KEEP_ALIVE m else hm_set CONNECTION CONNECTION_CLOSE m)"

definition getKeepAlive :: "'a http_message_scheme \<Rightarrow> bool" where
  "getKeepAlive m =
     (let connection = hm_get m CONNECTION ''''
      in if connection \<noteq> [] then icompare connection CONNECTION_CLOSE \<noteq> 0
         else hm_version m = HTTP_1_1)"

definition hasContentLength :: "'a http_message_scheme \<Rightarrow> bool" where
  "hasContentLength m = hm_has m CONTENT_LENGTH"

definition crlf :: string where
  "crlf = [CHR 0x0D, CHR 0x0A]"

fun headers_write :: "nv \<Rightarrow> string" where
  "headers_write [] = []"
| "headers_write ((n, v) # hs) = n @ '': '' @ v @ crlf @ headers_write hs"

definition message_write_http :: "'a http_message_scheme \<Rightarrow> string" where
  "message_write_http m = headers_write (hm_headers m)"

subsection \<open>Request\<close>

definition new_request :: "string \<Rightarrow> string \<Rightarrow> string \<Rightarrow> http_request" where
  "new_request meth uri version =
     \<lparr>hm_headers = [], hm_version = version, rq_method = meth, rq_uri = uri\<rparr>"

definition default_request :: http_request where
  "default_request = new_request ''GET'' ''/'' HTTP_1_1"

definition rq_setHost :: "string \<Rightarrow> http_request \<Rightarrow> http_request" where
  "rq_setHost host r = hm_set ''Host'' host r"

definition rq_setHost_port :: "string \<Rightarrow> u16 \<Rightarrow> http_request \<Rightarrow> http_request" where
  "rq_setHost_port host port r =
     rq_setHost (if port \<noteq> 80 \<and> port \<noteq> 443 then host @ '':'' @ itostr (unat port) else host) r"

definition rq_getHost :: "http_request \<Rightarrow> string result" where
  "rq_getHost r = nv_get (hm_headers r) ''Host''"

definition rq_setCookies :: "nv \<Rightarrow> http_request \<Rightarrow> http_request" where
  "rq_setCookies cookies r = hm_add ''Cookie'' (params_text cookies) r"

text \<open>\<^verbatim>\<open>getCookies\<close>: from the first cookie header on, while the name is that of a cookie header.\<close>

fun cookie_loop :: "nv \<Rightarrow> nv \<Rightarrow> nv" where
  "cookie_loop [] cookies = cookies"
| "cookie_loop ((n, v) # hs) cookies =
     (if icompare n ''Cookie'' = 0 then cookie_loop hs (params_loop v cookies) else cookies)"

definition rq_getCookies :: "http_request \<Rightarrow> nv \<Rightarrow> nv" where
  "rq_getCookies r cookies =
     (case mm_find ILT ''Cookie'' (hm_headers r) of
        None \<Rightarrow> cookies
      | Some i \<Rightarrow> cookie_loop (drop i (hm_headers r)) cookies)"

definition rq_getURIParameters :: "http_request \<Rightarrow> nv \<Rightarrow> (bool \<times> nv) result" where
  "rq_getURIParameters r params = splitURIParameters (rq_uri r) params"

definition rq_hasCredentials :: "string \<Rightarrow> http_request \<Rightarrow> bool" where
  "rq_hasCredentials header r = hm_has r header"

definition rq_getCredentials :: "string \<Rightarrow> http_request \<Rightarrow> (string \<times> string) result" where
  "rq_getCredentials header r =
     (if hm_has r header then
        bind_r (nv_get (hm_headers r) header) (\<lambda>auth.
          let it = dropWhile is_space auth;
              scheme = takeWhile (\<lambda>c. \<not> is_space c) it;
              it = dropWhile (\<lambda>c. \<not> is_space c) it;
              authInfo = dropWhile is_space it
          in Inr (scheme, authInfo))
      else Inl RuntimeError)"

definition rq_setCredentials :: "string \<Rightarrow> string \<Rightarrow> string \<Rightarrow> http_request \<Rightarrow> http_request" where
  "rq_setCredentials header scheme authInfo r = hm_set header (scheme @ '' '' @ authInfo) r"

definition request_write :: "http_request \<Rightarrow> string result" where
  "request_write r =
     assert_r (length (rq_uri r) \<noteq> 0)
       (Inr (rq_method r @ '' '' @ rq_uri r @ '' '' @ hm_version r @ crlf @ message_write_http r @ crlf))"

subsection \<open>Response\<close>

definition status_reasons :: "(int \<times> string) list" where
  "status_reasons =
     [(100, ''Continue''), (101, ''Switching Protocols''),
      (200, ''OK''), (201, ''Created''), (202, ''Accepted''), (203, ''Non-Authoritative Information''),
      (204, ''No Content''), (205, ''Reset Content''), (206, ''Partial Content''),
      (300, ''Multiple Choices''), (301, ''Moved Permanently''), (302, ''Found''), (303, ''See Other''),
      (304, ''Not Modified''), (305, ''Use Proxy''), (307, ''OK''),
      (400, ''Bad Request''), (401, ''Unauthorized''), (402, ''Payment Required''), (403, ''Forbidden''),
      (404, ''Not Found''), (405, ''Method Not Allowed''), (406, ''Not Acceptable''),
      (407, ''Proxy Authentication Required''), (408, ''Request Time-out''), (409, ''Conflict''),
      (410, ''Gone''), (411, ''Length Required''), (412, ''Precondition Failed''),
      (413, ''Request Entity Too Large''), (414, ''Request-URI Too Large''),
      (415, ''Unsupported Media Type''), (416, ''Requested range not satisfiable''),
      (417, ''Expectation Failed''), (422, ''Unprocessable Entity''), (426, ''Upgrade Required''),
      (500, ''Internal Server Error''), (501, ''Not Implemented''), (502, ''Bad Gateway''),
      (503, ''Service Unavailable''), (504, ''Gateway Time-out''), (505, ''Version Not Supported'')]"

definition getStatusCodeReason :: "int \<Rightarrow> string result" where
  "getStatusCodeReason status =
     (case map_of status_reasons status of Some r \<Rightarrow> Inr r | None \<Rightarrow> Inl AssertFail)"

definition new_response :: "string \<Rightarrow> int \<Rightarrow> http_response result" where
  "new_response version status =
     bind_r (getStatusCodeReason status) (\<lambda>reason.
       Inr \<lparr>hm_headers = [], hm_version = version, rs_status = status, rs_reason = reason\<rparr>)"

definition rs_setStatus :: "int \<Rightarrow> http_response \<Rightarrow> http_response result" where
  "rs_setStatus status r =
     bind_r (getStatusCodeReason status) (\<lambda>reason.
       Inr (r\<lparr>rs_status := status, rs_reason := reason\<rparr>))"

definition rs_setReason :: "string \<Rightarrow> http_response \<Rightarrow> http_response" where
  "rs_setReason reason r = r\<lparr>rs_reason := reason\<rparr>"

definition rs_setStatusAndReason :: "int \<Rightarrow> string \<Rightarrow> http_response \<Rightarrow> http_response" where
  "rs_setStatusAndReason status reason r = r\<lparr>rs_status := status, rs_reason := reason\<rparr>"

definition rs_success :: "http_response \<Rightarrow> bool" where
  "rs_success r = (rs_status r < 400)"

definition response_write :: "http_response \<Rightarrow> string" where
  "response_write r =
     hm_version r @ '' '' @ int_text (rs_status r) @ '' '' @ rs_reason r @ crlf @ message_write_http r @ crlf"

subsection \<open>Headers\<close>

definition hm_ok :: "'a http_message_scheme \<Rightarrow> bool" where
  "hm_ok m = nv_ok (hm_headers m)"

lemma hm_set_ok: "hm_ok m \<Longrightarrow> hm_ok (hm_set n v m)"
  by (simp add: hm_ok_def hm_set_def nv_set_ok)

lemma hm_get_set:
  "hm_ok m \<Longrightarrow> hm_get (hm_set n v m) k d = (if same_name n k then v else hm_get m k d)"
  by (simp add: hm_ok_def hm_set_def hm_get_def nv_get_set)

lemma hm_get_erase:
  "hm_ok m \<Longrightarrow> hm_get (hm_erase n m) k d = (if same_name n k then d else hm_get m k d)"
  by (simp add: hm_ok_def hm_erase_def hm_get_def nv_get_erase)

lemma hm_has_set: "hm_ok m \<Longrightarrow> hm_has (hm_set n v m) k \<longleftrightarrow> same_name n k \<or> hm_has m k"
  by (simp add: hm_ok_def hm_set_def hm_has_def nv_has_set)

lemma cookie_loop_fold:
  "cookie_loop hs c = fold (\<lambda>x. params_loop (snd x)) (takeWhile (\<lambda>x. icompare (fst x) ''Cookie'' = 0) hs) c"
  by (induction hs c rule: cookie_loop.induct) auto

lemma getCookies_values:
  assumes "hm_ok r"
  shows "rq_getCookies r c = fold params_loop (nv_values (hm_headers r) ''Cookie'') c"
proof (cases "mm_find ILT ''Cookie'' (hm_headers r)")
  case None
  then show ?thesis using nv_find(1) [of "hm_headers r"] assms by (simp add: rq_getCookies_def hm_ok_def)
next
  case (Some i)
  have eq: "(\<lambda>x. icompare (fst x) ''Cookie'' = 0) = (\<lambda>x. mm_equiv ILT (fst x) ''Cookie'')"
    by (simp add: fun_eq_iff mm_equiv_ILT icompare_zero)
  have "nv_values (hm_headers r) ''Cookie'' =
      map snd (takeWhile (\<lambda>y. mm_equiv ILT (fst y) ''Cookie'') (drop i (hm_headers r)))"
    using ilt.find_values [OF _ Some] assms by (simp add: nv_values_def hm_ok_def nv_ok_def)
  then show ?thesis using Some by (simp add: rq_getCookies_def cookie_loop_fold eq fold_map comp_def)
qed

lemma fold_add_cookies:
  "nv_ok cookies \<Longrightarrow> fold (\<lambda>(n, v) c. nv_add c n v) cookies [] = cookies"
  using ilt.insert_sorted_all [of "[]" cookies]
  by (simp add: nv_ok_def nv_add_def case_prod_unfold)

subsection \<open>Properties\<close>

text \<open>
  Cookies set on a request that had none are read back: for every ordered
  collection of cookies whose names and values need no quoting, \<^verbatim>\<open>getCookies\<close> after
  \<^verbatim>\<open>setCookies\<close> gives the same collection.
\<close>

theorem cookies_roundtrip:
  assumes "hm_ok r" and "\<not> hm_has r ''Cookie''" and "nv_ok cookies" and "list_all plain_param cookies"
  shows "rq_getCookies (rq_setCookies cookies r) [] = cookies"
proof -
  have ok: "hm_ok (rq_setCookies cookies r)"
    using nv_run_spec(1) [of "hm_headers r" "Add ''Cookie'' (params_text cookies)"] assms(1)
    by (simp add: rq_setCookies_def hm_add_def hm_ok_def)
  have "nv_values (hm_headers r) ''Cookie'' = []"
    using assms(1,2) by (simp add: hm_ok_def hm_has_def nv_get_values)
  then have "nv_values (hm_headers (rq_setCookies cookies r)) ''Cookie'' = [params_text cookies]"
    using nv_run_spec(2) [of "hm_headers r" "Add ''Cookie'' (params_text cookies)"] assms(1)
    by (simp add: rq_setCookies_def hm_add_def hm_ok_def)
  then show ?thesis
    using ok assms(3,4) by (simp add: getCookies_values params_loop_text fold_add_cookies)
qed

theorem cookies_roundtrip_witness:
  "rq_getCookies (rq_setCookies [(''id'', ''42''), (''lang'', ''en'')] default_request) [] =
     [(''id'', ''42''), (''lang'', ''en'')]"
proof (rule cookies_roundtrip)
  show "hm_ok default_request" by (simp add: default_request_def new_request_def hm_ok_def)
  show "\<not> hm_has default_request ''Cookie''"
    by (simp add: default_request_def new_request_def hm_has_def nv_has_def)
  show "nv_ok [(''id'', ''42''), (''lang'', ''en'')]"
    by (simp add: nv_ok_def mm_sorted_def ILT_def char_code_def tolower_c_def is_upper_def)
  show "list_all plain_param [(''id'', ''42''), (''lang'', ''en'')]"
    by (simp add: plain_param_def trimmed_def value_char_def is_space_def)
qed

text \<open>
  C29 (bounds). The content length of a message is read back as it was set, for every 64-bit length
  except those whose low 32 bits are all ones, such as 4294967295: for these the header is
  removed and the length is unknown.
\<close>

theorem content_length_roundtrip:
  assumes "hm_ok m"
  shows "getContentLength (setContentLength n m) =
    (if unat n mod 2 ^ 32 = 2 ^ 32 - 1 then -1 else n)"
proof -
  have "(ucast n :: u32) = -1 \<longleftrightarrow> unat (ucast n :: u32) = unat (-1 :: u32)"
    by (simp add: word_unat_eq_iff)
  also have "\<dots> \<longleftrightarrow> unat n mod 2 ^ 32 = 2 ^ 32 - 1"
    by (simp add: unsigned_minus_1_eq_mask mask_eq_exp_minus_1 unsigned_ucast_eq take_bit_eq_mod)
  finally have "sint (ucast n :: u32) = -1 \<longleftrightarrow> unat n mod 2 ^ 32 = 2 ^ 32 - 1"
    by (metis sint_n1 signed_word_eqI)
  moreover have "unat n < 2 ^ 64" using unsigned_less [of n] by simp
  ultimately show ?thesis using assms
    by (simp add: setContentLength_def getContentLength_def hm_get_set hm_get_erase same_name_def
        strtoi_itostr del: One_nat_def)
qed

theorem content_length_roundtrip_witness:
  "getContentLength (setContentLength 4294967295 default_request) = -1"
  using content_length_roundtrip [of default_request 4294967295]
  by (simp add: default_request_def new_request_def hm_ok_def)

lemma credentials_roundtrip:
  assumes "hm_ok r" and "scheme \<noteq> []" and "list_all (\<lambda>c. \<not> is_space c) scheme"
    and "authInfo = [] \<or> \<not> is_space (hd authInfo)"
  shows "rq_getCredentials h (rq_setCredentials h scheme authInfo r) = Inr (scheme, authInfo)"
proof -
  have sp: "is_space CHR '' ''" by (simp add: is_space_def)
  have 1: "dropWhile is_space (scheme @ '' '' @ authInfo) = scheme @ '' '' @ authInfo"
    using assms(2,3) by (cases scheme) auto
  have 2: "takeWhile (\<lambda>c. \<not> is_space c) (scheme @ '' '' @ authInfo) = scheme \<and>
      dropWhile (\<lambda>c. \<not> is_space c) (scheme @ '' '' @ authInfo) = '' '' @ authInfo"
    using takeWhile_name [OF assms(3)] sp by simp
  have 3: "dropWhile is_space ('' '' @ authInfo) = authInfo" using assms(4) sp by (cases authInfo) auto
  have g: "nv_get (hm_headers (rq_setCredentials h scheme authInfo r)) h = Inr (scheme @ '' '' @ authInfo)"
    using assms(1) by (simp add: rq_setCredentials_def hm_set_def hm_ok_def nv_get_values nv_set_ok nv_set_values)
  have "hm_has (rq_setCredentials h scheme authInfo r) h"
    using assms(1) by (simp add: rq_setCredentials_def hm_has_set)
  then show ?thesis unfolding rq_getCredentials_def g bind_r_simps Let_def 1 using 2 3 by simp
qed

end
