(* ===== verification/Web_Socket.thy ===== *)
theory Web_Socket
  imports Bit_Buffer Base64 Http_Message
begin

text \<open>
  \<^verbatim>\<open>src/http/src/websocket.cpp\<close>: the framer, which writes and reads WebSocket frames and
  performs the opening handshake, and the adapter, which applies it to the data of a socket.

  The masking key (\<^verbatim>\<open>_rnd.next()\<close>), the random string a handshake key is made of and the
  SHA-1 digest are arguments. The local array \<^verbatim>\<open>header\<close> of \<^verbatim>\<open>readFrame\<close> starts with unknown
  contents, the argument \<open>junk\<close>. A payload is a pointer into the buffer of the reader and is
  unmasked in place: its position is returned, and the memory of the reader is updated.
\<close>

datatype ws_mode = ServerSide | ClientSide

record framer =
  fr_mode :: ws_mode
  fr_frameFlags :: int
  fr_headerState :: int
  fr_maskPayload :: bool
  fr_key :: string

definition ProtocolGuid :: string where
  "ProtocolGuid = ''258EAFA5-E914-47DA-95CA-C5AB0DC85B11''"

definition ProtocolVersion :: string where
  "ProtocolVersion = ''13''"

text \<open>\<^verbatim>\<open>SendFlags\<close>: the final-fragment bit with the opcode for text or binary.\<close>

definition send_Text :: int where "send_Text = 0x81"
definition send_Binary :: int where "send_Binary = 0x82"
definition FRAME_FLAG_MASK :: u8 where "FRAME_FLAG_MASK = 0x80"
definition MAX_HEADER_LENGTH :: nat where "MAX_HEADER_LENGTH = 14"

definition new_framer :: "ws_mode \<Rightarrow> framer" where
  "new_framer mode =
     \<lparr>fr_mode = mode, fr_frameFlags = 0, fr_headerState = 0, fr_maskPayload = (mode = ClientSide),
      fr_key = []\<rparr>"

definition handshakeComplete :: "framer \<Rightarrow> bool" where
  "handshakeComplete f = (fr_headerState f = 2)"

subsection \<open>Writing frames\<close>

fun write_masked :: "bit_writer \<Rightarrow> bytes \<Rightarrow> bytes \<Rightarrow> nat \<Rightarrow> bit_writer result" where
  "write_masked w m [] i = Inr w"
| "write_masked w m (b # bs) i =
     bind_r (wr_putU8 w (b XOR m ! (i mod 4))) (\<lambda>w. write_masked w m bs (i + 1))"

definition write_length :: "bool \<Rightarrow> u8 \<Rightarrow> nat \<Rightarrow> bit_writer \<Rightarrow> bit_writer result" where
  "write_length be lenByte len w =
     (if len < 126 then wr_putU8 w (lenByte OR word_of_nat len)
      else if len < 65536 then
        bind_r (wr_putU8 w (lenByte OR 126)) (\<lambda>w. wr_putU16 be w (word_of_nat len))
      else
        bind_r (wr_putU8 w (lenByte OR 127)) (\<lambda>w. wr_putU64 be w (ucast (word_of_nat len :: u16))))"

definition writeFrame ::
    "bool \<Rightarrow> framer \<Rightarrow> u32 \<Rightarrow> bytes \<Rightarrow> int \<Rightarrow> bit_writer \<Rightarrow> (nat \<times> bit_writer) result" where
  "writeFrame be f msk data flags frame =
     assert_r (flags = send_Text \<or> flags = send_Binary)
     (assert_r (wr_position frame = 0)
     (bind_r (wr_putU8 frame (word_of_int flags)) (\<lambda>frame.
      let lenByte = (if fr_maskPayload f then 0 OR FRAME_FLAG_MASK else 0) in
      bind_r (write_length be lenByte (length data) frame) (\<lambda>frame.
      bind_r (if fr_maskPayload f then
                bind_r (wr_put frame (store32 be msk)) (\<lambda>frame.
                  write_masked frame (store32 be msk) data 0)
              else wr_put frame data) (\<lambda>frame.
        Inr (wr_position frame, frame))))))"

subsection \<open>Reading frames\<close>

text \<open>The first part of \<^verbatim>\<open>readFrame\<close>: how many bytes behind the first two go into the array
  \<^verbatim>\<open>header\<close>, and the flags and the length byte parsed from it.\<close>

definition header_take :: "u8 \<Rightarrow> nat" where
  "header_take lengthByte =
     (let maskOffset = (if lengthByte AND FRAME_FLAG_MASK \<noteq> 0 then 4 else 0);
          lengthByte = unat (lengthByte AND 0x7f)
      in if lengthByte + 2 + maskOffset < MAX_HEADER_LENGTH then lengthByte + maskOffset
         else MAX_HEADER_LENGTH - 2)"

definition read_header ::
    "bytes \<Rightarrow> bit_reader \<Rightarrow> (u8 \<times> u8 \<times> bit_reader \<times> bit_reader) result" where
  "read_header junk frame =
     bind_r (rd_get frame 2) (\<lambda>(h2, frame).
     let n = header_take (h2 ! 1) in
     bind_r (rd_get frame n) (\<lambda>(hn, frame).
     bind_r (rd_skip frame 2) (\<lambda>frame.
     let headerReader = rd_init (h2 @ hn @ drop (2 + n) junk) MAX_HEADER_LENGTH Network in
     bind_r (rd_getU8 headerReader) (\<lambda>(flags, headerReader).
     bind_r (rd_getU8 headerReader) (\<lambda>(lengthByte, headerReader).
       Inr (flags, lengthByte, headerReader, frame))))))"

definition read_length ::
    "bool \<Rightarrow> nat \<Rightarrow> u8 \<Rightarrow> bit_reader \<Rightarrow> (nat \<times> nat \<times> bit_reader) result" where
  "read_length be limit lengthByte headerReader =
     (if lengthByte AND 0x7f = 127 then
        bind_r (rd_getU64 be headerReader) (\<lambda>(l, headerReader).
          if unat l > limit then Inl RuntimeError else Inr (unat l, 2 + 8, headerReader))
      else if lengthByte AND 0x7f = 126 then
        bind_r (rd_getU16 be headerReader) (\<lambda>(l, headerReader).
          if unat l > limit then Inl RuntimeError else Inr (unat l, 2 + 2, headerReader))
      else if unat (lengthByte AND 0x7f) > limit then Inl RuntimeError
      else Inr (unat (lengthByte AND 0x7f), 2, headerReader))"

text \<open>\<^verbatim>\<open>p[i] ^= mask[i % 4]\<close> for the bytes of the payload.\<close>

definition unmask :: "bytes \<Rightarrow> bytes \<Rightarrow> bytes" where
  "unmask msk p = map (\<lambda>i. p ! i XOR msk ! (i mod 4)) [0..<length p]"

definition unmask_at :: "bytes \<Rightarrow> nat \<Rightarrow> nat \<Rightarrow> bytes \<Rightarrow> bytes result" where
  "unmask_at msk pos len mem =
     (if pos + len > length mem then Inl Undefined
      else Inr (take pos mem @ unmask msk (take len (drop pos mem)) @ drop (pos + len) mem))"

definition read_payload ::
    "bool \<Rightarrow> nat \<Rightarrow> nat \<Rightarrow> u8 \<Rightarrow> bit_reader \<Rightarrow> bit_reader \<Rightarrow> (nat \<times> nat \<times> bit_reader) result" where
  "read_payload be limit offset lengthByte headerReader frame =
     bind_r (read_length be limit lengthByte headerReader) (\<lambda>(payloadLength, payloadOffset, headerReader).
     bind_r (if lengthByte AND FRAME_FLAG_MASK \<noteq> 0
             then bind_r (rd_get headerReader 4) (\<lambda>(msk, _). Inr (msk, payloadOffset + 4))
             else Inr ([], payloadOffset)) (\<lambda>(msk, payloadOffset).
     if payloadLength > limit then Inl RuntimeError
     else
       bind_r (if lengthByte AND FRAME_FLAG_MASK \<noteq> 0
               then unmask_at msk (offset + payloadOffset) payloadLength (rd_bytes frame)
               else Inr (rd_bytes frame)) (\<lambda>mem.
       bind_r (rd_seek (frame\<lparr>rd_bytes := mem\<rparr>) (offset + payloadOffset + payloadLength)) (\<lambda>frame.
         Inr (payloadLength, offset + payloadOffset, frame)))))"

definition readFrame ::
    "bool \<Rightarrow> bytes \<Rightarrow> framer \<Rightarrow> bit_reader \<Rightarrow> framer \<times> (nat \<times> nat \<times> bit_reader) result" where
  "readFrame be junk f frame =
     (if \<not> handshakeComplete f then (f, Inl AssertFail)
      else case read_header junk frame of
             Inl e \<Rightarrow> (f, Inl e)
           | Inr (flags, lengthByte, headerReader, frame') \<Rightarrow>
               (f\<lparr>fr_frameFlags := uint flags\<rparr>,
                read_payload be (rd_limit frame) (rd_position frame) lengthByte headerReader frame'))"

subsection \<open>Handshake\<close>

text \<open>\<^verbatim>\<open>base64::encode\<close> of a string, with lines of 72 characters.\<close>

definition base64_text :: "bytes \<Rightarrow> string result" where
  "base64_text bs = bind_r (base64_encode bs LINE_LENGTH) (\<lambda>e. Inr (text_of_bytes e))"

definition createKey :: "string \<Rightarrow> string result" where
  "createKey randomString = base64_text (bytes_of_text randomString)"

definition computeAccept :: "(bytes \<Rightarrow> bytes) \<Rightarrow> string \<Rightarrow> string result" where
  "computeAccept sha1 key = base64_text (sha1 (bytes_of_text (key @ ProtocolGuid)))"

definition createClientHandshakeRequest ::
    "string \<Rightarrow> framer \<Rightarrow> http_request \<Rightarrow> (framer \<times> http_request) result" where
  "createClientHandshakeRequest rnd f request =
     assert_r (fr_mode f = ClientSide)
     (assert_r (fr_headerState f = 0)
     (bind_r (createKey rnd) (\<lambda>key.
        let f = f\<lparr>fr_key := key\<rparr>;
            request = setChunkedTransferEncoding False request;
            request = hm_set ''Connection'' ''Upgrade'' request;
            request = hm_set ''Upgrade'' ''websocket'' request;
            request = hm_set ''Sec-WebSocket-Version'' ProtocolVersion request
        in assert_r (hm_has request ''Sec-WebSocket-Version'')
           (let request = hm_set ''Sec-WebSocket-Key'' (fr_key f) request
            in assert_r (hm_has request ''Sec-WebSocket-Key'')
               (Inr (f\<lparr>fr_headerState := fr_headerState f + 1\<rparr>, request))))))"

definition completeClientHandshake ::
    "(bytes \<Rightarrow> bytes) \<Rightarrow> framer \<Rightarrow> http_response \<Rightarrow> framer result" where
  "completeClientHandshake sha1 f response =
     assert_r (fr_mode f = ClientSide)
     (assert_r (fr_headerState f = 1)
     (if icompare (hm_get response ''Connection'' '''') ''Upgrade'' \<noteq> 0 then Inl RuntimeError
      else if icompare (hm_get response ''Upgrade'' '''') ''websocket'' \<noteq> 0 then Inl RuntimeError
      else bind_r (computeAccept sha1 (fr_key f)) (\<lambda>accept.
        if hm_get response ''Sec-WebSocket-Accept'' '''' \<noteq> accept then Inl RuntimeError
        else let f = f\<lparr>fr_headerState := fr_headerState f + 1\<rparr>
             in assert_r (handshakeComplete f) (Inr f))))"

definition checkClientHandshakeResponse ::
    "(bytes \<Rightarrow> bytes) \<Rightarrow> framer \<Rightarrow> http_response \<Rightarrow> (bool \<times> framer) result" where
  "checkClientHandshakeResponse sha1 f response =
     assert_r (fr_mode f = ClientSide)
     (assert_r (fr_headerState f = 1)
     (if rs_status response = 101 then
        bind_r (completeClientHandshake sha1 f response) (\<lambda>f. Inr (True, f))
      else if rs_status response = 401 then Inl AssertFail
      else Inl RuntimeError))"

definition acceptServerRequest ::
    "(bytes \<Rightarrow> bytes) \<Rightarrow> framer \<Rightarrow> http_request \<Rightarrow> http_response \<Rightarrow> (framer \<times> http_response) result" where
  "acceptServerRequest sha1 f request response =
     assert_r (fr_mode f = ServerSide)
     (if (icompare (hm_get request ''Connection'' '''') ''upgrade'' = 0 \<or>
          icompare (hm_get request ''Connection'' '''') ''keep-alive, Upgrade'' = 0) \<and>
         icompare (hm_get request ''Upgrade'' '''') ''websocket'' = 0 then
        (let version = hm_get request ''Sec-WebSocket-Version'' '''' in
         if version = [] then Inl RuntimeError
         else if version \<noteq> ProtocolVersion then Inl RuntimeError
         else let key = trim (hm_get request ''Sec-WebSocket-Key'' '''') in
              if key = [] then Inl RuntimeError
              else bind_r (rs_setStatus 101 response) (\<lambda>response.
                   let response = hm_set ''Upgrade'' ''websocket'' response;
                       response = hm_set ''Connection'' ''Upgrade'' response
                   in bind_r (computeAccept sha1 key) (\<lambda>accept.
                        Inr (f\<lparr>fr_headerState := 2\<rparr>, hm_set ''Sec-WebSocket-Accept'' accept response))))
      else Inl RuntimeError)"

subsection \<open>Adapter\<close>

text \<open>
  \<^verbatim>\<open>send\<close>: \<open>storage\<close> is what \<^verbatim>\<open>reserve\<close> gave the buffer. The result are the bytes handed
  to the socket. \<^verbatim>\<open>shutdown\<close> calls the \<^verbatim>\<open>send\<close> of the base class, which does not frame.
\<close>

definition ws_send :: "bool \<Rightarrow> framer \<Rightarrow> bytes \<Rightarrow> u32 \<Rightarrow> bytes \<Rightarrow> int \<Rightarrow> bytes result" where
  "ws_send be f storage msk data flags =
     assert_r (handshakeComplete f)
     (let flags = (if flags = 0 then send_Text else flags)
      in bind_r (writeFrame be f msk data flags (wr_of_buffer storage)) (\<lambda>(_, w). wr_toString w))"

definition ws_shutdown :: "bool \<Rightarrow> bytes \<Rightarrow> u16 \<Rightarrow> bytes \<Rightarrow> (bytes \<times> int) result" where
  "ws_shutdown be buffer statusCode statusMessage =
     (let writer = wr_init buffer 256 Network in
      bind_r (wr_putU16 be writer statusCode) (\<lambda>writer.
      bind_r (wr_put writer statusMessage) (\<lambda>writer.
      bind_r (wr_toString writer) (\<lambda>sent. Inr (sent, 0x88)))))"

lemma read_header_limit: "read_header junk r = Inr (fl, lb, hr, r') \<Longrightarrow> rd_limit r' = rd_limit r"
  by (auto simp: read_header_def bind_r_eq_Inr rd_get_def rd_skip_def Let_def split: if_splits)

lemma read_payload_position:
  assumes "read_payload be limit offset lb hr r = Inr (l, p, r')"
  shows "rd_position r' = p + l \<and> offset + 2 \<le> p \<and> rd_limit r' = rd_limit r \<and> p + l \<le> rd_limit r"
  using assms
  by (auto simp: read_payload_def read_length_def bind_r_eq_Inr rd_seek_def split: if_splits)

lemma readFrame_position:
  assumes "readFrame be junk f r = (f', Inr (l, p, r'))"
  shows "rd_position r' = p + l \<and> rd_position r + 2 \<le> p \<and> rd_limit r' = rd_limit r \<and> p + l \<le> rd_limit r"
proof -
  obtain fl lb hr b where h: "read_header junk r = Inr (fl, lb, hr, b)"
    and p: "read_payload be (rd_limit r) (rd_position r) lb hr b = Inr (l, p, r')"
    using assms by (auto simp: readFrame_def split: if_splits sum.splits)
  show ?thesis using read_payload_position [OF p] read_header_limit [OF h] by simp
qed

text \<open>The loop of \<^verbatim>\<open>onSocketRecv\<close> over joined frames; empty frames are dropped.\<close>

function recv_loop ::
    "bool \<Rightarrow> bytes \<Rightarrow> framer \<Rightarrow> bit_reader \<Rightarrow> nat \<Rightarrow> bytes list \<Rightarrow> (framer \<times> bytes list \<times> err option) result" where
  "recv_loop be junk f reader tot packets =
     (if rd_position reader < tot then
        (case readFrame be junk f reader of
           (f', Inl e) \<Rightarrow> if catchable e then Inr (f', packets, Some e) else Inl e
         | (f', Inr (l, p, reader')) \<Rightarrow>
             recv_loop be junk f' reader' tot
               (if l = 0 then packets else packets @ [take l (drop p (rd_bytes reader'))]))
      else assert_r (rd_position reader = tot) (Inr (f, packets, None)))"
  by pat_completeness auto
termination
proof (relation "measure (\<lambda>(be, junk, f, reader, tot, packets). tot - rd_position reader)", goal_cases)
  case (2 be junk f reader tot packets f' y z l w p reader')
  then have "readFrame be junk f reader = (f', Inr (l, p, reader'))" by simp
  then have "rd_position reader < rd_position reader'" using readFrame_position by fastforce
  then show ?case using 2(1) by simp
qed simp

declare recv_loop.simps [simp del]

definition ws_recv_frames ::
    "bool \<Rightarrow> bytes \<Rightarrow> framer \<Rightarrow> bytes \<Rightarrow> (framer \<times> bytes list \<times> err option) result" where
  "ws_recv_frames be junk f buffer =
     (let reader = rd_of_buffer buffer in recv_loop be junk f reader (rd_available reader) [])"

record ws_adapter =
  ad_framer :: framer
  ad_request :: http_request
  ad_response :: http_response
  ad_sent :: "bytes list"
  ad_received :: "bytes list"
  ad_connects :: nat
  ad_closes :: nat
  ad_error :: "err option"

definition new_adapter :: "ws_mode \<Rightarrow> http_request \<Rightarrow> http_response \<Rightarrow> ws_adapter" where
  "new_adapter mode request response =
     \<lparr>ad_framer = new_framer mode, ad_request = request, ad_response = response, ad_sent = [],
      ad_received = [], ad_connects = 0, ad_closes = 0, ad_error = None\<rparr>"

definition sendClientRequest :: "string \<Rightarrow> ws_adapter \<Rightarrow> ws_adapter result" where
  "sendClientRequest rnd a =
     bind_r (createClientHandshakeRequest rnd (ad_framer a) (ad_request a)) (\<lambda>(f, request).
     bind_r (request_write request) (\<lambda>text.
       Inr (a\<lparr>ad_framer := f, ad_request := request, ad_sent := ad_sent a @ [bytes_of_text text]\<rparr>)))"

text \<open>Frames received after the handshake are emitted; an exception becomes the socket's error.\<close>

definition recv_frames :: "bool \<Rightarrow> bytes \<Rightarrow> bytes \<Rightarrow> ws_adapter \<Rightarrow> ws_adapter result" where
  "recv_frames be junk buffer a =
     bind_r (ws_recv_frames be junk (ad_framer a) buffer) (\<lambda>(f, packets, e).
       Inr (a\<lparr>ad_framer := f, ad_received := ad_received a @ packets,
              ad_error := (case e of None \<Rightarrow> ad_error a | Some x \<Rightarrow> Some x)\<rparr>))"

text \<open>
  The HTTP parser is an argument: from the bytes of a buffer and the message object it gives the
  number of bytes it consumed and the message.
\<close>

definition handleClientResponse ::
    "bool \<Rightarrow> bytes \<Rightarrow> (bytes \<Rightarrow> bytes) \<Rightarrow> (bytes \<Rightarrow> http_response \<Rightarrow> nat \<times> http_response) \<Rightarrow>
     bytes \<Rightarrow> ws_adapter \<Rightarrow> ws_adapter result" where
  "handleClientResponse be junk sha1 parse buffer a =
     (let (nparsed, response) = parse buffer (ad_response a);
          a = a\<lparr>ad_response := response\<rparr>
      in if nparsed = 0 then Inr (a\<lparr>ad_error := Some RuntimeError\<rparr>)
         else case checkClientHandshakeResponse sha1 (ad_framer a) response of
                Inl e \<Rightarrow> if catchable e then Inr (a\<lparr>ad_error := Some e\<rparr>) else Inl e
              | Inr (ok, f) \<Rightarrow>
                  let a = a\<lparr>ad_framer := f, ad_connects := (if ok then ad_connects a + 1 else ad_connects a)\<rparr>
                  in if length buffer - nparsed \<noteq> 0 then recv_frames be junk (drop nparsed buffer) a
                     else Inr a)"

definition handleServerRequest ::
    "(bytes \<Rightarrow> bytes) \<Rightarrow> (bytes \<Rightarrow> http_request \<Rightarrow> nat \<times> http_request) \<Rightarrow>
     bytes \<Rightarrow> ws_adapter \<Rightarrow> ws_adapter result" where
  "handleServerRequest sha1 parse buffer a =
     (let (nparsed, request) = parse buffer (ad_request a);
          a = a\<lparr>ad_request := request\<rparr>
      in if nparsed = 0 then Inr (a\<lparr>ad_error := Some RuntimeError\<rparr>)
         else case acceptServerRequest sha1 (ad_framer a) request (ad_response a) of
                Inl e \<Rightarrow>
                  if catchable e
                  then Inr (a\<lparr>ad_sent := ad_sent a @ [bytes_of_text (response_write (ad_response a))]\<rparr>)
                  else Inl e
              | Inr (f, response) \<Rightarrow>
                  Inr (a\<lparr>ad_framer := f, ad_response := response,
                         ad_sent := ad_sent a @ [bytes_of_text (response_write response)]\<rparr>))"

definition onSocketRecv ::
    "bool \<Rightarrow> bytes \<Rightarrow> (bytes \<Rightarrow> bytes) \<Rightarrow> (bytes \<Rightarrow> http_request \<Rightarrow> nat \<times> http_request) \<Rightarrow>
     (bytes \<Rightarrow> http_response \<Rightarrow> nat \<times> http_response) \<Rightarrow> bytes \<Rightarrow> ws_adapter \<Rightarrow> ws_adapter result" where
  "onSocketRecv be junk sha1 parse_request parse_response buffer a =
     (if handshakeComplete (ad_framer a) then recv_frames be junk buffer a
      else if fr_mode (ad_framer a) = ClientSide
      then handleClientResponse be junk sha1 parse_response buffer a
      else handleServerRequest sha1 parse_request buffer a)"

definition onSocketClose :: "ws_adapter \<Rightarrow> ws_adapter" where
  "onSocketClose a =
     a\<lparr>ad_request := (ad_request a)\<lparr>hm_headers := nv_clear (hm_headers (ad_request a))\<rparr>,
       ad_response := (ad_response a)\<lparr>hm_headers := nv_clear (hm_headers (ad_response a))\<rparr>,
       ad_framer := (ad_framer a)\<lparr>fr_headerState := 0, fr_frameFlags := 0\<rparr>,
       ad_closes := ad_closes a + 1\<rparr>"

subsection \<open>The format of a frame\<close>

text \<open>RFC 6455, section 5.2, for one unfragmented frame of less than 64 KiB.\<close>

definition frame_length :: "bool \<Rightarrow> nat \<Rightarrow> bytes" where
  "frame_length masked len =
     (let m = (if masked then 0x80 else 0) in
      if len < 126 then [m OR word_of_nat len] else (m OR 126) # setBE16 (word_of_nat len))"

definition frame_bytes :: "int \<Rightarrow> bytes option \<Rightarrow> bytes \<Rightarrow> bytes" where
  "frame_bytes flags key data =
     word_of_int flags # frame_length (key \<noteq> None) (length data) @
     (case key of None \<Rightarrow> data | Some m \<Rightarrow> m @ unmask m data)"

lemma length_unmask [simp]: "length (unmask m p) = length p"
  by (simp add: unmask_def)

lemma unmask_unmask [simp]: "unmask m (unmask m p) = p"
  by (rule nth_equalityI) (simp_all add: unmask_def)

lemma unmask_snoc: "unmask m (p @ [b]) = unmask m p @ [b XOR m ! (length p mod 4)]"
  by (rule nth_equalityI) (auto simp: unmask_def nth_append)

lemma write_masked_holds:
  "fixed_holds w (bs @ unmask m p) (length q + n) \<Longrightarrow>
   \<exists>w'. write_masked w m q (length p) = Inr w' \<and> fixed_holds w' (bs @ unmask m (p @ q)) n"
proof (induction q arbitrary: w p)
  case (Cons b q)
  then obtain w1 where w1: "wr_putU8 w (b XOR m ! (length p mod 4)) = Inr w1"
    "fixed_holds w1 (bs @ unmask m (p @ [b])) (length q + n)"
    using fixed.putU8_holds [of w "bs @ unmask m p" "length q + n" "b XOR m ! (length p mod 4)"]
    by (auto simp: unmask_snoc)
  then show ?case using Cons(1) [OF w1(2)] by simp
qed simp

lemma write_length_holds:
  assumes "fixed_holds w bs (length (frame_length k len) + n)" and "len < 65536"
  shows "\<exists>w'. write_length be (if k then 0 OR FRAME_FLAG_MASK else 0) len w = Inr w' \<and>
    fixed_holds w' (bs @ frame_length k len) n"
proof (cases "len < 126")
  case True
  then show ?thesis using assms fixed.putU8_holds [of w bs n]
    by (simp add: write_length_def frame_length_def FRAME_FLAG_MASK_def)
next
  case False
  let ?b = "(if k then 0x80 else 0) OR 126 :: u8"
  obtain w1 where w1: "wr_putU8 w ?b = Inr w1" "fixed_holds w1 (bs @ [?b]) (2 + n)"
    using assms(1) False fixed.putU8_holds [of w bs "2 + n" ?b]
    by (auto simp: frame_length_def Let_def numeral_3_eq_3)
  then show ?thesis using assms False fixed.putU16_holds [OF w1(2), of be "word_of_nat len"]
    by (cases k) (simp_all add: write_length_def frame_length_def FRAME_FLAG_MASK_def)
qed

definition frame_key :: "bool \<Rightarrow> framer \<Rightarrow> u32 \<Rightarrow> bytes option" where
  "frame_key be f msk = (if fr_maskPayload f then Some (store32 be msk) else None)"

lemma length_frame_length: "length (frame_length k len) = (if len < 126 then 1 else 3)"
  by (simp add: frame_length_def Let_def)

lemma writeFrame_holds:
  assumes "flags = send_Text \<or> flags = send_Binary" and "length data < 65536"
    and "fixed_holds w [] (length data + 14)"
  shows "\<exists>n w' k. writeFrame be f msk data flags w = Inr (n, w') \<and>
    n = length (frame_bytes flags (frame_key be f msk) data) \<and>
    fixed_holds w' (frame_bytes flags (frame_key be f msk) data) k"
proof -
  let ?k = "fr_maskPayload f" and ?fl = "word_of_int flags :: u8"
  let ?L = "frame_length ?k (length data)"
  have L: "length ?L \<le> 3" by (simp add: length_frame_length)
  define r where "r = 9 - length ?L"
  have r: "length data + 14 = 1 + (length ?L + (4 + (length data + r)))"
    using L by (simp add: r_def)
  obtain w1 where w1: "wr_putU8 w ?fl = Inr w1" "fixed_holds w1 [?fl] (length ?L + (4 + (length data + r)))"
    using fixed.putU8_holds [of w "[]" "length ?L + (4 + (length data + r))" ?fl] assms(3)
    unfolding r by auto
  obtain w2 where w2: "write_length be (if ?k then 0 OR FRAME_FLAG_MASK else 0) (length data) w1 = Inr w2"
    "fixed_holds w2 (?fl # ?L) (4 + (length data + r))"
    using write_length_holds [OF w1(2) assms(2)] by auto
  have p0: "wr_position w = 0" using fixed.holds_position [OF assms(3)] by simp
  show ?thesis
  proof (cases ?k)
    case True
    obtain w3 where w3: "wr_put w2 (store32 be msk) = Inr w3"
      "fixed_holds w3 (?fl # ?L @ store32 be msk) (length data + r)"
      using fixed.put_holds [of w2 "?fl # ?L" "store32 be msk" "length data + r"] w2(2) by auto
    obtain w4 where w4: "write_masked w3 (store32 be msk) data 0 = Inr w4"
      "fixed_holds w4 (?fl # ?L @ store32 be msk @ unmask (store32 be msk) data) r"
      using write_masked_holds [of w3 "?fl # ?L @ store32 be msk" "store32 be msk" "[]" data r] w3(2)
      by (auto simp: unmask_def)
    show ?thesis
      using assms(1) p0 w1 w2 w3 w4 True fixed.holds_position [OF w4(2)]
      by (auto simp: writeFrame_def frame_bytes_def frame_key_def)
  next
    case False
    have "fixed_holds w2 (?fl # ?L) (length data + (4 + r))" using w2(2) by (simp add: add.left_commute)
    then obtain w3 where w3: "wr_put w2 data = Inr w3" "fixed_holds w3 (?fl # ?L @ data) (4 + r)"
      using fixed.put_holds [of w2 "?fl # ?L" data "4 + r"] by auto
    show ?thesis
      using assms(1) p0 w1 w2 w3 False fixed.holds_position [OF w3(2)]
      by (auto simp: writeFrame_def frame_bytes_def frame_key_def)
  qed
qed

lemma low_bits_take: "(x AND 0x7f :: u8) = take_bit 7 x"
  by (simp add: take_bit_eq_mask mask_eq_exp_minus_1)

lemma flag_bit: "(x AND FRAME_FLAG_MASK \<noteq> 0) = bit (x :: u8) 7"
  using and_exp_eq_0_iff_not_bit [of x 7] by (simp add: FRAME_FLAG_MASK_def)

lemma small_byte:
  assumes "len < 128"
  shows "take_bit 7 (word_of_nat len :: u8) = word_of_nat len" "unat (word_of_nat len :: u8) = len"
    "\<not> bit (word_of_nat len :: u8) 7"
proof -
  show 1: "unat (word_of_nat len :: u8) = len" using assms by (simp add: unat_of_nat)
  show 2: "take_bit 7 (word_of_nat len :: u8) = word_of_nat len"
    unfolding word_unat_eq_iff unsigned_take_bit_eq 1 using assms by (simp add: take_bit_eq_mod)
  show "\<not> bit (word_of_nat len :: u8) 7" by (subst 2 [symmetric]) (simp add: bit_take_bit_iff)
qed

lemma length_byte:
  fixes k :: bool
  assumes "len < 128"
  defines "b \<equiv> (if k then 0x80 else 0) OR word_of_nat len :: u8"
  shows "b AND 0x7f = word_of_nat len" "unat (b AND 0x7f) = len" "b AND FRAME_FLAG_MASK \<noteq> 0 \<longleftrightarrow> k"
proof -
  have "take_bit 7 (0x80 :: u8) = 0" "bit (0x80 :: u8) 7" by simp_all
  then show 1: "b AND 0x7f = word_of_nat len" and "b AND FRAME_FLAG_MASK \<noteq> 0 \<longleftrightarrow> k"
    unfolding low_bits_take flag_bit using small_byte [OF assms(1)] 
    by (simp_all add: b_def take_bit_or bit_or_iff)
  show "unat (b AND 0x7f) = len" unfolding 1 by (rule small_byte [OF assms(1)])
qed

lemma read_header_at:
  assumes "length junk = 14" and "header_take b \<le> length rest"
    and "length pre + 2 + length rest < size_max"
  shows "read_header junk (rd_at pre (a # b # rest)) =
    Inr (a, b, rd_at [a, b] (take (header_take b) rest @ drop (2 + header_take b) junk),
      (rd_at pre (a # b # rest))\<lparr>rd_position := size_add (length pre + 2 + header_take b) 2\<rparr>)"
proof -
  let ?n = "header_take b"
  have 1: "rd_get (rd_at pre (a # b # rest)) 2 = Inr ([a, b], rd_at (pre @ [a, b]) rest)"
    using rd_get_at [of pre "[a, b]" rest] assms(3) by (simp add: numeral_2_eq_2)
  have 2: "rd_get (rd_at (pre @ [a, b]) rest) ?n =
      Inr (take ?n rest, rd_at (pre @ [a, b] @ take ?n rest) (drop ?n rest))"
    using rd_get_at [of "pre @ [a, b]" "take ?n rest" "drop ?n rest"] assms(2,3) by simp
  have n: "?n \<le> 12" by (simp add: header_take_def MAX_HEADER_LENGTH_def Let_def)
  then have h: "length (take ?n rest @ drop (2 + ?n) junk) = 12" using assms(1,2) by simp
  then have 3: "rd_init ([a, b] @ take ?n rest @ drop (2 + ?n) junk) 14 Network =
      rd_at [] (a # b # take ?n rest @ drop (2 + ?n) junk)"
    by (simp add: rd_init_def rd_at_def)
  have 4: "rd_skip (rd_at (pre @ [a, b] @ take ?n rest) (drop ?n rest)) 2 =
      Inr ((rd_at pre (a # b # rest))\<lparr>rd_position := size_add (length pre + 2 + ?n) 2\<rparr>)"
    using assms(2) by (simp add: rd_skip_def rd_at_def)
  show ?thesis
    unfolding read_header_def 1 bind_r_simps case_prod_conv
    using 2 3 4 h
    by (simp add: MAX_HEADER_LENGTH_def Let_def)
qed


text \<open>The length byte, the extended length and the key of a frame.\<close>

definition length_tail :: "nat \<Rightarrow> bytes" where
  "length_tail len = (if len < 126 then [] else setBE16 (word_of_nat len))"

definition key_bytes :: "bytes option \<Rightarrow> bytes" where
  "key_bytes key = (case key of None \<Rightarrow> [] | Some m \<Rightarrow> m)"

definition length_head :: "bool \<Rightarrow> nat \<Rightarrow> u8" where
  "length_head k len = (if k then 0x80 else 0) OR word_of_nat (if len < 126 then len else 126)"

definition masked_data :: "bytes option \<Rightarrow> bytes \<Rightarrow> bytes" where
  "masked_data key data = (case key of None \<Rightarrow> data | Some m \<Rightarrow> unmask m data)"

lemma frame_bytes_parts:
  "frame_bytes flags key data =
     word_of_int flags # length_head (key \<noteq> None) (length data) #
       length_tail (length data) @ key_bytes key @ masked_data key data"
  by (cases key) (simp_all add: frame_bytes_def frame_length_def length_tail_def key_bytes_def length_head_def
      masked_data_def)

lemma length_masked_data [simp]: "length (masked_data key data) = length data"
  by (cases key) (simp_all add: masked_data_def)

lemma length_head_bits:
  "length_head k len AND 0x7f = (if len < 126 then word_of_nat len else 126)"
  "unat (length_head k len AND 0x7f) = (if len < 126 then len else 126)"
  "length_head k len AND FRAME_FLAG_MASK \<noteq> 0 \<longleftrightarrow> k"
  using length_byte [of "if len < 126 then len else 126" k] by (auto simp: length_head_def)

lemma read_length_at:
  assumes "len < 65536" and "len \<le> limit" and "length pre + length rest < 100"
  shows "read_length be limit (length_head k len) (rd_at pre (length_tail len @ rest)) =
    Inr (len, 2 + length (length_tail len), rd_at (pre @ length_tail len) rest)"
proof (cases "len < 126")
  case True
  have "(word_of_nat len :: u8) \<noteq> 127 \<and> (word_of_nat len :: u8) \<noteq> 126"
    using True small_byte(2) [of len] by (auto dest!: arg_cong [where f = unat])
  then show ?thesis using True assms(2) length_head_bits(1,2) [of k len]
    by (simp add: read_length_def length_tail_def)
next
  case False
  have "unat (word_of_nat len :: u16) = len" using assms(1) by (simp add: unat_of_nat)
  then show ?thesis using False assms(2,3) length_head_bits(1,2) [of k len]
    by (simp add: read_length_def length_tail_def)
qed

lemma unmask_at_mid:
  "length pre = p \<Longrightarrow> length q = n \<Longrightarrow>
   unmask_at m p n (pre @ q @ suf) = Inr (pre @ unmask m q @ suf)"
  by (simp add: unmask_at_def)

lemma readFrame_at:
  assumes f: "handshakeComplete f" and j: "length junk = 14"
    and key: "key = None \<or> (\<exists>m. key = Some m \<and> length m = 4)" and len: "length data < 65536"
    and sz: "length pre + length (frame_bytes flags key data) + length suf < size_max"
  shows "\<exists>hdr. readFrame be junk f (rd_at pre (frame_bytes flags key data @ suf)) =
      (f\<lparr>fr_frameFlags := uint (word_of_int flags :: u8)\<rparr>,
       Inr (length data, length pre + length hdr, rd_at (pre @ hdr @ data) suf)) \<and>
    length hdr + length data = length (frame_bytes flags key data)"
proof -
  let ?k = "key \<noteq> None" and ?len = "length data"
  let ?a = "word_of_int flags :: u8" and ?b = "length_head (key \<noteq> None) (length data)"
  let ?t = "length_tail ?len" and ?kb = "key_bytes key"
  define n where "n = header_take ?b"
  define rest where "rest = ?t @ ?kb @ masked_data key data @ suf"
  have fr: "frame_bytes flags key data @ suf = ?a # ?b # rest"
    by (simp add: frame_bytes_parts rest_def)
  have kb: "length ?kb = (if ?k then 4 else 0)" using key by (auto simp: key_bytes_def)
  have t: "length ?t = (if ?len < 126 then 0 else 2)" by (simp add: length_tail_def)
  have n: "n \<le> length rest" "length ?t + length ?kb \<le> n" "n \<le> 12"
    using kb t length_head_bits(2,3) [of ?k ?len]
    by (auto simp: n_def header_take_def MAX_HEADER_LENGTH_def Let_def rest_def)
  obtain X where X: "take n rest @ drop (2 + n) junk = ?t @ ?kb @ X"
    using n(1,2) by (auto simp: rest_def take_append)
  have lX: "length (?t @ ?kb @ X) = 12"
    unfolding X [symmetric] using n(1,3) j by simp
  have "length (frame_bytes flags key data @ suf) = 2 + length rest" unfolding fr by simp
  then have sz': "length pre + 2 + length rest < size_max" using sz by simp
  have hd: "read_header junk (rd_at pre (?a # ?b # rest)) =
      Inr (?a, ?b, rd_at [?a, ?b] (?t @ ?kb @ X),
        (rd_at pre (?a # ?b # rest))\<lparr>rd_position := size_add (length pre + 2 + n) 2\<rparr>)"
    using read_header_at [of junk ?b rest pre ?a] j n(1) sz' X by (simp add: n_def)
  have ln: "read_length be (length pre + (2 + length rest)) ?b (rd_at [?a, ?b] (?t @ ?kb @ X)) =
      Inr (?len, 2 + length ?t, rd_at ([?a, ?b] @ ?t) (?kb @ X))"
    using lX by (intro read_length_at) (auto simp: rest_def len)
  let ?hdr = "?a # ?b # ?t @ ?kb"
  have "read_payload be (length pre + (2 + length rest)) (length pre) ?b (rd_at [?a, ?b] (?t @ ?kb @ X))
      ((rd_at pre (?a # ?b # rest))\<lparr>rd_position := size_add (length pre + 2 + n) 2\<rparr>) =
      Inr (?len, length pre + length ?hdr, rd_at (pre @ ?hdr @ data) suf)"
  proof (cases key)
    case None
    then show ?thesis unfolding read_payload_def ln
      using length_head_bits(3) [of False ?len]
      by (simp add: rest_def rd_seek_def rd_at_def key_bytes_def masked_data_def)
  next
    case (Some m)
    have "rd_get (rd_at ([?a, ?b] @ ?t) (?kb @ X)) 4 = Inr (m, rd_at ([?a, ?b] @ ?t @ m) X)"
      using rd_get_at [of "[?a, ?b] @ ?t" m X] kb lX Some by (simp add: key_bytes_def)
    moreover have "unmask_at m (length pre + (4 + (2 + length ?t))) ?len (pre @ ?a # ?b # rest) =
        Inr (pre @ ?hdr @ data @ suf)"
      using unmask_at_mid [of "pre @ ?hdr" "length pre + (4 + (2 + length ?t))" "masked_data key data" ?len m suf]
        kb Some by (simp add: rest_def masked_data_def key_bytes_def)
    ultimately show ?thesis unfolding read_payload_def ln
      using length_head_bits(3) [of True ?len] kb Some
      by (simp add: rest_def rd_seek_def rd_at_def key_bytes_def masked_data_def)
  qed
  then have "readFrame be junk f (rd_at pre (frame_bytes flags key data @ suf)) =
      (f\<lparr>fr_frameFlags := uint ?a\<rparr>, Inr (?len, length pre + length ?hdr, rd_at (pre @ ?hdr @ data) suf))"
    unfolding fr readFrame_def hd using f by simp
  moreover have "length ?hdr + length data = length (frame_bytes flags key data)"
    by (simp add: frame_bytes_parts)
  ultimately show ?thesis by blast
qed


subsection \<open>Sending and receiving\<close>

lemma frame_key_cases: "frame_key be f msk = None \<or> (\<exists>m. frame_key be f msk = Some m \<and> length m = 4)"
  by (simp add: frame_key_def)

lemma length_frame_bytes:
  "length (frame_bytes flags (frame_key be f msk) data) \<le> length data + 8"
  by (simp add: frame_bytes_def frame_key_def length_frame_length)

lemma ws_send_frame:
  assumes "handshakeComplete f" and "flags = send_Text \<or> flags = send_Binary" and "length data < 65536"
    and "length data + 14 \<le> length storage" and "length storage < size_max"
  shows "ws_send be f storage msk data flags = Inr (frame_bytes flags (frame_key be f msk) data)"
proof -
  have w: "wr_of_buffer storage = wr_init storage (length storage) Network"
    using assms(4) by (auto simp: wr_of_buffer_def)
  have "fixed_holds (wr_init storage (length storage) Network) [] (length data + 14)"
    using assms(4,5) by (simp add: fixed_holds_def wr_init_def)
  then obtain n w' k where "writeFrame be f msk data flags (wr_of_buffer storage) = Inr (n, w')"
    "fixed_holds w' (frame_bytes flags (frame_key be f msk) data) k"
    using writeFrame_holds [of flags data _ be f msk] assms(2,3) w by metis
  moreover have "flags \<noteq> 0" using assms(2) by (auto simp: send_Text_def send_Binary_def)
  ultimately show ?thesis using assms(1) fixed.holds_toString by (simp add: ws_send_def)
qed

definition frame_of :: "bool \<Rightarrow> framer \<Rightarrow> int \<Rightarrow> u32 \<times> bytes \<Rightarrow> bytes" where
  "frame_of be f flags m = frame_bytes flags (frame_key be f (fst m)) (snd m)"

lemma recv_loop_frames:
  assumes "handshakeComplete g" and "length junk = 14"
    and "list_all (\<lambda>m. length (snd m) < 65536) msgs"
    and "length pre + length (concat (map (frame_of be f flags) msgs)) < size_max"
  shows "\<exists>g'. recv_loop be' junk g (rd_at pre (concat (map (frame_of be f flags) msgs)))
      (length pre + length (concat (map (frame_of be f flags) msgs))) packets =
    Inr (g', packets @ filter (\<lambda>d. d \<noteq> []) (map snd msgs), None)"
  using assms
proof (induction msgs arbitrary: g pre packets)
  case Nil
  then show ?case by (subst recv_loop.simps) simp
next
  case (Cons m msgs)
  let ?suf = "concat (map (frame_of be f flags) msgs)"
  let ?g = "g\<lparr>fr_frameFlags := uint (word_of_int flags :: u8)\<rparr>"
  obtain hdr where r: "readFrame be' junk g (rd_at pre (frame_of be f flags m @ ?suf)) =
      (?g, Inr (length (snd m), length pre + length hdr, rd_at (pre @ hdr @ snd m) ?suf))"
    and l: "length hdr + length (snd m) = length (frame_of be f flags m)"
    using readFrame_at [OF Cons(2,3) frame_key_cases, of "snd m" pre flags be f "fst m" ?suf be'] Cons(4,5)
    by (auto simp: frame_of_def [of be f flags m] add.assoc)
  have pos: "0 < length (frame_of be f flags m)" by (simp add: frame_of_def [of be f flags m] frame_bytes_def)
  let ?packets = "if length (snd m) = 0 then packets else packets @ [snd m]"
  have sz: "length (pre @ hdr @ snd m) + length ?suf < size_max"
    and eq: "length pre + length (concat (map (frame_of be f flags) (m # msgs))) =
      length (pre @ hdr @ snd m) + length ?suf"
    using Cons(5) l by simp_all
  obtain g' where "recv_loop be' junk ?g (rd_at (pre @ hdr @ snd m) ?suf)
      (length (pre @ hdr @ snd m) + length ?suf) ?packets =
      Inr (g', ?packets @ filter (\<lambda>d. d \<noteq> []) (map snd msgs), None)"
    using Cons(1) [of ?g "pre @ hdr @ snd m" ?packets] Cons(2,3,4) sz by (auto simp: handshakeComplete_def)
  moreover have "recv_loop be' junk g (rd_at pre (concat (map (frame_of be f flags) (m # msgs))))
      (length (pre @ hdr @ snd m) + length ?suf) packets =
      recv_loop be' junk ?g (rd_at (pre @ hdr @ snd m) ?suf) (length (pre @ hdr @ snd m) + length ?suf) ?packets"
    using pos l r by (subst recv_loop.simps) (simp del: length_0_conv length_greater_0_conv)
  ultimately show ?case unfolding eq by (cases "snd m = []") auto
qed


subsection \<open>Handshake\<close>

lemma encode_short:
  assumes "es_step st = step_A" and "\<not> es_nullptrlterminate st" and "0 < es_linelength st"
    and "0 \<le> es_stepcount st" and "es_stepcount st + int (length bs div 3) < es_linelength st div 4"
  shows "fst (encode_block st bs) @ encode_blockend (snd (encode_block st bs)) = base64_spec bs"
  using assms
proof (induction bs arbitrary: st rule: base64_spec.induct)
  case 1
  then show ?case by (simp add: encode_blockend_def)
next
  case (2 a)
  then show ?case
    using encode_sextet(1) [of a 0 0] encode_sextet_end(1) [of a]
    by (simp add: encode_char_def encode_blockend_def split_beta Let_def)
next
  case (3 a b)
  then show ?case
    using encode_sextet(1,2) [of a b 0] encode_sextet_end(2) [of b a]
    by (simp add: encode_char_def encode_blockend_def split_beta Let_def)
next
  case (4 a b c rest)
  let ?st = "st\<lparr>es_stepcount := es_stepcount st + 1, es_step := step_A, es_result := c AND 0x3f\<rparr>"
  have d: "length (a # b # c # rest) div 3 = Suc (length rest div 3)" by simp
  have "es_stepcount st + 1 \<noteq> es_linelength st div 4" using 4(6) unfolding d by simp
  then have lf: "line_feed (st\<lparr>es_step := step_C, es_result := push_bit 2 (b AND 0x0f)\<rparr>) =
      ([], st\<lparr>es_step := step_C, es_result := push_bit 2 (b AND 0x0f), es_stepcount := es_stepcount st + 1\<rparr>)"
    using 4(4) by (simp add: line_feed_def)
  have "encode_block st (a # b # c # rest) =
      (map (\<lambda>i. encoding ! unat (sextet a b c i)) [0, 1, 2, 3] @ fst (encode_block ?st rest),
       snd (encode_block ?st rest))"
    using 4(2) lf encode_sextet [where a = a and b = b and c = c] by (simp add: encode_char_def split_beta Let_def)
  moreover have "fst (encode_block ?st rest) @ encode_blockend (snd (encode_block ?st rest)) = base64_spec rest"
    using 4(2-6) unfolding d by (intro 4(1)) simp_all
  ultimately show ?case by simp
qed

lemma base64_text_ok:
  assumes "length bs \<noteq> 1" and "length bs < 54"
  shows "base64_text bs = Inr (text_of_bytes (base64_spec bs))"
proof -
  have "length bs div 3 < 18" using assms(2) by simp
  then have "fst (encode_block (start_state LINE_LENGTH) bs) @
      encode_blockend (snd (encode_block (start_state LINE_LENGTH) bs)) = base64_spec bs"
    by (intro encode_short) (simp_all add: init_encodestate_def LINE_LENGTH_def)
  then show ?thesis using base64_encode_eq [OF assms(1), of LINE_LENGTH] by (simp add: base64_text_def)
qed

lemma encoding_not_space: "c \<in> set encoding \<Longrightarrow> \<not> is_space (char_of (unat c))"
  by (auto simp: encoding_def bytes_of_text_def is_space_def)

lemma sextet_in_encoding: "encoding ! unat (sextet a b c i) \<in> set encoding"
proof -
  have "unat (sextet a b c i) < 64" using sextet_less [of a b c i] by (simp add: word_less_nat_alt)
  then show ?thesis by (intro nth_mem) (simp add: encoding_def bytes_of_text_def)
qed

lemma base64_spec_chars: "c \<in> set (base64_spec bs) \<Longrightarrow> \<not> is_space (char_of (unat c))"
proof (induction bs rule: base64_spec.induct)
  case (4 a b c' rest)
  then show ?case using encoding_not_space sextet_in_encoding by auto
qed (use encoding_not_space sextet_in_encoding in \<open>auto simp: is_space_def\<close>)

lemma trim_none: "list_all (\<lambda>c. \<not> is_space c) s \<Longrightarrow> trim s = s"
proof -
  assume "list_all (\<lambda>c. \<not> is_space c) s"
  then have "dropWhile is_space s = s" "dropWhile is_space (rev s) = rev s"
    by (auto simp: dropWhile_eq_self_iff list_all_iff hd_rev)
  then show ?thesis by (simp add: trim_eq)
qed

lemma base64_key_trim: "trim (text_of_bytes (base64_spec bs)) = text_of_bytes (base64_spec bs)"
  by (rule trim_none) (auto simp: list_all_iff text_of_bytes_def dest: base64_spec_chars)

lemma base64_spec_ne: "bs \<noteq> [] \<Longrightarrow> text_of_bytes (base64_spec bs) \<noteq> []"
  by (cases bs rule: base64_spec.cases) (simp_all add: text_of_bytes_def)

lemma client_request:
  assumes "length rnd = 16" and "hm_ok request"
  defines "key \<equiv> text_of_bytes (base64_spec (bytes_of_text rnd))"
  shows "\<exists>rq. createClientHandshakeRequest rnd (new_framer ClientSide) request =
      Inr ((new_framer ClientSide)\<lparr>fr_key := key, fr_headerState := 1\<rparr>, rq) \<and>
    hm_get rq ''Connection'' '''' = ''Upgrade'' \<and> hm_get rq ''Upgrade'' '''' = ''websocket'' \<and>
    hm_get rq ''Sec-WebSocket-Version'' '''' = ProtocolVersion \<and> hm_get rq ''Sec-WebSocket-Key'' '''' = key"
proof -
  have k: "createKey rnd = Inr key"
    using base64_text_ok [of "bytes_of_text rnd"] assms(1)
    by (simp add: createKey_def key_def bytes_of_text_def)
  have "hm_ok (setChunkedTransferEncoding False request)"
    using assms(2) by (simp add: setChunkedTransferEncoding_def setTransferEncoding_def hm_set_ok
        hm_erase_def hm_ok_def nv_erase_ok)
  then show ?thesis
    by (simp add: createClientHandshakeRequest_def k new_framer_def hm_has_set hm_get_set hm_set_ok
        same_name_def tolower_c_def is_upper_def)
qed

lemma rs_status_set: "rs_status (hm_set n v (r :: http_response)) = rs_status r"
  by (simp add: hm_set_def)

lemma server_accept:
  assumes "hm_ok response" and "\<And>m. length (sha1 m) = 20" and "key \<noteq> []" and "trim key = key"
    and "hm_get rq ''Connection'' '''' = ''Upgrade''" and "hm_get rq ''Upgrade'' '''' = ''websocket''"
    and "hm_get rq ''Sec-WebSocket-Version'' '''' = ProtocolVersion"
    and "hm_get rq ''Sec-WebSocket-Key'' '''' = key"
  defines "accept \<equiv> text_of_bytes (base64_spec (sha1 (bytes_of_text (key @ ProtocolGuid))))"
  shows "computeAccept sha1 key = Inr accept"
    and "\<exists>rs. acceptServerRequest sha1 (new_framer ServerSide) rq response =
      Inr ((new_framer ServerSide)\<lparr>fr_headerState := 2\<rparr>, rs) \<and> hm_ok rs \<and> rs_status rs = 101 \<and>
      hm_get rs ''Connection'' '''' = ''Upgrade'' \<and> hm_get rs ''Upgrade'' '''' = ''websocket'' \<and>
      hm_get rs ''Sec-WebSocket-Accept'' '''' = accept"
proof -
  show a: "computeAccept sha1 key = Inr accept"
    using base64_text_ok [of "sha1 (bytes_of_text (key @ ProtocolGuid))"] assms(2)
    by (simp add: computeAccept_def accept_def)
  have st: "rs_setStatus 101 response = Inr (response\<lparr>rs_status := 101, rs_reason := ''Switching Protocols''\<rparr>)"
    by (simp add: rs_setStatus_def getStatusCodeReason_def status_reasons_def)
  have i: "icompare ''Upgrade'' ''upgrade'' = 0" "icompare ''websocket'' ''websocket'' = 0"
    by (simp_all add: tolower_c_def is_upper_def char_code_def)
  have ok: "hm_ok (response\<lparr>rs_status := 101, rs_reason := ''Switching Protocols''\<rparr>)"
    using assms(1) by (simp add: hm_ok_def)
  show "\<exists>rs. acceptServerRequest sha1 (new_framer ServerSide) rq response =
      Inr ((new_framer ServerSide)\<lparr>fr_headerState := 2\<rparr>, rs) \<and> hm_ok rs \<and> rs_status rs = 101 \<and>
      hm_get rs ''Connection'' '''' = ''Upgrade'' \<and> hm_get rs ''Upgrade'' '''' = ''websocket'' \<and>
      hm_get rs ''Sec-WebSocket-Accept'' '''' = accept"
    using assms(3-8) ok
    by (simp add: acceptServerRequest_def st i a rs_status_set ProtocolVersion_def new_framer_def hm_get_set hm_set_ok
        same_name_def tolower_c_def is_upper_def del: icompare.simps)
qed

lemma client_check:
  assumes "fr_mode f = ClientSide" and "fr_headerState f = 1" and "computeAccept sha1 (fr_key f) = Inr accept"
    and "rs_status rs = 101"
    and "hm_get rs ''Connection'' '''' = ''Upgrade''" and "hm_get rs ''Upgrade'' '''' = ''websocket''"
  shows "checkClientHandshakeResponse sha1 f rs =
    (if hm_get rs ''Sec-WebSocket-Accept'' '''' = accept then Inr (True, f\<lparr>fr_headerState := 2\<rparr>)
     else Inl RuntimeError)"
proof -
  have "icompare ''Upgrade'' ''Upgrade'' = 0" "icompare ''websocket'' ''websocket'' = 0"
    by (simp_all add: tolower_c_def is_upper_def char_code_def)
  then show ?thesis using assms
    by (simp add: checkClientHandshakeResponse_def completeClientHandshake_def handshakeComplete_def)
qed

definition sample_client :: framer where
  "sample_client = (new_framer ClientSide)\<lparr>fr_headerState := 2\<rparr>"

definition sample_server :: framer where
  "sample_server = (new_framer ServerSide)\<lparr>fr_headerState := 2\<rparr>"

lemma sample_complete [simp]: "handshakeComplete sample_client" "handshakeComplete sample_server"
  by (simp_all add: sample_client_def sample_server_def handshakeComplete_def)

subsection \<open>Properties\<close>

text \<open>
  C5 (functional). Messages sent through a WebSocket arrive in order. Whatever messages of less
  than 64 KiB one side sends, masked or not, from a host of any byte order: when the frames reach
  the other side joined in one buffer, it emits exactly the messages that are not empty, in the
  order in which they were sent, and reports no error.
\<close>

theorem messages_in_order:
  assumes "handshakeComplete f" and "handshakeComplete g" and "length junk = 14"
    and "flags = send_Text \<or> flags = send_Binary"
    and "list_all (\<lambda>m. length (snd m) < 65536 \<and> length (snd m) + 14 \<le> length storage) msgs"
    and "length storage < size_max"
    and "map (\<lambda>m. ws_send be f storage (fst m) (snd m) flags) msgs = map Inr frames"
    and "length (concat frames) < size_max"
  shows "\<exists>g'. ws_recv_frames be' junk g (concat frames) =
    Inr (g', filter (\<lambda>d. d \<noteq> []) (map snd msgs), None)"
proof -
  have "map (\<lambda>m. ws_send be f storage (fst m) (snd m) flags) msgs = map (\<lambda>m. Inr (frame_of be f flags m)) msgs"
    using assms(1,4,5,6) by (auto simp: list_all_iff frame_of_def intro!: ws_send_frame)
  then have "map Inr frames = (map Inr (map (frame_of be f flags) msgs) :: bytes result list)"
    using assms(7) by (simp add: comp_def)
  then have "frames = map (frame_of be f flags) msgs" by (metis Inr_inject inj_onI list.inj_map_strong)
  then show ?thesis
    using recv_loop_frames [OF assms(2,3), of msgs "[]" be f flags be' "[]"] assms(5,8)
    by (simp add: ws_recv_frames_def rd_of_buffer_at rd_available_ok rd_at_ok list_all_iff)
qed

theorem messages_in_order_witness:
  "\<exists>frames g'.
     map (\<lambda>m. ws_send False sample_client (replicate 64 0) (fst m) (snd m) send_Text)
       [(7, [104, 105]), (9, [])] = map Inr frames \<and>
     ws_recv_frames True (replicate 14 0) sample_server (concat frames) = Inr (g', [[104, 105]], None)"
proof -
  let ?frame = "frame_of False sample_client send_Text"
  have c: "handshakeComplete sample_client" "handshakeComplete sample_server"
    by simp_all
  have s: "map (\<lambda>m. ws_send False sample_client (replicate 64 0) (fst m) (snd m) send_Text)
      [(7, [104, 105]), (9, [])] = map Inr [?frame (7, [104, 105]), ?frame (9, [])]"
    using c(1) by (simp add: ws_send_frame frame_of_def)
  have "\<exists>g'. ws_recv_frames True (replicate 14 0) sample_server (concat [?frame (7, [104, 105]), ?frame (9, [])]) =
      Inr (g', filter (\<lambda>d. d \<noteq> []) (map snd [(7 :: u32, [104, 105 :: u8]), (9, [])]), None)"
    by (rule messages_in_order [OF c _ _ _ _ s]) (simp_all add: frame_of_def frame_bytes_def frame_key_def length_frame_length)
  then obtain g' where "ws_recv_frames True (replicate 14 0) sample_server
      (concat [?frame (7, [104, 105]), ?frame (9, [])]) = Inr (g', [[104, 105]], None)" by auto
  with s show ?thesis by blast
qed

text \<open>
  A message of less than 64 KiB is sent as one RFC 6455 frame, and reading that
  frame at any place of a buffer gives back the message, its flags and the position behind it.
\<close>

theorem frame_roundtrip:
  assumes "handshakeComplete f" and "handshakeComplete g" and "length junk = 14"
    and "flags = send_Text \<or> flags = send_Binary" and "length data < 65536"
    and "length data + 14 \<le> length storage"
    and "length pre + length storage + length suf < size_max"
  shows "\<exists>frame hdr. ws_send be f storage msk data flags = Inr frame \<and>
    frame = frame_bytes flags (frame_key be f msk) data \<and>
    readFrame be' junk g (rd_at pre (frame @ suf)) =
      (g\<lparr>fr_frameFlags := flags\<rparr>,
       Inr (length data, length pre + length hdr, rd_at (pre @ hdr @ data) suf)) \<and>
    length hdr + length data = length frame"
proof -
  have "uint (word_of_int flags :: u8) = flags" using assms(4) by (auto simp: send_Text_def send_Binary_def)
  moreover have "length pre + length (frame_bytes flags (frame_key be f msk) data) + length suf < size_max"
    using length_frame_bytes [of flags be f msk data] assms(6,7) by linarith
  ultimately show ?thesis
    using ws_send_frame [of f flags data storage be msk] assms
      readFrame_at [OF assms(2,3) frame_key_cases assms(5), of pre flags be f msk suf be'] by auto
qed

theorem frame_roundtrip_witness:
  "\<exists>frame hdr. ws_send True sample_client (replicate 64 0) 0x01020304 [72, 105] send_Text = Inr frame \<and>
    frame = frame_bytes send_Text (frame_key True sample_client 0x01020304) [72, 105] \<and>
    readFrame False (replicate 14 0) sample_server (rd_at [9] (frame @ [8])) =
      (sample_server\<lparr>fr_frameFlags := send_Text\<rparr>,
       Inr (length [72 :: u8, 105], length [9 :: u8] + length hdr, rd_at ([9] @ hdr @ [72, 105]) [8])) \<and>
    length hdr + length [72 :: u8, 105] = length frame"
  by (rule frame_roundtrip) simp_all

text \<open>
  C27 (functional). The opening handshake of the two sides fits together: the server accepts the
  request a client creates, the client accepts the server's response, and both sides have then
  completed the handshake; with any other value in the accept header the client refuses. SHA-1
  and the random string are arguments, with their lengths as hypotheses.
\<close>

theorem handshake_completes:
  assumes "length rnd = 16" and "\<And>m. length (sha1 m) = 20" and "hm_ok request" and "hm_ok response"
  shows "\<exists>c rq s rs c' accept.
    createClientHandshakeRequest rnd (new_framer ClientSide) request = Inr (c, rq) \<and>
    acceptServerRequest sha1 (new_framer ServerSide) rq response = Inr (s, rs) \<and>
    checkClientHandshakeResponse sha1 c rs = Inr (True, c') \<and>
    handshakeComplete s \<and> handshakeComplete c' \<and>
    (\<forall>v. checkClientHandshakeResponse sha1 c (hm_set ''Sec-WebSocket-Accept'' v rs) =
       (if v = accept then Inr (True, c') else Inl RuntimeError))"
proof -
  let ?key = "text_of_bytes (base64_spec (bytes_of_text rnd))"
  let ?c = "(new_framer ClientSide)\<lparr>fr_key := ?key, fr_headerState := 1\<rparr>"
  let ?accept = "text_of_bytes (base64_spec (sha1 (bytes_of_text (?key @ ProtocolGuid))))"
  obtain rq where rq: "createClientHandshakeRequest rnd (new_framer ClientSide) request = Inr (?c, rq)"
    "hm_get rq ''Connection'' '''' = ''Upgrade''" "hm_get rq ''Upgrade'' '''' = ''websocket''"
    "hm_get rq ''Sec-WebSocket-Version'' '''' = ProtocolVersion" "hm_get rq ''Sec-WebSocket-Key'' '''' = ?key"
    using client_request [OF assms(1,3)] by blast
  have k: "?key \<noteq> []" by (rule base64_spec_ne) (use assms(1) in \<open>auto simp: bytes_of_text_def\<close>)
  note srv = server_accept [of response sha1, OF assms(4) assms(2) k base64_key_trim rq(2-5)]
  obtain rs where rs: "acceptServerRequest sha1 (new_framer ServerSide) rq response =
      Inr ((new_framer ServerSide)\<lparr>fr_headerState := 2\<rparr>, rs)" "hm_ok rs" "rs_status rs = 101"
    "hm_get rs ''Connection'' '''' = ''Upgrade''" "hm_get rs ''Upgrade'' '''' = ''websocket''"
    "hm_get rs ''Sec-WebSocket-Accept'' '''' = ?accept"
    using srv(2) by blast
  have c: "fr_mode ?c = ClientSide" "fr_headerState ?c = 1" by (simp_all add: new_framer_def)
  have chk: "checkClientHandshakeResponse sha1 ?c (hm_set ''Sec-WebSocket-Accept'' v rs) =
      (if v = ?accept then Inr (True, ?c\<lparr>fr_headerState := 2\<rparr>) else Inl RuntimeError)" for v
    using client_check [of ?c sha1 ?accept "hm_set ''Sec-WebSocket-Accept'' v rs"] c srv(1) rs(2-5)
    by (simp add: rs_status_set hm_get_set same_name_def tolower_c_def is_upper_def)
  have "checkClientHandshakeResponse sha1 ?c rs = Inr (True, ?c\<lparr>fr_headerState := 2\<rparr>)"
    using client_check [of ?c sha1 ?accept rs] c srv(1) rs(2-6) by simp
  then show ?thesis using rq(1) rs(1) chk by (auto simp: handshakeComplete_def new_framer_def)
qed

theorem handshake_completes_witness:
  "\<exists>c rq s rs c' accept.
    createClientHandshakeRequest ''0123456789abcdef'' (new_framer ClientSide) default_request = Inr (c, rq) \<and>
    acceptServerRequest (\<lambda>m. replicate 20 0) (new_framer ServerSide) rq
      \<lparr>hm_headers = [], hm_version = HTTP_1_1, rs_status = 200, rs_reason = ''OK''\<rparr> = Inr (s, rs) \<and>
    checkClientHandshakeResponse (\<lambda>m. replicate 20 0) c rs = Inr (True, c') \<and>
    handshakeComplete s \<and> handshakeComplete c' \<and>
    (\<forall>v. checkClientHandshakeResponse (\<lambda>m. replicate 20 0) c (hm_set ''Sec-WebSocket-Accept'' v rs) =
       (if v = accept then Inr (True, c') else Inl RuntimeError))"
  by (rule handshake_completes) (simp_all add: default_request_def new_request_def hm_ok_def)

text \<open>
  A message of 64 KiB or more is sent with a wrong length: the length is converted to
  16 bits before it is written into the 64-bit field, so that the receiver takes only the length
  modulo 65536 as the payload and the rest of the message as further frames.
\<close>

theorem long_message_truncated:
  assumes "handshakeComplete f" and "handshakeComplete g" and "\<not> fr_maskPayload f" and "length junk = 14"
    and "flags = send_Text \<or> flags = send_Binary" and "65536 \<le> length data"
    and "length data + 14 \<le> length storage" and "length storage < size_max"
  shows "\<exists>frame r'. ws_send be f storage msk data flags = Inr frame \<and>
    length frame = length data + 10 \<and>
    snd (readFrame be' junk g (rd_of_buffer frame)) = Inr (length data mod 65536, 10, r')"
proof -
  define v where "v = (ucast (word_of_nat (length data) :: u16) :: u64)"
  let ?fl = "word_of_int flags :: u8"
  let ?frame = "?fl # 127 # setBE64 v @ data"
  have v: "unat v = length data mod 65536"
    by (simp add: v_def unsigned_ucast_eq unsigned_of_nat take_bit_eq_mod)
  have w: "wr_of_buffer storage = wr_init storage (length storage) Network"
    using assms(7) by (auto simp: wr_of_buffer_def)
  have h: "fixed_holds (wr_init storage (length storage) Network) [] (1 + (1 + (8 + (length data + 4))))"
    using assms(7,8) by (simp add: fixed_holds_def wr_init_def)
  obtain w1 where w1: "wr_putU8 (wr_init storage (length storage) Network) ?fl = Inr w1"
    "fixed_holds w1 [?fl] (1 + (8 + (length data + 4)))"
    using fixed.putU8_holds [OF h, of ?fl] by auto
  obtain w2 where w2: "wr_putU8 w1 127 = Inr w2" "fixed_holds w2 [?fl, 127] (8 + (length data + 4))"
    using fixed.putU8_holds [OF w1(2), of 127] by auto
  obtain w3 where w3: "wr_putU64 be w2 v = Inr w3" "fixed_holds w3 (?fl # 127 # setBE64 v) (length data + 4)"
    using fixed.putU64_holds [OF w2(2), of be v] by auto
  obtain w4 where w4: "wr_put w3 data = Inr w4" "fixed_holds w4 ?frame 4"
    using fixed.put_holds [OF w3(2)] by auto
  have "flags \<noteq> 0" using assms(5) by (auto simp: send_Text_def send_Binary_def)
  then have "ws_send be f storage msk data flags = Inr ?frame"
    using assms(1,3,5,6) w w1 w2 w3 w4 fixed.holds_toString [OF w4(2)]
    by (simp add: ws_send_def writeFrame_def write_length_def v_def [symmetric] wr_init_def)
  moreover have "snd (readFrame be' junk g (rd_of_buffer ?frame)) =
      Inr (length data mod 65536, 10, (rd_of_buffer ?frame)\<lparr>rd_position := 10 + length data mod 65536\<rparr>)"
  proof -
    have b: "(127 :: u8) AND 0x7f = 127" "(127 :: u8) AND FRAME_FLAG_MASK = 0"
      by (simp_all add: FRAME_FLAG_MASK_def)
    have n: "header_take 127 = 12" by (simp add: header_take_def b MAX_HEADER_LENGTH_def)
    have hd: "read_header junk (rd_at [] ?frame) =
        Inr (?fl, 127, rd_at [?fl, 127] (setBE64 v @ take 4 data),
          (rd_at [] ?frame)\<lparr>rd_position := size_add 14 2\<rparr>)"
      using read_header_at [of junk 127 "setBE64 v @ data" "[]" ?fl] n assms(4,6,7,8) by simp
    have "length data mod 65536 \<le> length data" by simp
    then have "10 + length data mod 65536 \<le> length ?frame" by simp
    then show ?thesis using assms(2) hd v b
      by (simp add: rd_of_buffer_at readFrame_def read_payload_def read_length_def rd_seek_def)
  qed
  ultimately show ?thesis by auto
qed

theorem long_message_truncated_witness:
  "\<exists>frame r'. ws_send False sample_server (replicate 65600 0) 0 (replicate 65537 1) send_Binary = Inr frame \<and>
    length frame = length (replicate 65537 (1 :: u8)) + 10 \<and>
    snd (readFrame False (replicate 14 0) sample_client (rd_of_buffer frame)) =
      Inr (length (replicate 65537 (1 :: u8)) mod 65536, 10, r')"
  by (rule long_message_truncated) (simp_all, simp add: sample_server_def new_framer_def)

text \<open>
  A masked frame that arrives incomplete makes \<^verbatim>\<open>readFrame\<close> write behind the receive
  buffer: the payload is unmasked in place before its end is compared with the end of the buffer,
  and the check in front of it compares the length of the payload with the size of the whole buffer.
\<close>

theorem truncated_frame_overrun:
  assumes "handshakeComplete g" and "length junk = 14" and "length m = 4"
    and "8 \<le> length p" and "length p < len" and "len \<le> length p + 6" and "len < 126"
  shows "snd (readFrame be junk g (rd_of_buffer (a # length_head True len # m @ p))) = Inl Undefined"
proof -
  have n: "header_take (length_head True len) = 12"
    using length_head_bits(2,3) [of True len] assms(4,5,7) by (simp add: header_take_def MAX_HEADER_LENGTH_def)
  have hd: "read_header junk (rd_at [] (a # length_head True len # m @ p)) =
      Inr (a, length_head True len, rd_at [a, length_head True len] (m @ take 8 p),
        (rd_at [] (a # length_head True len # m @ p))\<lparr>rd_position := size_add 14 2\<rparr>)"
    using read_header_at [of junk "length_head True len" "m @ p" "[]" a] n assms(2-7) by simp
  have ln: "read_length be (6 + length p) (length_head True len)
      (rd_at [a, length_head True len] (m @ take 8 p)) =
      Inr (len, 2, rd_at [a, length_head True len] (m @ take 8 p))"
    using read_length_at [of len _ "[a, length_head True len]" "m @ take 8 p" be True] assms(3-7)
    by (simp add: length_tail_def)
  have mk: "rd_get (rd_at [a, length_head True len] (m @ take 8 p)) 4 =
      Inr (m, rd_at (a # length_head True len # m) (take 8 p))"
    using rd_get_at [of "[a, length_head True len]" m "take 8 p"] assms(3) by simp
  show ?thesis using assms(1,3,5,6) length_head_bits(3) [of True len]
    by (simp add: rd_of_buffer_at readFrame_def hd read_payload_def ln mk unmask_at_def)
qed

theorem truncated_frame_overrun_witness:
  "snd (readFrame False (replicate 14 0) sample_server
     (rd_of_buffer (0x82 # length_head True 20 # [1, 2, 3, 4] @ replicate 14 0))) = Inl Undefined"
  by (rule truncated_frame_overrun) simp_all

end
