(* ===== verification/Key_Collection.thy ===== *)
theory Key_Collection
  imports NV_Collection
begin

text \<open>
  The collection templates of \<^verbatim>\<open>src/base/include/scy/collection.h\<close> that keep one item per key:
  \<^verbatim>\<open>PointerCollection\<close>, which holds the connections of a TURN allocation, and
  \<^verbatim>\<open>KVCollection\<close>. Both are a \<^verbatim>\<open>std::map\<close>: the list of its entries in iteration order, with
  keys that ascend in the order of the map. Keys that are equivalent in the order are the same
  key of the map, even when they differ.

  The lemmas hold for every strict weak ordering of the keys (the locale \<open>weak_order\<close>) and
  show that the operations act as on a partial function that respects the equivalence.
\<close>

subsection \<open>Ordered maps\<close>

definition om_ok :: "('k \<Rightarrow> 'k \<Rightarrow> bool) \<Rightarrow> ('k \<times> 'v) list \<Rightarrow> bool" where
  "om_ok lt xs = sorted_wrt (\<lambda>x y. lt (fst x) (fst y)) xs"

definition om_find :: "('k \<Rightarrow> 'k \<Rightarrow> bool) \<Rightarrow> 'k \<Rightarrow> ('k \<times> 'v) list \<Rightarrow> 'v option" where
  "om_find lt k xs = map_option (\<lambda>i. snd (xs ! i)) (mm_find lt k xs)"

text \<open>\<^verbatim>\<open>m[key] = item\<close>: an entry that is already there keeps its key.\<close>

definition om_set :: "('k \<Rightarrow> 'k \<Rightarrow> bool) \<Rightarrow> 'k \<Rightarrow> 'v \<Rightarrow> ('k \<times> 'v) list \<Rightarrow> ('k \<times> 'v) list" where
  "om_set lt k v xs =
     (case mm_find lt k xs of
        Some i \<Rightarrow> xs[i := (fst (xs ! i), v)]
      | None \<Rightarrow> mm_insert lt (k, v) xs)"

text \<open>\<^verbatim>\<open>m.insert(value_type(key, item))\<close> leaves an entry that is already there alone.\<close>

definition om_insert :: "('k \<Rightarrow> 'k \<Rightarrow> bool) \<Rightarrow> 'k \<Rightarrow> 'v \<Rightarrow> ('k \<times> 'v) list \<Rightarrow> ('k \<times> 'v) list" where
  "om_insert lt k v xs = (if mm_find lt k xs = None then mm_insert lt (k, v) xs else xs)"

context weak_order
begin

lemma om_ok_sorted: "om_ok lt xs \<Longrightarrow> mm_sorted lt xs"
  unfolding om_ok_def mm_sorted_def by (erule sorted_wrt_mono_rel [rotated]) (use irrefl trans in blast)

lemma om_values:
  assumes "om_ok lt xs"
  shows "mm_values lt xs k = (case om_find lt k xs of None \<Rightarrow> [] | Some v \<Rightarrow> [v])"
proof (cases "mm_find lt k xs")
  case None
  then show ?thesis using find_None [OF om_ok_sorted [OF assms], of k] by (simp add: om_find_def)
next
  case (Some i)
  note i = find_Some [OF om_ok_sorted [OF assms] Some]
  have xs: "xs = take i xs @ xs ! i # drop (Suc i) xs" using i by (simp add: id_take_nth_drop)
  have "filter (\<lambda>y. mm_equiv lt (fst y) k) (take i xs) = []"
    using i by (fastforce simp: filter_empty_conv in_set_conv_nth)
  moreover have "filter (\<lambda>y. mm_equiv lt (fst y) k) (drop (Suc i) xs) = []"
  proof -
    have "om_ok lt (take i xs @ xs ! i # drop (Suc i) xs)" using assms xs by simp
    then have lt: "lt (fst (xs ! i)) (fst y)" if "y \<in> set (drop (Suc i) xs)" for y
      using that by (simp add: om_ok_def sorted_wrt_append)
    have "\<not> mm_equiv lt (fst y) k" if "y \<in> set (drop (Suc i) xs)" for y
      using lt [OF that] i equiv_right [of "fst (xs ! i)" k "fst y"] by (auto simp: mm_equiv_def)
    then show ?thesis by (simp add: filter_empty_conv)
  qed
  ultimately have "filter (\<lambda>y. mm_equiv lt (fst y) k) xs = [xs ! i]"
    using i by (subst xs) simp
  with Some show ?thesis by (simp add: om_find_def mm_values_def)
qed

lemma om_find_equiv: "om_ok lt xs \<Longrightarrow> mm_equiv lt a b \<Longrightarrow> om_find lt a xs = om_find lt b xs"
  using values_equiv [of a b xs] by (simp add: om_values split: option.splits)

lemma om_find_mem:
  assumes "om_ok lt xs" and "om_find lt k xs = Some v"
  shows "\<exists>k'. (k', v) \<in> set xs \<and> mm_equiv lt k' k"
proof -
  obtain i where i: "mm_find lt k xs = Some i" "v = snd (xs ! i)"
    using assms(2) by (auto simp: om_find_def)
  then have "(fst (xs ! i), v) \<in> set xs" "mm_equiv lt (fst (xs ! i)) k"
    using find_Some [OF om_ok_sorted [OF assms(1)] i(1)] by auto
  then show ?thesis by blast
qed

lemma om_mem_find:
  assumes "om_ok lt xs" and "(k', v) \<in> set xs" and "mm_equiv lt k' k"
  shows "om_find lt k xs = Some v"
proof -
  have "v \<in> set (mm_values lt xs k)" using assms(2,3) by (force simp: mm_values_def)
  then show ?thesis using om_values [OF assms(1)] by (auto split: option.splits)
qed

lemma insert_ok:
  assumes "om_ok lt xs" and "mm_find lt (fst e) xs = None"
  shows "om_ok lt (mm_insert lt e xs)"
  using assms
proof (induction xs)
  case (Cons x xs)
  show ?case
  proof (cases "lt (fst e) (fst x)")
    case True
    then show ?thesis using Cons.prems trans by (fastforce simp: om_ok_def)
  next
    case False
    then have "lt (fst x) (fst e)" using Cons.prems(2) by (auto split: if_splits)
    then show ?thesis using Cons False by (auto simp: om_ok_def insert_set split: if_splits)
  qed
qed (simp add: om_ok_def)

lemma update_ok:
  "om_ok lt xs \<Longrightarrow> i < length xs \<Longrightarrow> om_ok lt (xs[i := (fst (xs ! i), v)])"
  by (auto simp: om_ok_def sorted_wrt_iff_nth_less nth_list_update)

lemma set_ok: "om_ok lt xs \<Longrightarrow> om_ok lt (om_set lt k v xs)"
  using find_Some [OF om_ok_sorted] insert_ok [of xs "(k, v)"]
  by (fastforce simp: om_set_def intro: update_ok split: option.splits)

lemma om_insert_ok: "om_ok lt xs \<Longrightarrow> om_ok lt (om_insert lt k v xs)"
  using insert_ok [of xs "(k, v)"] by (simp add: om_insert_def)

lemma erase_ok: "om_ok lt xs \<Longrightarrow> om_ok lt (mm_erase lt k xs)"
  by (simp add: om_ok_def mm_erase_def sorted_wrt_filter)

lemma find_set:
  assumes "om_ok lt xs"
  shows "om_find lt k' (om_set lt k v xs) = (if mm_equiv lt k k' then Some v else om_find lt k' xs)"
proof -
  note s = om_ok_sorted [OF assms] and ok = om_values [OF set_ok [OF assms]]
  have "mm_values lt (om_set lt k v xs) k' =
      (if mm_equiv lt k k' then [v] else mm_values lt xs k')"
  proof (cases "mm_find lt k xs")
    case None
    then have "mm_values lt xs k' = []" if "mm_equiv lt k k'"
      using values_equiv [OF that, of xs] find_None [OF s, of k] by simp
    with None show ?thesis using values_insert [OF s] by (simp add: om_set_def)
  next
    case (Some i)
    then have "tl (mm_values lt xs k') = []"
      using om_values [OF assms] by (simp split: option.splits)
    with Some show ?thesis using values_update(1) [OF s Some] by (simp add: om_set_def)
  qed
  then show ?thesis using ok [of k v k'] om_values [OF assms, of k']
    by (auto split: option.splits if_splits)
qed

lemma find_erase:
  assumes "om_ok lt xs"
  shows "om_find lt k' (mm_erase lt k xs) = (if mm_equiv lt k k' then None else om_find lt k' xs)"
  using values_erase [of k xs k'] om_values [OF assms, of k'] om_values [OF erase_ok [OF assms], of k k']
  by (auto split: option.splits if_splits)

lemma find_insert:
  assumes "om_ok lt xs"
  shows "om_find lt k' (om_insert lt k v xs) =
    (if mm_equiv lt k k' \<and> om_find lt k xs = None then Some v else om_find lt k' xs)"
  using find_set [OF assms, of k' k v] by (auto simp: om_insert_def om_set_def om_find_def split: option.splits)

lemma find_mid:
  assumes "om_ok lt (ys @ (k, v) # zs)"
  shows "mm_find lt k (ys @ (k, v) # zs) = Some (length ys)"
proof -
  have "lt (fst y) k" if "y \<in> set ys" for y using that assms by (auto simp: om_ok_def sorted_wrt_append)
  then show ?thesis by (induction ys) (auto simp: irrefl)
qed

lemma om_find_mid: "om_ok lt (ys @ (k, v) # zs) \<Longrightarrow> om_find lt k (ys @ (k, v) # zs) = Some v"
  by (simp add: om_find_def find_mid)

lemma om_set_mid: "om_ok lt (ys @ (k, v) # zs) \<Longrightarrow> om_set lt k v' (ys @ (k, v) # zs) = ys @ (k, v') # zs"
  by (simp add: om_set_def find_mid)

lemma erase_mid:
  assumes "om_ok lt (ys @ (k, v) # zs)"
  shows "mm_erase lt k (ys @ (k, v) # zs) = ys @ zs"
proof -
  have "\<not> mm_equiv lt (fst y) k" if "y \<in> set ys \<union> set zs" for y
    using that assms by (auto simp: om_ok_def sorted_wrt_append mm_equiv_def)
  then have "filter (\<lambda>x. \<not> mm_equiv lt (fst x) k) ys = ys" "filter (\<lambda>x. \<not> mm_equiv lt (fst x) k) zs = zs"
    by (auto simp: filter_id_conv)
  then show ?thesis by (simp add: mm_erase_def equiv_refl)
qed

lemma om_ok_map: "om_ok lt (map (\<lambda>x. (fst x, f x)) xs) \<longleftrightarrow> om_ok lt xs"
  by (simp add: om_ok_def sorted_wrt_map)

end

interpretation lin: weak_order "(<) :: 'k :: linorder \<Rightarrow> 'k \<Rightarrow> bool"
  by unfold_locales (auto simp: mm_equiv_def)

lemma mm_equiv_less [simp]: "mm_equiv (<) (a :: 'k :: linorder) b \<longleftrightarrow> a = b"
  by (auto simp: mm_equiv_def)

subsection \<open>PointerCollection\<close>

text \<open>
  An item is a pointer, whatever it points to. \<^verbatim>\<open>free\<close> passes the removed pointer to the deleter: the
  model returns it. The hooks \<^verbatim>\<open>onAdd\<close> and \<^verbatim>\<open>onRemove\<close> are empty in this class.
\<close>

definition pc_exists :: "'k :: linorder \<Rightarrow> ('k \<times> 'v) list \<Rightarrow> bool" where
  "pc_exists key m \<longleftrightarrow> mm_find (<) key m \<noteq> None"

definition pc_add :: "'k :: linorder \<Rightarrow> 'v \<Rightarrow> bool \<Rightarrow> ('k \<times> 'v) list \<Rightarrow> (bool \<times> ('k \<times> 'v) list) result" where
  "pc_add key item whiny m =
     (if pc_exists key m then (if whiny then Inl RuntimeError else Inr (False, m))
      else Inr (True, om_set (<) key item m))"

definition pc_update :: "'k :: linorder \<Rightarrow> 'v \<Rightarrow> ('k \<times> 'v) list \<Rightarrow> ('k \<times> 'v) list" where
  "pc_update key item m = om_set (<) key item m"

definition pc_get :: "'k :: linorder \<Rightarrow> bool \<Rightarrow> ('k \<times> 'v) list \<Rightarrow> 'v option result" where
  "pc_get key whiny m =
     (case om_find (<) key m of
        Some v \<Rightarrow> Inr (Some v)
      | None \<Rightarrow> if whiny then Inl RuntimeError else Inr None)"

definition pc_remove :: "'k :: linorder \<Rightarrow> ('k \<times> 'v) list \<Rightarrow> 'v option \<times> ('k \<times> 'v) list" where
  "pc_remove key m = (om_find (<) key m, mm_erase (<) key m)"

fun pc_remove_item :: "'v \<Rightarrow> ('k :: linorder \<times> 'v) list \<Rightarrow> bool \<times> ('k \<times> 'v) list" where
  "pc_remove_item item [] = (False, [])"
| "pc_remove_item item (x # m) =
     (if item = snd x then (True, m) else let (r, m') = pc_remove_item item m in (r, x # m'))"

definition pc_exists_item :: "'v \<Rightarrow> ('k :: linorder \<times> 'v) list \<Rightarrow> bool" where
  "pc_exists_item item m = list_ex (\<lambda>x. item = snd x) m"

text \<open>\<^verbatim>\<open>free\<close> answers whether \<^verbatim>\<open>remove\<close> gave an item; the stored pointers are taken to be not null.\<close>

definition pc_free :: "'k :: linorder \<Rightarrow> ('k \<times> 'v) list \<Rightarrow> bool \<times> 'v option \<times> ('k \<times> 'v) list" where
  "pc_free key m = (let (item, m) = pc_remove key m in (item \<noteq> None, item, m))"

definition pc_clear :: "('k :: linorder \<times> 'v) list \<Rightarrow> 'v list \<times> ('k \<times> 'v) list" where
  "pc_clear m = (map snd m, [])"

subsection \<open>KVCollection\<close>

definition kv_has :: "'k :: linorder \<Rightarrow> ('k \<times> 'v) list \<Rightarrow> bool" where
  "kv_has key m \<longleftrightarrow> mm_find (<) key m \<noteq> None"

definition kv_add :: "'k :: linorder \<Rightarrow> 'v \<Rightarrow> bool \<Rightarrow> bool \<Rightarrow> ('k \<times> 'v) list \<Rightarrow> (bool \<times> ('k \<times> 'v) list) result" where
  "kv_add key item update whiny m =
     (if \<not> update \<and> kv_has key m then (if whiny then Inl RuntimeError else Inr (False, m))
      else Inr (True, om_insert (<) key item m))"

definition kv_get :: "'k :: linorder \<Rightarrow> ('k \<times> 'v) list \<Rightarrow> 'v result" where
  "kv_get key m = (case om_find (<) key m of Some v \<Rightarrow> Inr v | None \<Rightarrow> Inl RuntimeError)"

definition kv_get_default :: "'k :: linorder \<Rightarrow> 'v \<Rightarrow> ('k \<times> 'v) list \<Rightarrow> 'v" where
  "kv_get_default key defaultValue m =
     (case om_find (<) key m of Some v \<Rightarrow> v | None \<Rightarrow> defaultValue)"

definition kv_remove :: "'k :: linorder \<Rightarrow> ('k \<times> 'v) list \<Rightarrow> bool \<times> ('k \<times> 'v) list" where
  "kv_remove key m = (if kv_has key m then (True, mm_erase (<) key m) else (False, m))"

definition kv_clear :: "('k :: linorder \<times> 'v) list \<Rightarrow> ('k \<times> 'v) list" where
  "kv_clear m = []"

subsection \<open>The collections as partial functions\<close>

datatype ('k, 'v) pc_op =
    PAdd 'k 'v bool | PUpdate 'k 'v | PGet 'k bool | PExists 'k | PRemove 'k | PFree 'k | PClear

datatype 'v pc_reply = Flag bool | Item "'v option" | Thrown err | Done

fun pc_run :: "('k :: linorder, 'v) pc_op \<Rightarrow> ('k \<times> 'v) list \<Rightarrow> 'v pc_reply \<times> ('k \<times> 'v) list" where
  "pc_run (PAdd k v whiny) m = (case pc_add k v whiny m of Inl e \<Rightarrow> (Thrown e, m) | Inr (b, m) \<Rightarrow> (Flag b, m))"
| "pc_run (PUpdate k v) m = (Done, pc_update k v m)"
| "pc_run (PGet k whiny) m = (case pc_get k whiny m of Inl e \<Rightarrow> (Thrown e, m) | Inr r \<Rightarrow> (Item r, m))"
| "pc_run (PExists k) m = (Flag (pc_exists k m), m)"
| "pc_run (PRemove k) m = (let (r, m) = pc_remove k m in (Item r, m))"
| "pc_run (PFree k) m = (let (b, _, m) = pc_free k m in (Flag b, m))"
| "pc_run PClear m = (Done, snd (pc_clear m))"

fun pc_spec :: "('k, 'v) pc_op \<Rightarrow> ('k \<rightharpoonup> 'v) \<Rightarrow> 'v pc_reply \<times> ('k \<rightharpoonup> 'v)" where
  "pc_spec (PAdd k v whiny) f =
     (if k \<in> dom f then (if whiny then Thrown RuntimeError else Flag False, f) else (Flag True, f(k \<mapsto> v)))"
| "pc_spec (PUpdate k v) f = (Done, f(k \<mapsto> v))"
| "pc_spec (PGet k whiny) f = (if k \<notin> dom f \<and> whiny then Thrown RuntimeError else Item (f k), f)"
| "pc_spec (PExists k) f = (Flag (k \<in> dom f), f)"
| "pc_spec (PRemove k) f = (Item (f k), f(k := None))"
| "pc_spec (PFree k) f = (Flag (k \<in> dom f), f(k := None))"
| "pc_spec PClear f = (Done, Map.empty)"

text \<open>The replies to a sequence of operations.\<close>

fun replies :: "('o \<Rightarrow> 's \<Rightarrow> 'r \<times> 's) \<Rightarrow> 'o list \<Rightarrow> 's \<Rightarrow> 'r list" where
  "replies run [] s = []"
| "replies run (p # ps) s = (let (r, s) = run p s in r # replies run ps s)"

abbreviation om_map :: "('k :: linorder \<times> 'v) list \<Rightarrow> 'k \<rightharpoonup> 'v" where
  "om_map m \<equiv> \<lambda>k. om_find (<) k m"

lemma find_om_map: "mm_find (<) k m = None \<longleftrightarrow> om_map m k = None"
  by (auto simp: om_find_def)

lemma pc_step:
  assumes "om_ok (<) m"
  shows "om_ok (<) (snd (pc_run p m)) \<and>
    pc_spec p (om_map m) = (fst (pc_run p m), om_map (snd (pc_run p m)))"
  using assms lin.set_ok [OF assms] lin.erase_ok [OF assms]
  by (cases p)
    (auto simp: pc_add_def pc_exists_def find_om_map pc_update_def pc_get_def pc_remove_def pc_free_def
      pc_clear_def lin.find_set [OF assms] lin.find_erase [OF assms] om_ok_def om_find_def [of _ _ "[]"]
      fun_eq_iff split: option.splits)

lemma pc_replies:
  "om_ok (<) m \<Longrightarrow> replies pc_run ops m = replies pc_spec ops (om_map m)"
proof (induction ops arbitrary: m)
  case (Cons p ops)
  then show ?case using pc_step [OF Cons.prems, of p] by (auto simp: split_beta)
qed simp

text \<open>
  C31 (refinement). A pointer collection is a partial function from its keys to items: whatever sequence of
  additions, updates, queries and removals is performed on an empty collection, each call returns
  or throws what the same call on the function does.
\<close>

theorem pointer_collection_refines: "replies pc_run ops [] = replies pc_spec ops Map.empty"
  using pc_replies [of "[]" ops] by (simp add: om_ok_def om_find_def [abs_def])

text \<open>
  \<^verbatim>\<open>KVCollection::add\<close> with its flag \<^verbatim>\<open>update\<close>, which is the default, reports success and keeps
  the old item of a key that is already there.
\<close>

lemma kv_add_keeps_old:
  assumes "om_ok (<) m" and "om_find (<) key m = Some old"
  shows "kv_add key item True whiny m = Inr (True, m)"
  using assms by (auto simp: kv_add_def om_insert_def om_find_def)

end
