(* ===== verification/Turn_Allocation.thy ===== *)
theory Turn_Allocation
  imports Stun_Message Key_Collection
begin

text \<open>
  The allocations of the TURN module: \<^verbatim>\<open>src/turn/src/fivetuple.cpp\<close>,
  \<^verbatim>\<open>src/turn/src/iallocation.cpp\<close>, \<^verbatim>\<open>src/turn/include/scy/turn/permission.h\<close>, the
  \<^verbatim>\<open>Timeout\<close> of \<^verbatim>\<open>src/util/src/timeout.cpp\<close>, and the part of
  \<^verbatim>\<open>src/turn/src/server/serverallocation.cpp\<close> that belongs to one allocation alone.

  The clocks are arguments: \<open>now\<close> is \<^verbatim>\<open>time(0)\<close> in seconds, \<open>clk\<close> is \<^verbatim>\<open>clock()\<close>. Durations and byte
  counts are \<^verbatim>\<open>int64_t\<close> in the source and integers here.
\<close>

subsection \<open>FiveTuple\<close>

datatype transport_type = UDP | TCP | SSLTCP

record five_tuple =
  ft_remote :: net_address
  ft_local :: net_address
  ft_transport :: transport_type

definition five_tuple_eq :: "'a net_platform_scheme \<Rightarrow> five_tuple \<Rightarrow> five_tuple \<Rightarrow> bool result" where
  "five_tuple_eq env l r =
     bind_r (address_eq env (ft_remote l) (ft_remote r)) (\<lambda>b1.
       if b1 then
         bind_r (address_eq env (ft_local l) (ft_local r)) (\<lambda>b2.
           Inr (b2 \<and> ft_transport l = ft_transport r))
       else Inr False)"

text \<open>\<^verbatim>\<open>operator<\<close>, the order of the server's map of allocations.\<close>

definition five_tuple_less :: "'a net_platform_scheme \<Rightarrow> five_tuple \<Rightarrow> five_tuple \<Rightarrow> bool" where
  "five_tuple_less env l r =
     (if address_port env (ft_remote l) < address_port env (ft_remote r) then True
      else if address_port env (ft_remote r) < address_port env (ft_remote l) then False
      else if address_port env (ft_local l) < address_port env (ft_local r) then True
      else if address_port env (ft_local r) < address_port env (ft_local l) then False
      else False)"

subsection \<open>Timeout and Permission\<close>

record timeout =
  to_startAt :: int
  to_delay :: int

definition new_timeout :: "int \<Rightarrow> timeout" where
  "new_timeout delay = \<lparr>to_startAt = 0, to_delay = delay\<rparr>"

definition to_running :: "timeout \<Rightarrow> bool" where
  "to_running t \<longleftrightarrow> to_startAt t \<noteq> 0"

definition to_start :: "int \<Rightarrow> timeout \<Rightarrow> timeout" where
  "to_start clk t = t\<lparr>to_startAt := clk\<rparr>"

definition to_stop :: "timeout \<Rightarrow> timeout" where
  "to_stop t = t\<lparr>to_startAt := 0\<rparr>"

definition to_reset :: "int \<Rightarrow> timeout \<Rightarrow> timeout" where
  "to_reset clk t = t\<lparr>to_startAt := clk\<rparr>"

definition to_remaining :: "int \<Rightarrow> timeout \<Rightarrow> int" where
  "to_remaining clk t =
     (let remaining = to_delay t - (clk - to_startAt t) in if remaining > 0 then remaining else 0)"

definition to_expired :: "int \<Rightarrow> timeout \<Rightarrow> bool" where
  "to_expired clk t = (if to_delay t = 0 then False else to_remaining clk t = 0)"

definition PERMISSION_LIFETIME :: int where
  "PERMISSION_LIFETIME = 3 * 60 * 1000"

record permission =
  pm_ip :: string
  pm_timeout :: timeout

definition pm_refresh :: "int \<Rightarrow> permission \<Rightarrow> permission" where
  "pm_refresh clk p = p\<lparr>pm_timeout := to_reset clk (pm_timeout p)\<rparr>"

definition new_permission :: "int \<Rightarrow> string \<Rightarrow> permission" where
  "new_permission clk ip = pm_refresh clk \<lparr>pm_ip = ip, pm_timeout = new_timeout PERMISSION_LIFETIME\<rparr>"

subsection \<open>IAllocation\<close>

record allocation =
  al_tuple :: five_tuple
  al_username :: bytes
  al_permissions :: "permission list"
  al_lifetime :: int
  al_bandwidthLimit :: int
  al_bandwidthUsed :: int
  al_createdAt :: int
  al_updatedAt :: int
  al_deleted :: bool

definition new_allocation :: "int \<Rightarrow> five_tuple \<Rightarrow> bytes \<Rightarrow> int \<Rightarrow> allocation" where
  "new_allocation now tuple username lifetime =
     \<lparr>al_tuple = tuple, al_username = username, al_permissions = [], al_lifetime = lifetime,
      al_bandwidthLimit = 0, al_bandwidthUsed = 0, al_createdAt = now, al_updatedAt = now,
      al_deleted = False\<rparr>"

definition updateUsage :: "int \<Rightarrow> int \<Rightarrow> 'a allocation_scheme \<Rightarrow> 'a allocation_scheme" where
  "updateUsage now numBytes a =
     a\<lparr>al_updatedAt := now, al_bandwidthUsed := al_bandwidthUsed a + numBytes\<rparr>"

definition timeRemaining :: "int \<Rightarrow> 'a allocation_scheme \<Rightarrow> int" where
  "timeRemaining now a =
     (let remaining = al_lifetime a - (now - al_updatedAt a) in if remaining > 0 then remaining else 0)"

definition bandwidthRemaining :: "'a allocation_scheme \<Rightarrow> int" where
  "bandwidthRemaining a =
     (if al_bandwidthLimit a > 0
      then (if al_bandwidthLimit a > al_bandwidthUsed a then al_bandwidthLimit a - al_bandwidthUsed a else 0)
      else 99999999)"

text \<open>\<^verbatim>\<open>expired\<close> and \<^verbatim>\<open>deleted\<close> call the virtual \<^verbatim>\<open>timeRemaining\<close>: \<open>remaining\<close> is its answer.\<close>

definition alloc_expired :: "int \<Rightarrow> 'a allocation_scheme \<Rightarrow> bool" where
  "alloc_expired remaining a \<longleftrightarrow> remaining = 0 \<or> bandwidthRemaining a = 0"

definition alloc_deleted :: "int \<Rightarrow> 'a allocation_scheme \<Rightarrow> bool" where
  "alloc_deleted remaining a \<longleftrightarrow> al_deleted a \<or> alloc_expired remaining a"

definition setLifetime :: "int \<Rightarrow> int \<Rightarrow> 'a allocation_scheme \<Rightarrow> 'a allocation_scheme" where
  "setLifetime now lifetime a = a\<lparr>al_lifetime := lifetime, al_updatedAt := now\<rparr>"

definition setBandwidthLimit :: "int \<Rightarrow> 'a allocation_scheme \<Rightarrow> 'a allocation_scheme" where
  "setBandwidthLimit numBytes a = a\<lparr>al_bandwidthLimit := numBytes\<rparr>"

fun add_permission :: "int \<Rightarrow> string \<Rightarrow> permission list \<Rightarrow> permission list" where
  "add_permission clk ip [] = [new_permission clk ip]"
| "add_permission clk ip (p # ps) =
     (if pm_ip p = ip then pm_refresh clk p # ps else p # add_permission clk ip ps)"

definition addPermission :: "int \<Rightarrow> string \<Rightarrow> 'a allocation_scheme \<Rightarrow> 'a allocation_scheme" where
  "addPermission clk ip a = a\<lparr>al_permissions := add_permission clk ip (al_permissions a)\<rparr>"

definition addPermissions :: "int \<Rightarrow> string list \<Rightarrow> 'a allocation_scheme \<Rightarrow> 'a allocation_scheme" where
  "addPermissions clk ips a = fold (addPermission clk) ips a"

fun remove_permission :: "string \<Rightarrow> permission list \<Rightarrow> permission list" where
  "remove_permission ip [] = []"
| "remove_permission ip (p # ps) = (if pm_ip p = ip then ps else p # remove_permission ip ps)"

definition removePermission :: "string \<Rightarrow> 'a allocation_scheme \<Rightarrow> 'a allocation_scheme" where
  "removePermission ip a = a\<lparr>al_permissions := remove_permission ip (al_permissions a)\<rparr>"

definition removeAllPermissions :: "'a allocation_scheme \<Rightarrow> 'a allocation_scheme" where
  "removeAllPermissions a = a\<lparr>al_permissions := []\<rparr>"

definition removeExpiredPermissions :: "int \<Rightarrow> 'a allocation_scheme \<Rightarrow> 'a allocation_scheme" where
  "removeExpiredPermissions clk a =
     a\<lparr>al_permissions := filter (\<lambda>p. \<not> to_expired clk (pm_timeout p)) (al_permissions a)\<rparr>"

definition local_ip :: "string \<Rightarrow> bool" where
  "local_ip ip \<longleftrightarrow> take 8 ip = ''192.168.'' \<or> take 4 ip = ''127.''"

definition hasPermission :: "'a allocation_scheme \<Rightarrow> string \<Rightarrow> bool" where
  "hasPermission a peerIP \<longleftrightarrow>
     list_ex (\<lambda>p. pm_ip p = peerIP) (al_permissions a) \<or> local_ip peerIP"

subsection \<open>The order of five-tuples\<close>

text \<open>The order is a strict weak ordering, as the map requires, but it sees the two ports only.\<close>

lemma five_tuple_less_ports:
  "five_tuple_less env l r \<longleftrightarrow>
     (address_port env (ft_remote l), address_port env (ft_local l)) \<in>
     {(a, b). a < address_port env (ft_remote r) \<or>
        a = address_port env (ft_remote r) \<and> b < address_port env (ft_local r)}"
  by (auto simp: five_tuple_less_def)

lemma five_tuple_equiv:
  "mm_equiv (five_tuple_less env) l r \<longleftrightarrow>
     address_port env (ft_remote l) = address_port env (ft_remote r) \<and>
     address_port env (ft_local l) = address_port env (ft_local r)"
  by (auto simp: mm_equiv_def five_tuple_less_def)

interpretation ft: weak_order "five_tuple_less env" for env :: "'a net_platform_scheme"
  by unfold_locales (auto simp: five_tuple_equiv five_tuple_less_ports)

subsection \<open>Permissions\<close>

lemma new_permission_ip [simp]: "pm_ip (new_permission clk ip) = ip"
  by (simp add: new_permission_def pm_refresh_def)

lemma pm_refresh_ip [simp]: "pm_ip (pm_refresh clk p) = pm_ip p"
  by (simp add: pm_refresh_def)

lemma add_permission_ips:
  "map pm_ip (add_permission clk ip ps) =
   (if ip \<in> pm_ip ` set ps then map pm_ip ps else map pm_ip ps @ [ip])"
  by (induction ps) auto

lemma add_permission_timeout:
  "p \<in> set (add_permission clk ip ps) \<Longrightarrow> p \<in> set ps \<or>
   pm_ip p = ip \<and> (\<exists>q. p = pm_refresh clk q \<and> (q \<in> set ps \<or> to_delay (pm_timeout q) = PERMISSION_LIFETIME))"
proof (induction ps)
  case (Cons q ps)
  then show ?case by (cases "pm_ip q = ip") auto
qed (auto simp: new_permission_def new_timeout_def intro!: exI)

end
