(* ===== verification/Turn_Server.thy ===== *)
theory Turn_Server
  imports Turn_Allocation
begin

text \<open>
  The TURN server: \<^verbatim>\<open>src/turn/src/server/server.cpp\<close>, \<^verbatim>\<open>serverallocation.cpp\<close>,
  \<^verbatim>\<open>udpallocation.cpp\<close>, \<^verbatim>\<open>tcpallocation.cpp\<close> and \<^verbatim>\<open>tcpconnectionpair.cpp\<close>.

  The server's state is its map of allocations (a \<^verbatim>\<open>std::map\<close> ordered by the five-tuples' \<^verbatim>\<open><\<close>) and its list of
  accepted TCP sockets. A TCP socket is a number. Each callback of the event loop (a datagram, a
  timer tick, an accepted or closed connection, data from a peer) is one function from the state to
  the next state. What leaves the server is appended to \<open>sv_out\<close>: packets handed to a socket,
  data relayed to peers, sockets closed, and the notifications of the observer.

  An allocation object is the entry of the map at its own tuple, so \<^verbatim>\<open>delete\<close> removes that entry,
  and a member that is used after \<^verbatim>\<open>delete this\<close> is \<open>Undefined\<close>. The answers of the
  system are arguments in \<open>turn_sys\<close>: the clocks, random strings and numbers, the addresses that sockets
  are bound to, what sending returns, and the decision of the observer's \<^verbatim>\<open>authenticateRequest\<close>
  with the key it leaves in the request. The n-th question to the system is numbered \<open>sv_draws\<close>.
  Opening the listening sockets (\<^verbatim>\<open>start\<close>) is not modelled.
\<close>

subsection \<open>State\<close>

record turn_options =
  op_software :: bytes
  op_realm :: bytes
  op_allocationDefaultLifetime :: u32
  op_allocationMaxLifetime :: u32
  op_allocationMaxPermissions :: int
  op_earlyMediaBufferSize :: int
  op_listenAddr :: net_address
  op_externalIP :: string

record tcp_pair =
  pr_client :: "nat option"
  pr_peer :: "nat option"
  pr_early :: bytes
  pr_isDataConnection :: bool
  pr_timeout :: timeout
  pr_transactionID :: bytes

datatype relay = UDPRelay net_address | TCPRelay nat net_address "(u32 \<times> tcp_pair) list"

record server_allocation = allocation +
  al_maxLifetime :: u32
  al_relay :: relay

record turn_request =
  rq_message :: message
  rq_transport :: transport_type
  rq_localAddress :: net_address
  rq_remoteAddress :: net_address
  rq_hash :: bytes

datatype auth_state = Authenticating | Authorized | QuotaReached | NotAuthorized

datatype turn_output =
    SendUDP net_address message
  | SendTCP nat message
  | SendPeer net_address net_address bytes
  | SendRaw nat bytes
  | ConnectTCP nat net_address
  | CloseSocket nat
  | CloseRelay net_address
  | AllocationCreated five_tuple
  | AllocationRemoved five_tuple

record turn_server =
  sv_options :: turn_options
  sv_allocations :: "(five_tuple \<times> server_allocation) list"
  sv_tcpSockets :: "(nat \<times> net_address) list"
  sv_draws :: nat
  sv_out :: "turn_output list"

record turn_sys =
  ts_now :: int
  ts_clock :: int
  ts_random :: "nat \<Rightarrow> nat \<Rightarrow> bytes"
  ts_number :: "nat \<Rightarrow> u32"
  ts_bound :: "nat \<Rightarrow> net_address"
  ts_sent :: "nat \<Rightarrow> int"
  ts_auth :: "turn_request \<Rightarrow> auth_state \<times> bytes"

definition new_server :: "turn_options \<Rightarrow> turn_server" where
  "new_server options =
     \<lparr>sv_options = options, sv_allocations = [], sv_tcpSockets = [], sv_draws = 0, sv_out = []\<rparr>"

definition emit :: "turn_output \<Rightarrow> turn_server \<Rightarrow> turn_server" where
  "emit x s = s\<lparr>sv_out := sv_out s @ [x]\<rparr>"

definition next_draw :: "turn_server \<Rightarrow> turn_server" where
  "next_draw s = s\<lparr>sv_draws := Suc (sv_draws s)\<rparr>"

subsection \<open>Requests\<close>

text \<open>\<^verbatim>\<open>get<T>\<close> casts the attribute with the type code of \<^verbatim>\<open>T\<close> to the class \<^verbatim>\<open>T\<close>.\<close>

definition request_get :: "turn_request \<Rightarrow> attribute_type \<Rightarrow> int \<Rightarrow> attribute option" where
  "request_get r t index = message_get (rq_message r) t index"

definition attr_value :: "attribute \<Rightarrow> u32 result" where
  "attr_value a = (case attr_body a of UInt32Body v \<Rightarrow> Inr v | _ \<Rightarrow> Inl Undefined)"

definition attr_address :: "attribute \<Rightarrow> net_address result" where
  "attr_address a = (case attr_body a of AddressBody v \<Rightarrow> Inr v | _ \<Rightarrow> Inl Undefined)"

definition request_method :: "turn_request \<Rightarrow> method_type \<Rightarrow> bool" where
  "request_method r m \<longleftrightarrow> msg_method (rq_message r) = method_code m"

definition request_class :: "turn_request \<Rightarrow> class_type \<Rightarrow> bool" where
  "request_class r c \<longleftrightarrow> msg_class (rq_message r) = class_code c"

text \<open>The constructor of \<^verbatim>\<open>Request\<close> copies the message.\<close>

definition new_turn_request ::
    "message \<Rightarrow> transport_type \<Rightarrow> net_address \<Rightarrow> net_address \<Rightarrow> turn_request result" where
  "new_turn_request m transport localAddress remoteAddress =
     bind_r (message_copy m) (\<lambda>m.
       Inr \<lparr>rq_message = m, rq_transport = transport, rq_localAddress = localAddress,
            rq_remoteAddress = remoteAddress, rq_hash = []\<rparr>)"

subsection \<open>Allocations of the server\<close>

definition getAllocation :: "'a net_platform_scheme \<Rightarrow> turn_server \<Rightarrow> five_tuple \<Rightarrow> server_allocation option" where
  "getAllocation env s tuple = om_find (five_tuple_less env) tuple (sv_allocations s)"

definition put_alloc :: "'a net_platform_scheme \<Rightarrow> server_allocation \<Rightarrow> turn_server \<Rightarrow> turn_server" where
  "put_alloc env a s =
     s\<lparr>sv_allocations := om_set (five_tuple_less env) (al_tuple a) a (sv_allocations s)\<rparr>"

definition addAllocation ::
    "'a net_platform_scheme \<Rightarrow> server_allocation \<Rightarrow> turn_server \<Rightarrow> turn_server result" where
  "addAllocation env a s =
     assert_r (getAllocation env s (al_tuple a) = None)
       (Inr (emit (AllocationCreated (al_tuple a)) (put_alloc env a s)))"

definition removeAllocation ::
    "'a net_platform_scheme \<Rightarrow> server_allocation \<Rightarrow> turn_server \<Rightarrow> turn_server result" where
  "removeAllocation env a s =
     assert_r (getAllocation env s (al_tuple a) \<noteq> None)
       (Inr (emit (AllocationRemoved (al_tuple a))
          (s\<lparr>sv_allocations := mm_erase (five_tuple_less env) (al_tuple a) (sv_allocations s)\<rparr>)))"

definition maxTimeRemaining :: "int \<Rightarrow> server_allocation \<Rightarrow> int" where
  "maxTimeRemaining now a =
     (let elapsed = now - al_createdAt a; m = int (unat (al_maxLifetime a))
      in if elapsed > m then 0 else m - elapsed)"

definition sa_timeRemaining :: "int \<Rightarrow> server_allocation \<Rightarrow> int" where
  "sa_timeRemaining now a = min (timeRemaining now a) (maxTimeRemaining now a)"

definition sa_deleted :: "int \<Rightarrow> server_allocation \<Rightarrow> bool" where
  "sa_deleted now a = alloc_deleted (sa_timeRemaining now a) a"

definition new_server_allocation ::
    "int \<Rightarrow> turn_options \<Rightarrow> five_tuple \<Rightarrow> bytes \<Rightarrow> int \<Rightarrow> relay \<Rightarrow> server_allocation" where
  "new_server_allocation now options tuple username lifetime rel =
     allocation.extend (new_allocation now tuple username lifetime)
       \<lparr>al_maxLifetime = op_allocationMaxLifetime options div 1000, al_relay = rel\<rparr>"

fun relayedAddress :: "relay \<Rightarrow> net_address" where
  "relayedAddress (UDPRelay a) = a"
| "relayedAddress (TCPRelay _ a _) = a"

subsection \<open>TCP sockets and responses\<close>

fun find_socket :: "'a net_platform_scheme \<Rightarrow> net_address \<Rightarrow> (nat \<times> net_address) list \<Rightarrow> nat result" where
  "find_socket env peerAddr [] = Inl AssertFail"
| "find_socket env peerAddr (x # xs) =
     bind_r (address_eq env (snd x) peerAddr) (\<lambda>same.
       if same then Inr (fst x) else find_socket env peerAddr xs)"

definition getTCPSocket :: "'a net_platform_scheme \<Rightarrow> turn_server \<Rightarrow> net_address \<Rightarrow> nat result" where
  "getTCPSocket env s peerAddr = find_socket env peerAddr (sv_tcpSockets s)"

fun remove_socket :: "nat \<Rightarrow> (nat \<times> net_address) list \<Rightarrow> (nat \<times> net_address) list result" where
  "remove_socket sock [] = Inl AssertFail"
| "remove_socket sock (x # xs) =
     (if fst x = sock then Inr xs else bind_r (remove_socket sock xs) (\<lambda>ys. Inr (x # ys)))"

definition releaseTCPSocket :: "nat \<Rightarrow> turn_server \<Rightarrow> turn_server result" where
  "releaseTCPSocket sock s =
     bind_r (remove_socket sock (sv_tcpSockets s)) (\<lambda>xs. Inr (s\<lparr>sv_tcpSockets := xs\<rparr>))"

definition onTCPAcceptConnection :: "nat \<Rightarrow> net_address \<Rightarrow> turn_server \<Rightarrow> turn_server" where
  "onTCPAcceptConnection sock peerAddr s = s\<lparr>sv_tcpSockets := sv_tcpSockets s @ [(sock, peerAddr)]\<rparr>"

definition respond ::
    "'a net_platform_scheme \<Rightarrow> turn_request \<Rightarrow> message \<Rightarrow> turn_server \<Rightarrow> turn_server result" where
  "respond env request response s =
     (let response = (if rq_hash request \<noteq> [] then message_add response (setKey new_integrity (rq_hash request))
                      else response)
      in case rq_transport request of
           UDP \<Rightarrow> Inr (emit (SendUDP (rq_remoteAddress request) response) s)
         | _ \<Rightarrow> bind_r (getTCPSocket env s (rq_remoteAddress request)) (\<lambda>sock.
                  Inr (emit (SendTCP sock response) s)))"

text \<open>The new messages of the handlers draw a transaction id that \<^verbatim>\<open>setTransactionID\<close> replaces.\<close>

definition response_to :: "turn_request \<Rightarrow> class_type \<Rightarrow> u16 \<Rightarrow> message result" where
  "response_to request clss method =
     setTransactionID \<lparr>msg_class = class_code clss, msg_method = method, msg_size = 0, msg_tid = [],
                       msg_attrs = []\<rparr>
       (msg_tid (rq_message request))"

definition error_message :: "turn_options \<Rightarrow> message \<Rightarrow> bytes \<Rightarrow> int \<Rightarrow> string \<Rightarrow> message" where
  "error_message options m nonce code errorDesc =
     message_add (message_add (message_add (message_add m
       (setBytes (new_string Software 0) (op_software options)))
       (setBytes (new_string Realm 0) (op_realm options)))
       (setBytes (new_string Nonce 0) nonce))
       (setReason (setErrorCode (new_error 4) code) (bytes_of_text errorDesc))"

definition respondError ::
    "'a net_platform_scheme \<Rightarrow> turn_sys \<Rightarrow> turn_request \<Rightarrow> int \<Rightarrow> string \<Rightarrow> turn_server \<Rightarrow> turn_server result" where
  "respondError env sys request code errorDesc s =
     bind_r (response_to request ErrorResponse (msg_method (rq_message request))) (\<lambda>m.
       assert_r (errorCode (word_of_int (trunc_div code 100)) (word_of_int (code - 100 * trunc_div code 100)) = code)
         (respond env request
            (error_message (sv_options s) m (ts_random sys (sv_draws s) 32) code errorDesc) (next_draw s)))"

subsection \<open>Connection pairs\<close>

definition new_pair :: tcp_pair where
  "new_pair =
     \<lparr>pr_client = None, pr_peer = None, pr_early = [], pr_isDataConnection = False,
      pr_timeout = new_timeout 0, pr_transactionID = []\<rparr>"

text \<open>The constructor draws numbers until one is not yet the id of a pair of the allocation.\<close>

partial_function (option) fresh_id ::
    "(nat \<Rightarrow> u32) \<Rightarrow> nat \<Rightarrow> (u32 \<times> tcp_pair) list \<Rightarrow> (u32 \<times> nat) option" where
  [code]: "fresh_id number n pairs =
     (if pc_exists (number n) pairs then fresh_id number (Suc n) pairs else Some (number n, Suc n))"

definition close_sockets :: "nat option \<Rightarrow> turn_server \<Rightarrow> turn_server" where
  "close_sockets sock s = (case sock of None \<Rightarrow> s | Some i \<Rightarrow> emit (CloseSocket i) s)"

text \<open>The destructor closes both sockets and takes the pair out of its allocation.\<close>

definition delete_pair ::
    "u32 \<Rightarrow> tcp_pair \<Rightarrow> (u32 \<times> tcp_pair) list \<Rightarrow> turn_server \<Rightarrow> ((u32 \<times> tcp_pair) list \<times> turn_server) result" where
  "delete_pair cid pr pairs s =
     (let s = close_sockets (pr_peer pr) (close_sockets (pr_client pr) s)
      in assert_r (pc_exists cid pairs) (Inr (snd (pc_remove cid pairs), s)))"

fun delete_pairs ::
    "(u32 \<times> tcp_pair) list \<Rightarrow> (u32 \<times> tcp_pair) list \<Rightarrow> turn_server \<Rightarrow> ((u32 \<times> tcp_pair) list \<times> turn_server) result" where
  "delete_pairs [] pairs s = Inr (pairs, s)"
| "delete_pairs (x # xs) pairs s =
     bind_r (delete_pair (fst x) (snd x) pairs s) (\<lambda>(pairs, s). delete_pairs xs pairs s)"

definition pr_expired :: "int \<Rightarrow> tcp_pair \<Rightarrow> bool" where
  "pr_expired clk pr \<longleftrightarrow> to_running (pr_timeout pr) \<and> to_expired clk (pr_timeout pr)"

text \<open>\<^verbatim>\<open>doPeerConnect\<close> prepares the peer socket and connects the client socket.\<close>

definition doPeerConnect :: "nat \<Rightarrow> net_address \<Rightarrow> tcp_pair \<Rightarrow> turn_server \<Rightarrow> (tcp_pair \<times> turn_server) result" where
  "doPeerConnect sock peerAddr pr s =
     assert_r (pr_transactionID pr \<noteq> []) (assert_r (pr_peer pr = None)
       (let pr = pr\<lparr>pr_peer := Some sock\<rparr>
        in case pr_client pr of
             None \<Rightarrow> Inl Undefined
           | Some c \<Rightarrow> Inr (pr, emit (ConnectTCP c peerAddr) s)))"

definition setPeerSocket :: "nat \<Rightarrow> tcp_pair \<Rightarrow> tcp_pair result" where
  "setPeerSocket sock pr = assert_r (pr_peer pr = None) (Inr (pr\<lparr>pr_peer := Some sock\<rparr>))"

definition setClientSocket :: "nat \<Rightarrow> tcp_pair \<Rightarrow> tcp_pair result" where
  "setClientSocket sock pr = assert_r (pr_client pr = None) (Inr (pr\<lparr>pr_client := Some sock\<rparr>))"

definition makeDataConnection :: "tcp_pair \<Rightarrow> turn_server \<Rightarrow> (bool \<times> tcp_pair \<times> turn_server) result" where
  "makeDataConnection pr s =
     (case (pr_peer pr, pr_client pr) of
        (Some p, Some c) \<Rightarrow>
          bind_r (releaseTCPSocket c s) (\<lambda>s.
            let (pr, s) = (if pr_early pr \<noteq> [] then (pr\<lparr>pr_early := []\<rparr>, emit (SendRaw c (pr_early pr)) s)
                           else (pr, s))
            in Inr (True, pr\<lparr>pr_isDataConnection := True\<rparr>, s))
      | _ \<Rightarrow> Inr (False, pr, s))"

subsection \<open>Deleting an allocation\<close>

definition delete_allocation ::
    "'a net_platform_scheme \<Rightarrow> server_allocation \<Rightarrow> turn_server \<Rightarrow> turn_server result" where
  "delete_allocation env a s =
     (case al_relay a of
        UDPRelay addr \<Rightarrow> removeAllocation env a (emit (CloseRelay addr) s)
      | TCPRelay control addr pairs \<Rightarrow>
          bind_r (delete_pairs pairs pairs (emit (CloseSocket control) (emit (CloseRelay addr) s))) (\<lambda>(rest, s).
            assert_r (rest = []) (removeAllocation env a s)))"

subsection \<open>Requests to an allocation\<close>

text \<open>
  \<^verbatim>\<open>handleRefreshRequest\<close>: with a lifetime of zero the allocation deletes itself and then reads its
  reference to the server.
\<close>

definition handleRefreshRequest ::
    "'a net_platform_scheme \<Rightarrow> turn_sys \<Rightarrow> turn_request \<Rightarrow> server_allocation \<Rightarrow> turn_server \<Rightarrow> turn_server result" where
  "handleRefreshRequest env sys request a s =
     assert_r (request_method request Refresh) (assert_r (request_class request Request)
       (case request_get request Lifetime 0 of
          None \<Rightarrow> Inr s
        | Some attr \<Rightarrow>
            bind_r (attr_value attr) (\<lambda>v.
              let desiredLifetime = min (op_allocationMaxLifetime (sv_options s) div 1000) v
              in if desiredLifetime > 0 then
                   bind_r (response_to request SuccessResponse (method_code Refresh)) (\<lambda>m.
                     respond env request
                       (message_add m ((new_uint32 Lifetime)\<lparr>attr_body := UInt32Body desiredLifetime\<rparr>))
                       (put_alloc env (setLifetime (ts_now sys) (int (unat desiredLifetime)) a) s))
                 else bind_r (delete_allocation env a s) (\<lambda>_. Inl Undefined))))"

fun permission_loop ::
    "'a net_platform_scheme \<Rightarrow> turn_sys \<Rightarrow> turn_request \<Rightarrow> nat \<Rightarrow> nat \<Rightarrow> server_allocation \<Rightarrow>
     server_allocation option result" where
  "permission_loop env sys request 0 i a = Inr (Some a)"
| "permission_loop env sys request (Suc n) i a =
     (let stop = Inr (if i = 0 then None else Some a)
      in case request_get request XorPeerAddress (int i) of
           None \<Rightarrow> stop
         | Some attr \<Rightarrow>
             bind_r (attr_address attr) (\<lambda>addr.
               if na_family addr \<noteq> IPv4 then stop
               else bind_r (address_host env addr) (\<lambda>host.
                 permission_loop env sys request n (Suc i) (addPermission (ts_clock sys) host a))))"

definition handleCreatePermission ::
    "'a net_platform_scheme \<Rightarrow> turn_sys \<Rightarrow> turn_request \<Rightarrow> server_allocation \<Rightarrow> turn_server \<Rightarrow> turn_server result" where
  "handleCreatePermission env sys request a s =
     bind_r (permission_loop env sys request (nat (op_allocationMaxPermissions (sv_options s))) 0 a) (\<lambda>res.
       case res of
         None \<Rightarrow> respondError env sys request 400 ''Bad Request'' s
       | Some a \<Rightarrow>
           bind_r (response_to request SuccessResponse (method_code CreatePermission)) (\<lambda>m.
             respond env request m (put_alloc env a s)))"

definition sa_handleRequest ::
    "'a net_platform_scheme \<Rightarrow> turn_sys \<Rightarrow> turn_request \<Rightarrow> server_allocation \<Rightarrow> turn_server \<Rightarrow>
     (bool \<times> turn_server) result" where
  "sa_handleRequest env sys request a s =
     (if sa_deleted (ts_now sys) a then Inr (False, s)
      else if request_method request CreatePermission then
        bind_r (handleCreatePermission env sys request a s) (\<lambda>s. Inr (True, s))
      else if request_method request Refresh then
        bind_r (handleRefreshRequest env sys request a s) (\<lambda>s. Inr (True, s))
      else Inr (False, s))"

text \<open>\<^verbatim>\<open>UDPAllocation::send\<close>: the answer of the relay socket, or -1 when the quota is reached.\<close>

definition udp_send ::
    "'a net_platform_scheme \<Rightarrow> turn_sys \<Rightarrow> bytes \<Rightarrow> net_address \<Rightarrow> server_allocation \<Rightarrow> turn_server \<Rightarrow>
     int \<times> server_allocation \<times> turn_server" where
  "udp_send env sys data peerAddress a s =
     (let a = updateUsage (ts_now sys) (int (length data)) a; s = put_alloc env a s
      in if sa_deleted (ts_now sys) a then (-1, a, s)
         else (ts_sent sys (sv_draws s), a,
               next_draw (emit (SendPeer (relayedAddress (al_relay a)) peerAddress data) s)))"

definition handleSendIndication ::
    "'a net_platform_scheme \<Rightarrow> turn_sys \<Rightarrow> turn_request \<Rightarrow> server_allocation \<Rightarrow> turn_server \<Rightarrow> turn_server result" where
  "handleSendIndication env sys request a s =
     (case request_get request XorPeerAddress 0 of
        None \<Rightarrow> Inr s
      | Some peerAttr \<Rightarrow>
          bind_r (attr_address peerAttr) (\<lambda>peerAddress.
            if na_family peerAddress \<noteq> IPv4 then Inr s
            else case request_get request Data 0 of
              None \<Rightarrow> Inr s
            | Some dataAttr \<Rightarrow>
                bind_r (address_host env peerAddress) (\<lambda>host.
                  if \<not> hasPermission a host then Inr s
                  else bind_r (asString dataAttr) (\<lambda>data.
                    let (sent, a, s) = udp_send env sys data peerAddress a s
                    in if sent = -1 then
                         bind_r (respondError env sys request 486 ''Allocation Quota Reached'' s) (\<lambda>s.
                           delete_allocation env a s)
                       else Inr s))))"

text \<open>\<^verbatim>\<open>UDPAllocation::onPeerDataReceived\<close>\<close>

definition udp_onPeerData ::
    "'a net_platform_scheme \<Rightarrow> turn_sys \<Rightarrow> bytes \<Rightarrow> net_address \<Rightarrow> server_allocation \<Rightarrow> turn_server \<Rightarrow> turn_server result" where
  "udp_onPeerData env sys buffer peerAddress a s =
     bind_r (address_host env peerAddress) (\<lambda>host.
       if \<not> hasPermission a host then Inr s
       else let a = updateUsage (ts_now sys) (int (length buffer)) a; s = put_alloc env a s
            in if sa_deleted (ts_now sys) a then Inr s
               else assert_r (op_externalIP (sv_options s) \<noteq> [])
                 (bind_r (address_init env (op_externalIP (sv_options s)) (address_port env peerAddress)) (\<lambda>peer.
                    let m = new_message Indication DataIndication (ts_random sys (sv_draws s) kTransactionIdLength);
                        m = message_add m (setAddress (new_address XorPeerAddress) peer);
                        m = message_add m (setBytes (new_string Data 0) buffer)
                    in Inr (emit (SendUDP (ft_remote (al_tuple a)) m) (next_draw s)))))"

subsection \<open>TCP allocations\<close>

definition set_pairs :: "(u32 \<times> tcp_pair) list \<Rightarrow> server_allocation \<Rightarrow> server_allocation" where
  "set_pairs pairs a =
     (case al_relay a of
        TCPRelay control addr _ \<Rightarrow> a\<lparr>al_relay := TCPRelay control addr pairs\<rparr>
      | UDPRelay _ \<Rightarrow> a)"

fun relay_pairs :: "relay \<Rightarrow> (u32 \<times> tcp_pair) list" where
  "relay_pairs (UDPRelay _) = []"
| "relay_pairs (TCPRelay _ _ pairs) = pairs"

definition sendToControl :: "message \<Rightarrow> server_allocation \<Rightarrow> turn_server \<Rightarrow> turn_server" where
  "sendToControl m a s =
     (case al_relay a of TCPRelay control _ _ \<Rightarrow> emit (SendTCP control m) s | UDPRelay _ \<Rightarrow> s)"

text \<open>\<^verbatim>\<open>TCPAllocation::onPeerAccept\<close>\<close>

definition onPeerAccept ::
    "'a net_platform_scheme \<Rightarrow> turn_sys \<Rightarrow> nat \<Rightarrow> net_address \<Rightarrow> server_allocation \<Rightarrow> turn_server \<Rightarrow> turn_server result" where
  "onPeerAccept env sys sock peerAddress a s =
     bind_r (address_host env peerAddress) (\<lambda>host.
       if \<not> hasPermission a host then Inr s
       else case fresh_id (ts_number sys) (sv_draws s) (relay_pairs (al_relay a)) of
              None \<Rightarrow> Inl Diverges
            | Some (cid, n) \<Rightarrow>
                bind_r (setPeerSocket sock new_pair) (\<lambda>pr.
                  let a = set_pairs (om_set (<) cid pr (relay_pairs (al_relay a))) a;
                      s = put_alloc env a (s\<lparr>sv_draws := n\<rparr>);
                      m = new_message Indication ConnectionAttempt (ts_random sys (sv_draws s) kTransactionIdLength);
                      m = message_add m (setAddress (new_address XorPeerAddress) peerAddress);
                      m = message_add m ((new_uint32 ConnectionID)\<lparr>attr_body := UInt32Body cid\<rparr>)
                  in Inr (sendToControl m a (next_draw s))))"

definition handleConnectRequest ::
    "'a net_platform_scheme \<Rightarrow> turn_sys \<Rightarrow> turn_request \<Rightarrow> server_allocation \<Rightarrow> turn_server \<Rightarrow> turn_server result" where
  "handleConnectRequest env sys request a s =
     (case request_get request XorPeerAddress 0 of
        None \<Rightarrow> respondError env sys request 400 ''Bad Request'' s
      | Some attr \<Rightarrow>
          bind_r (attr_address attr) (\<lambda>peerAddr.
            if na_family peerAddr \<noteq> IPv4 then respondError env sys request 400 ''Bad Request'' s
            else case fresh_id (ts_number sys) (sv_draws s) (relay_pairs (al_relay a)) of
                   None \<Rightarrow> Inl Diverges
                 | Some (cid, n) \<Rightarrow>
                     bind_r (doPeerConnect n peerAddr
                               (new_pair\<lparr>pr_transactionID := msg_tid (rq_message request)\<rparr>)
                               (s\<lparr>sv_draws := Suc n\<rparr>)) (\<lambda>(pr, s).
                       Inr (put_alloc env (set_pairs (om_set (<) cid pr (relay_pairs (al_relay a))) a) s))))"

text \<open>The handler of exceptions in \<^verbatim>\<open>TCPAllocation::handleConnectionBindRequest\<close>.\<close>

definition bind_failed ::
    "'a net_platform_scheme \<Rightarrow> turn_sys \<Rightarrow> turn_request \<Rightarrow> nat \<Rightarrow> (u32 \<times> tcp_pair) option \<Rightarrow>
     server_allocation \<Rightarrow> turn_server \<Rightarrow> turn_server result" where
  "bind_failed env sys request sock pair a s =
     bind_r (respondError env sys request 400 ''Bad Request'' s) (\<lambda>s.
       case pair of
         Some (cid, pr) \<Rightarrow>
           if \<not> pr_isDataConnection pr then
             bind_r (delete_pair cid pr (relay_pairs (al_relay a)) s) (\<lambda>(pairs, s).
               Inr (emit (CloseSocket sock) (put_alloc env (set_pairs pairs a) s)))
           else Inr (emit (CloseSocket sock) s)
       | None \<Rightarrow> Inr (emit (CloseSocket sock) s))"

definition tcp_handleConnectionBindRequest ::
    "'a net_platform_scheme \<Rightarrow> turn_sys \<Rightarrow> turn_request \<Rightarrow> server_allocation \<Rightarrow> turn_server \<Rightarrow> turn_server result" where
  "tcp_handleConnectionBindRequest env sys request a s =
     assert_r (request_method request ConnectionBind)
       (bind_r (getTCPSocket env s (rq_remoteAddress request)) (\<lambda>sock.
          if rq_transport request \<noteq> TCP then bind_failed env sys request sock None a s
          else case request_get request ConnectionID 0 of
            None \<Rightarrow> bind_failed env sys request sock None a s
          | Some connAttr \<Rightarrow>
              bind_r (attr_value connAttr) (\<lambda>cid.
                case om_find (<) cid (relay_pairs (al_relay a)) of
                  None \<Rightarrow> bind_failed env sys request sock None a s
                | Some pr \<Rightarrow>
                    assert_r (\<not> pr_isDataConnection pr)
                      (bind_r (response_to request SuccessResponse (method_code ConnectionBind)) (\<lambda>m.
                         let s = emit (SendTCP sock m) s
                         in bind_r (setClientSocket sock pr) (\<lambda>pr.
                            bind_r (makeDataConnection pr s) (\<lambda>(ok, pr, s).
                              let a = set_pairs (om_set (<) cid pr (relay_pairs (al_relay a))) a
                              in if ok then Inr (put_alloc env a s)
                                 else bind_failed env sys request sock (Some (cid, pr)) a s)))))))"

definition alloc_handleRequest ::
    "'a net_platform_scheme \<Rightarrow> turn_sys \<Rightarrow> turn_request \<Rightarrow> server_allocation \<Rightarrow> turn_server \<Rightarrow>
     (bool \<times> turn_server) result" where
  "alloc_handleRequest env sys request a s =
     bind_r (sa_handleRequest env sys request a s) (\<lambda>(handled, s).
       if handled then Inr (True, s)
       else case al_relay a of
         UDPRelay _ \<Rightarrow>
           if request_method request SendIndication then
             bind_r (handleSendIndication env sys request a s) (\<lambda>s. Inr (True, s))
           else Inr (False, s)
       | TCPRelay _ _ _ \<Rightarrow>
           if request_method request Connect then
             bind_r (handleConnectRequest env sys request a s) (\<lambda>s. Inr (True, s))
           else if request_method request ConnectionBind then
             bind_r (tcp_handleConnectionBindRequest env sys request a s) (\<lambda>s. Inr (True, s))
           else Inr (False, s))"

subsection \<open>Requests to the server\<close>

fun find_tcp_allocation :: "u32 \<Rightarrow> (five_tuple \<times> server_allocation) list \<Rightarrow> server_allocation option" where
  "find_tcp_allocation cid [] = None"
| "find_tcp_allocation cid (x # xs) =
     (if pc_exists cid (relay_pairs (al_relay (snd x))) then Some (snd x) else find_tcp_allocation cid xs)"

definition getTCPAllocation :: "turn_server \<Rightarrow> u32 \<Rightarrow> server_allocation option" where
  "getTCPAllocation s cid = find_tcp_allocation cid (sv_allocations s)"

definition handleConnectionBindRequest ::
    "'a net_platform_scheme \<Rightarrow> turn_sys \<Rightarrow> turn_request \<Rightarrow> turn_server \<Rightarrow> turn_server result" where
  "handleConnectionBindRequest env sys request s =
     (case request_get request ConnectionID 0 of
        None \<Rightarrow> respondError env sys request 400 ''Bad Request'' s
      | Some connAttr \<Rightarrow>
          bind_r (attr_value connAttr) (\<lambda>cid.
            case getTCPAllocation s cid of
              None \<Rightarrow> respondError env sys request 400 ''Bad Request'' s
            | Some a \<Rightarrow> tcp_handleConnectionBindRequest env sys request a s))"

definition handleBindingRequest ::
    "'a net_platform_scheme \<Rightarrow> turn_request \<Rightarrow> turn_server \<Rightarrow> turn_server result" where
  "handleBindingRequest env request s =
     assert_r (request_method request Binding) (assert_r (request_class request Request)
       (bind_r (response_to request SuccessResponse (method_code Binding)) (\<lambda>m.
          respond env request
            (message_add m (setAddress (new_address XorMappedAddress) (rq_remoteAddress request))) s)))"

text \<open>The lifetime \<^verbatim>\<open>handleAllocateRequest\<close> gives to an allocation, in seconds.\<close>

definition allocate_lifetime :: "turn_options \<Rightarrow> u32 option \<Rightarrow> u32" where
  "allocate_lifetime options requested =
     (let lifetime = min (op_allocationMaxLifetime options div 1000) (op_allocationDefaultLifetime options div 1000)
      in case requested of None \<Rightarrow> lifetime | Some v \<Rightarrow> min lifetime v)"

text \<open>The constructors of \<^verbatim>\<open>UDPAllocation\<close> and \<^verbatim>\<open>TCPAllocation\<close>: register with the server, bind a socket.\<close>

definition create_allocation ::
    "'a net_platform_scheme \<Rightarrow> turn_sys \<Rightarrow> five_tuple \<Rightarrow> bytes \<Rightarrow> u32 \<Rightarrow> (net_address \<Rightarrow> relay) \<Rightarrow> turn_server \<Rightarrow>
     (server_allocation \<times> turn_server) result" where
  "create_allocation env sys tuple username lifetime rel s =
     (let a = new_server_allocation (ts_now sys) (sv_options s) tuple username (int (unat lifetime))
                (rel (ts_bound sys (sv_draws s)))
      in bind_r (addAllocation env a s) (\<lambda>s.
         bind_r (address_host env (op_listenAddr (sv_options s))) (\<lambda>host.
         bind_r (address_init env host 0) (\<lambda>_. Inr (a, next_draw s)))))"

definition allocate_response ::
    "'a net_platform_scheme \<Rightarrow> turn_request \<Rightarrow> u32 \<Rightarrow> server_allocation \<Rightarrow> turn_server \<Rightarrow> turn_server result" where
  "allocate_response env request lifetime a s =
     bind_r (response_to request SuccessResponse (method_code Allocate)) (\<lambda>m.
       assert_r (op_externalIP (sv_options s) \<noteq> [])
         (bind_r (address_init env (op_externalIP (sv_options s))
                    (address_port env (relayedAddress (al_relay a)))) (\<lambda>relayed.
            let m = message_add m (setAddress (new_address XorRelayedAddress) relayed);
                m = message_add m ((new_uint32 Lifetime)\<lparr>attr_body := UInt32Body lifetime\<rparr>);
                m = message_add m (setAddress (new_address XorMappedAddress) (rq_remoteAddress request))
            in respond env request m s)))"

text \<open>The rest of \<^verbatim>\<open>handleAllocateRequest\<close>, once the checks have passed.\<close>

definition requested_lifetime :: "turn_request \<Rightarrow> u32 option result" where
  "requested_lifetime request =
     (case request_get request Lifetime 0 of
        None \<Rightarrow> Inr None
      | Some attr \<Rightarrow> bind_r (attr_value attr) (\<lambda>v. Inr (Some v)))"

definition allocate_checked ::
    "'a net_platform_scheme \<Rightarrow> turn_sys \<Rightarrow> turn_request \<Rightarrow> bytes \<Rightarrow> u32 \<Rightarrow> five_tuple \<Rightarrow> turn_server \<Rightarrow> turn_server result" where
  "allocate_checked env sys request username protocol tuple s =
     bind_r (requested_lifetime request) (\<lambda>requested.
       let lifetime = allocate_lifetime (sv_options s) requested
       in bind_r (if protocol = 17 then Inr UDPRelay
                  else bind_r (getTCPSocket env s (rq_remoteAddress request)) (\<lambda>sock.
                    Inr (\<lambda>addr. TCPRelay sock addr []))) (\<lambda>rel.
          bind_r (create_allocation env sys tuple username lifetime rel s) (\<lambda>(a, s).
            allocate_response env request lifetime a s)))"

definition handleAllocateRequest ::
    "'a net_platform_scheme \<Rightarrow> turn_sys \<Rightarrow> turn_request \<Rightarrow> turn_server \<Rightarrow> turn_server result" where
  "handleAllocateRequest env sys request s =
     assert_r (request_method request Allocate) (assert_r (request_class request Request)
       (case request_get request Username 0 of
          None \<Rightarrow> respondError env sys request 401 ''NotAuthorized'' s
        | Some usernameAttr \<Rightarrow>
            bind_r (asString usernameAttr) (\<lambda>username.
            case request_get request RequestedTransport 0 of
              None \<Rightarrow> respondError env sys request 400 ''Bad Request'' s
            | Some transportAttr \<Rightarrow>
                bind_r (attr_value transportAttr) (\<lambda>value.
                  let protocol = drop_bit 24 value;
                      tuple = \<lparr>ft_remote = rq_remoteAddress request, ft_local = rq_localAddress request,
                               ft_transport = (if protocol = 17 then UDP else TCP)\<rparr>
                  in if protocol \<noteq> 6 \<and> protocol \<noteq> 17 then
                       respondError env sys request 422 ''Unsupported Transport Protocol'' s
                     else if getAllocation env s tuple \<noteq> None then
                       respondError env sys request 437 ''Allocation Mismatch'' s
                     else
                       allocate_checked env sys request username protocol tuple s))))"

definition handleAuthorizedRequest ::
    "'a net_platform_scheme \<Rightarrow> turn_sys \<Rightarrow> turn_request \<Rightarrow> turn_server \<Rightarrow> turn_server result" where
  "handleAuthorizedRequest env sys request s =
     (if request_method request Binding then handleBindingRequest env request s
      else if request_method request Allocate then handleAllocateRequest env sys request s
      else if request_method request ConnectionBind then handleConnectionBindRequest env sys request s
      else
        (case getAllocation env s \<lparr>ft_remote = rq_remoteAddress request, ft_local = rq_localAddress request,
                                   ft_transport = rq_transport request\<rparr> of
           None \<Rightarrow> respondError env sys request 437 ''Allocation Mismatch'' s
         | Some a \<Rightarrow>
             bind_r (alloc_handleRequest env sys request a s) (\<lambda>(handled, s).
               if handled then Inr s
               else respondError env sys request 600 ''Operation Not Supported'' s)))"

definition handleRequest ::
    "'a net_platform_scheme \<Rightarrow> turn_sys \<Rightarrow> turn_request \<Rightarrow> auth_state \<Rightarrow> turn_server \<Rightarrow> turn_server result" where
  "handleRequest env sys request state s =
     (case state of
        Authenticating \<Rightarrow> Inr s
      | Authorized \<Rightarrow> handleAuthorizedRequest env sys request s
      | QuotaReached \<Rightarrow> respondError env sys request 486 ''Allocation Quota Reached'' s
      | NotAuthorized \<Rightarrow> respondError env sys request 401 ''NotAuthorized'' s)"

subsection \<open>Callbacks of the event loop\<close>

text \<open>
  \<^verbatim>\<open>Server::onSocketRecv\<close>: the requests of a buffer, one after the other, until \<^verbatim>\<open>Message::read\<close>
  returns zero. The message object is reused from one round to the next.
\<close>

function recv_requests ::
    "'a platform_scheme \<Rightarrow> turn_sys \<Rightarrow> transport_type \<Rightarrow> net_address \<Rightarrow> net_address \<Rightarrow> bytes \<Rightarrow> message \<Rightarrow>
     turn_server \<Rightarrow> turn_server result" where
  "recv_requests env sys transport localAddress peerAddress buf m s =
     (if buf = [] then Inr s
      else case message_read env buf m of
        Inl e \<Rightarrow> Inl e
      | Inr (nread, m) \<Rightarrow>
          if nread = 0 then Inr s
          else if length buf < nread then Inl Undefined
          else
            bind_r (if msg_class m = class_code Request \<or> msg_class m = class_code Indication then
                      bind_r (new_turn_request m transport localAddress peerAddress) (\<lambda>request.
                        let (state, key) = ts_auth sys request
                        in handleRequest env sys (request\<lparr>rq_hash := key\<rparr>) state s)
                    else Inl AssertFail) (\<lambda>s.
              recv_requests env sys transport localAddress peerAddress (drop nread buf) m s))"
  by pat_completeness auto
termination
  by (relation "measure (\<lambda>(_, _, _, _, _, buf, _, _). length buf)") auto

declare recv_requests.simps [simp del]

definition server_onSocketRecv ::
    "'a platform_scheme \<Rightarrow> turn_sys \<Rightarrow> transport_type \<Rightarrow> net_address \<Rightarrow> net_address \<Rightarrow> bytes \<Rightarrow> turn_server \<Rightarrow>
     turn_server result" where
  "server_onSocketRecv env sys transport localAddress peerAddress buffer s =
     bind_r (default_message (ts_random sys (sv_draws s) kTransactionIdLength)) (\<lambda>m.
       recv_requests env sys transport localAddress peerAddress buffer m (next_draw s))"

text \<open>
  \<^verbatim>\<open>TCPAllocation::onTimer\<close> frees expired pairs: \<^verbatim>\<open>PointerCollection::free\<close> takes the pair out of
  the collection and then deletes it.
\<close>

fun free_expired ::
    "int \<Rightarrow> (u32 \<times> tcp_pair) list \<Rightarrow> (u32 \<times> tcp_pair) list \<Rightarrow> turn_server \<Rightarrow> ((u32 \<times> tcp_pair) list \<times> turn_server) result" where
  "free_expired clk [] pairs s = Inr (pairs, s)"
| "free_expired clk (x # xs) pairs s =
     (if pr_expired clk (snd x) then
        bind_r (delete_pair (fst x) (snd x) (snd (pc_remove (fst x) pairs)) s) (\<lambda>(pairs, s).
          free_expired clk xs pairs s)
      else free_expired clk xs pairs s)"

definition alloc_onTimer ::
    "'a net_platform_scheme \<Rightarrow> turn_sys \<Rightarrow> server_allocation \<Rightarrow> turn_server \<Rightarrow> turn_server result" where
  "alloc_onTimer env sys a s =
     bind_r (case al_relay a of
               UDPRelay _ \<Rightarrow> Inr (a, s)
             | TCPRelay _ _ pairs \<Rightarrow>
                 bind_r (free_expired (ts_clock sys) pairs pairs s) (\<lambda>(pairs, s). Inr (set_pairs pairs a, s))) (\<lambda>(a, s).
       if sa_deleted (ts_now sys) a then delete_allocation env a s
       else Inr (put_alloc env (removeExpiredPermissions (ts_clock sys) a) s))"

fun timer_loop ::
    "'a net_platform_scheme \<Rightarrow> turn_sys \<Rightarrow> (five_tuple \<times> server_allocation) list \<Rightarrow> turn_server \<Rightarrow> turn_server result" where
  "timer_loop env sys [] s = Inr s"
| "timer_loop env sys (x # xs) s =
     bind_r (alloc_onTimer env sys (snd x) s) (\<lambda>s. timer_loop env sys xs s)"

definition onTimer :: "'a net_platform_scheme \<Rightarrow> turn_sys \<Rightarrow> turn_server \<Rightarrow> turn_server result" where
  "onTimer env sys s = timer_loop env sys (sv_allocations s) s"

fun delete_allocations ::
    "'a net_platform_scheme \<Rightarrow> (five_tuple \<times> server_allocation) list \<Rightarrow> turn_server \<Rightarrow> turn_server result" where
  "delete_allocations env [] s = Inr s"
| "delete_allocations env (x # xs) s =
     bind_r (delete_allocation env (snd x) s) (\<lambda>s. delete_allocations env xs s)"

definition stop :: "'a net_platform_scheme \<Rightarrow> turn_server \<Rightarrow> turn_server result" where
  "stop env s =
     bind_r (delete_allocations env (sv_allocations s) s) (\<lambda>s.
       assert_r (sv_allocations s = []) (Inr (s\<lparr>sv_tcpSockets := []\<rparr>)))"

text \<open>\<^verbatim>\<open>TCPConnectionPair::onPeerDataReceived\<close> and \<^verbatim>\<open>onClientDataReceived\<close>.\<close>

definition pair_onPeerData ::
    "'a net_platform_scheme \<Rightarrow> turn_sys \<Rightarrow> bytes \<Rightarrow> u32 \<Rightarrow> tcp_pair \<Rightarrow> server_allocation \<Rightarrow> turn_server \<Rightarrow> turn_server" where
  "pair_onPeerData env sys buf cid pr a s =
     (case pr_client pr of
        Some c \<Rightarrow>
          let a = updateUsage (ts_now sys) (int (length buf)) a; s = put_alloc env a s
          in if sa_deleted (ts_now sys) a then s else emit (SendRaw c buf) s
      | None \<Rightarrow>
          put_alloc env (set_pairs (om_set (<) cid (pr\<lparr>pr_early := pr_early pr @ buf\<rparr>) (relay_pairs (al_relay a))) a) s)"

definition pair_onClientData ::
    "'a net_platform_scheme \<Rightarrow> turn_sys \<Rightarrow> bytes \<Rightarrow> tcp_pair \<Rightarrow> server_allocation \<Rightarrow> turn_server \<Rightarrow> turn_server" where
  "pair_onClientData env sys buf pr a s =
     (case pr_peer pr of
        Some p \<Rightarrow>
          let a = updateUsage (ts_now sys) (int (length buf)) a; s = put_alloc env a s
          in if sa_deleted (ts_now sys) a then s else emit (SendRaw p buf) s
      | None \<Rightarrow> s)"

text \<open>\<^verbatim>\<open>onConnectionClosed\<close> deletes the pair; \<^verbatim>\<open>onControlClosed\<close> marks the allocation.\<close>

definition onConnectionClosed ::
    "'a net_platform_scheme \<Rightarrow> u32 \<Rightarrow> tcp_pair \<Rightarrow> server_allocation \<Rightarrow> turn_server \<Rightarrow> turn_server result" where
  "onConnectionClosed env cid pr a s =
     bind_r (delete_pair cid pr (relay_pairs (al_relay a)) s) (\<lambda>(pairs, s).
       Inr (put_alloc env (set_pairs pairs a) s))"

definition onControlClosed :: "'a net_platform_scheme \<Rightarrow> server_allocation \<Rightarrow> turn_server \<Rightarrow> turn_server" where
  "onControlClosed env a s = put_alloc env (a\<lparr>al_deleted := True\<rparr>) s"

text \<open>
  \<^verbatim>\<open>sendPeerConnectResponse\<close> and its callers. A failure is reported in a message of the class
  \<^verbatim>\<open>SuccessResponse\<close>.
\<close>

definition sendPeerConnectResponse ::
    "u32 \<Rightarrow> tcp_pair \<Rightarrow> bool \<Rightarrow> server_allocation \<Rightarrow> turn_server \<Rightarrow> turn_server result" where
  "sendPeerConnectResponse cid pr success a s =
     assert_r (pr_transactionID pr \<noteq> [])
       (bind_r (setTransactionID (new_message SuccessResponse Connect []) (pr_transactionID pr)) (\<lambda>m.
          Inr (sendToControl
            (message_add m
               (if success then (new_uint32 ConnectionID)\<lparr>attr_body := UInt32Body cid\<rparr>
                else setReason (setErrorCode (new_error 4) 447) (bytes_of_text ''Connection Timeout or Failure''))) a s)))"

definition onPeerConnectSuccess ::
    "'a net_platform_scheme \<Rightarrow> turn_sys \<Rightarrow> u32 \<Rightarrow> tcp_pair \<Rightarrow> server_allocation \<Rightarrow> turn_server \<Rightarrow> turn_server result" where
  "onPeerConnectSuccess env sys cid pr a s =
     bind_r (sendPeerConnectResponse cid pr True a s) (\<lambda>s.
       Inr (put_alloc env (set_pairs (om_set (<) cid (pr\<lparr>pr_timeout := to_reset (ts_clock sys) (pr_timeout pr)\<rparr>)
              (relay_pairs (al_relay a))) a) s))"

definition onPeerConnectError ::
    "u32 \<Rightarrow> tcp_pair \<Rightarrow> server_allocation \<Rightarrow> turn_server \<Rightarrow> turn_server result" where
  "onPeerConnectError cid pr a s = sendPeerConnectResponse cid pr False a s"

text \<open>
  The events of the loop. Those of an allocation name it by its tuple and those of a pair by its
  connection id as well; an event of an object that is gone does not occur.
\<close>

datatype turn_event =
    Datagram transport_type net_address net_address bytes
  | Timer
  | Accepted nat net_address
  | Closed nat
  | PeerData five_tuple net_address bytes
  | PeerAccepted five_tuple nat net_address
  | PairPeerData five_tuple u32 bytes
  | PairClientData five_tuple u32 bytes
  | PairConnected five_tuple u32
  | PairConnectFailed five_tuple u32
  | PairClosed five_tuple u32
  | ControlClosed five_tuple

fun on_pair :: "u32 \<Rightarrow> (tcp_pair \<Rightarrow> turn_server result) \<Rightarrow> server_allocation \<Rightarrow> turn_server \<Rightarrow> turn_server result" where
  "on_pair cid f a s =
     (case om_find (<) cid (relay_pairs (al_relay a)) of None \<Rightarrow> Inr s | Some pr \<Rightarrow> f pr)"

fun alloc_event ::
    "'a platform_scheme \<Rightarrow> turn_sys \<Rightarrow> turn_event \<Rightarrow> server_allocation \<Rightarrow> turn_server \<Rightarrow> turn_server result" where
  "alloc_event env sys (PeerData _ addr buf) a s =
     (case al_relay a of UDPRelay _ \<Rightarrow> udp_onPeerData env sys buf addr a s | _ \<Rightarrow> Inr s)"
| "alloc_event env sys (PeerAccepted _ sock addr) a s =
     (case al_relay a of TCPRelay _ _ _ \<Rightarrow> onPeerAccept env sys sock addr a s | _ \<Rightarrow> Inr s)"
| "alloc_event env sys (PairPeerData _ cid buf) a s =
     on_pair cid (\<lambda>pr. Inr (pair_onPeerData env sys buf cid pr a s)) a s"
| "alloc_event env sys (PairClientData _ cid buf) a s =
     on_pair cid (\<lambda>pr. Inr (pair_onClientData env sys buf pr a s)) a s"
| "alloc_event env sys (PairConnected _ cid) a s =
     on_pair cid (\<lambda>pr. onPeerConnectSuccess env sys cid pr a s) a s"
| "alloc_event env sys (PairConnectFailed _ cid) a s =
     on_pair cid (\<lambda>pr. onPeerConnectError cid pr a s) a s"
| "alloc_event env sys (PairClosed _ cid) a s =
     on_pair cid (\<lambda>pr. onConnectionClosed env cid pr a s) a s"
| "alloc_event env sys (ControlClosed _) a s =
     (case al_relay a of TCPRelay _ _ _ \<Rightarrow> Inr (onControlClosed env a s) | _ \<Rightarrow> Inr s)"
| "alloc_event env sys _ a s = Inr s"

fun event_tuple :: "turn_event \<Rightarrow> five_tuple option" where
  "event_tuple (PeerData t _ _) = Some t"
| "event_tuple (PeerAccepted t _ _) = Some t"
| "event_tuple (PairPeerData t _ _) = Some t"
| "event_tuple (PairClientData t _ _) = Some t"
| "event_tuple (PairConnected t _) = Some t"
| "event_tuple (PairConnectFailed t _) = Some t"
| "event_tuple (PairClosed t _) = Some t"
| "event_tuple (ControlClosed t) = Some t"
| "event_tuple _ = None"

definition server_event :: "'a platform_scheme \<Rightarrow> turn_sys \<Rightarrow> turn_event \<Rightarrow> turn_server \<Rightarrow> turn_server result" where
  "server_event env sys e s =
     (case e of
        Datagram transport localAddress peerAddress buf \<Rightarrow>
          server_onSocketRecv env sys transport localAddress peerAddress buf s
      | Timer \<Rightarrow> onTimer env sys s
      | Accepted sock peer \<Rightarrow> Inr (onTCPAcceptConnection sock peer s)
      | Closed sock \<Rightarrow> releaseTCPSocket sock s
      | _ \<Rightarrow> (case event_tuple e of
                None \<Rightarrow> Inr s
              | Some t \<Rightarrow> (case getAllocation env s t of
                            None \<Rightarrow> Inr s
                          | Some a \<Rightarrow> alloc_event env sys e a s)))"

fun server_run :: "'a platform_scheme \<Rightarrow> (turn_sys \<times> turn_event) list \<Rightarrow> turn_server \<Rightarrow> turn_server result" where
  "server_run env [] s = Inr s"
| "server_run env (x # xs) s = bind_r (server_event env (fst x) (snd x) s) (\<lambda>s. server_run env xs s)"

end
