(* ===== verification/Turn_Invariant.thy ===== *)
theory Turn_Invariant
  imports Turn_Server
begin

text \<open>
  The invariant of the TURN server and the proof that every callback keeps it: the map of
  allocations is ordered, every allocation is stored under its own tuple, has distinct permissions
  and a lifetime below the maximum, and its connection pairs are well formed. The relation \<open>calm\<close>
  describes what responses do: they change neither allocations nor options and send nothing
  to a peer. The last section gives the effect of the timer exactly.
\<close>


subsection \<open>Outputs and draws leave the rest alone\<close>

lemma emit_simps [simp]:
  "sv_allocations (emit x s) = sv_allocations s" "sv_options (emit x s) = sv_options s"
  "sv_tcpSockets (emit x s) = sv_tcpSockets s" "sv_draws (emit x s) = sv_draws s"
  "sv_out (emit x s) = sv_out s @ [x]"
  by (simp_all add: emit_def)

lemma next_draw_simps [simp]:
  "sv_allocations (next_draw s) = sv_allocations s" "sv_options (next_draw s) = sv_options s"
  "sv_tcpSockets (next_draw s) = sv_tcpSockets s" "sv_out (next_draw s) = sv_out s"
  by (simp_all add: next_draw_def)

lemma put_alloc_simps [simp]:
  "sv_options (put_alloc env a s) = sv_options s" "sv_tcpSockets (put_alloc env a s) = sv_tcpSockets s"
  "sv_out (put_alloc env a s) = sv_out s" "sv_draws (put_alloc env a s) = sv_draws s"
  "sv_allocations (put_alloc env a s) = om_set (five_tuple_less env) (al_tuple a) a (sv_allocations s)"
  by (simp_all add: put_alloc_def)

lemma close_sockets_simps [simp]:
  "sv_allocations (close_sockets x s) = sv_allocations s" "sv_options (close_sockets x s) = sv_options s"
  "sv_tcpSockets (close_sockets x s) = sv_tcpSockets s"
  by (simp_all add: close_sockets_def split: option.split)

lemma sendToControl_simps [simp]:
  "sv_allocations (sendToControl m a s) = sv_allocations s" "sv_options (sendToControl m a s) = sv_options s"
  by (simp_all add: sendToControl_def split: relay.split)

lemma alloc_update_simps [simp]:
  "al_tuple (updateUsage now n a) = al_tuple a" "al_permissions (updateUsage now n a) = al_permissions a"
  "al_lifetime (updateUsage now n a) = al_lifetime a" "al_deleted (updateUsage now n a) = al_deleted a"
  "al_createdAt (updateUsage now n a) = al_createdAt a"
  "al_maxLifetime (updateUsage now n b) = al_maxLifetime b" "al_relay (updateUsage now n b) = al_relay b"
  by (simp_all add: updateUsage_def)

lemma set_pairs_simps [simp]:
  "al_tuple (set_pairs ps a) = al_tuple a" "al_permissions (set_pairs ps a) = al_permissions a"
  "al_lifetime (set_pairs ps a) = al_lifetime a" "al_createdAt (set_pairs ps a) = al_createdAt a"
  "al_maxLifetime (set_pairs ps a) = al_maxLifetime a" "sa_deleted now (set_pairs ps a) = sa_deleted now a"
  by (simp_all add: set_pairs_def sa_deleted_def alloc_deleted_def alloc_expired_def bandwidthRemaining_def
      sa_timeRemaining_def timeRemaining_def maxTimeRemaining_def split: relay.split)

text \<open>What a step may do without being noticed by the relays: nothing is sent to a peer and the
  allocations stay as they are.\<close>

fun to_peer :: "turn_output \<Rightarrow> bool" where
  "to_peer (SendPeer _ _ _) = True"
| "to_peer _ = False"

definition peer_outs :: "turn_server \<Rightarrow> turn_output list" where
  "peer_outs s = filter to_peer (sv_out s)"

definition calm :: "turn_server \<Rightarrow> turn_server \<Rightarrow> bool" where
  "calm s s' \<longleftrightarrow> sv_allocations s' = sv_allocations s \<and> sv_options s' = sv_options s \<and> peer_outs s' = peer_outs s"

lemma calm_refl [simp]: "calm s s"
  by (simp add: calm_def)

lemma calm_emit [simp]: "\<not> to_peer x \<Longrightarrow> calm s (emit x s') \<longleftrightarrow> calm s s'"
  by (simp add: calm_def peer_outs_def)

lemma calm_next_draw [simp]: "calm s (next_draw s') \<longleftrightarrow> calm s s'"
  by (simp add: calm_def peer_outs_def)

lemma calm_sendToControl [simp]: "calm s (sendToControl m a s') \<longleftrightarrow> calm s s'"
  by (simp add: sendToControl_def split: relay.split)

lemma calm_trans: "calm s s' \<Longrightarrow> calm s' s'' \<Longrightarrow> calm s s''"
  by (simp add: calm_def)

lemma respond_calm: "respond env r m s = Inr s' \<Longrightarrow> calm s s'"
  by (auto simp: respond_def Let_def bind_r_eq_Inr split: transport_type.splits)

lemma respondError_calm: "respondError env sys r code d s = Inr s' \<Longrightarrow> calm s s'"
  using respond_calm by (fastforce simp: respondError_def result_convs calm_def peer_outs_def)

lemma releaseTCPSocket_calm: "releaseTCPSocket sock s = Inr s' \<Longrightarrow> calm s s'"
  by (auto simp: releaseTCPSocket_def bind_r_eq_Inr calm_def peer_outs_def)

subsection \<open>The invariant\<close>

definition pair_ok :: "tcp_pair \<Rightarrow> bool" where
  "pair_ok pr \<longleftrightarrow> pr_peer pr \<noteq> None \<and> (pr_isDataConnection pr \<longleftrightarrow> pr_client pr \<noteq> None) \<and> to_delay (pr_timeout pr) = 0"

definition alloc_ok :: "turn_options \<Rightarrow> server_allocation \<Rightarrow> bool" where
  "alloc_ok options a \<longleftrightarrow>
     distinct (map pm_ip (al_permissions a)) \<and>
     al_maxLifetime a = op_allocationMaxLifetime options div 1000 \<and>
     0 \<le> al_lifetime a \<and> al_lifetime a \<le> int (unat (op_allocationMaxLifetime options div 1000)) \<and>
     (ft_transport (al_tuple a) = UDP \<longleftrightarrow> (\<exists>addr. al_relay a = UDPRelay addr)) \<and>
     om_ok (<) (relay_pairs (al_relay a)) \<and> list_all (\<lambda>x. pair_ok (snd x)) (relay_pairs (al_relay a))"

definition server_ok :: "'a net_platform_scheme \<Rightarrow> turn_server \<Rightarrow> bool" where
  "server_ok env s \<longleftrightarrow>
     om_ok (five_tuple_less env) (sv_allocations s) \<and>
     list_all (\<lambda>(k, a). k = al_tuple a \<and> alloc_ok (sv_options s) a) (sv_allocations s)"

text \<open>An allocation that is, perhaps in an older version, in the server's map.\<close>

definition held :: "server_allocation \<Rightarrow> turn_server \<Rightarrow> bool" where
  "held a s \<longleftrightarrow> (\<exists>b. (al_tuple a, b) \<in> set (sv_allocations s))"

lemma calm_ok: "calm s s' \<Longrightarrow> server_ok env s' = server_ok env s" "calm s s' \<Longrightarrow> held a s' = held a s"
  by (simp_all add: calm_def server_ok_def held_def)

lemma getAllocation_in:
  assumes "server_ok env s" and "getAllocation env s t = Some a"
  shows "(al_tuple a, a) \<in> set (sv_allocations s)" and "alloc_ok (sv_options s) a"
    and "mm_equiv (five_tuple_less env) (al_tuple a) t"
proof -
  obtain k where k: "(k, a) \<in> set (sv_allocations s)" "mm_equiv (five_tuple_less env) k t"
    using assms ft.om_find_mem by (fastforce simp: server_ok_def getAllocation_def)
  moreover have "k = al_tuple a" "alloc_ok (sv_options s) a"
    using assms(1) k(1) by (auto simp: server_ok_def list_all_iff)
  ultimately show "(al_tuple a, a) \<in> set (sv_allocations s)" "alloc_ok (sv_options s) a"
    "mm_equiv (five_tuple_less env) (al_tuple a) t" by auto
qed

lemma held_split:
  assumes "server_ok env s" and "held a s"
  obtains ys b zs where "sv_allocations s = ys @ (al_tuple a, b) # zs"
    "om_ok (five_tuple_less env) (ys @ (al_tuple a, b) # zs)"
  using assms by (auto simp: held_def server_ok_def dest!: split_list)

lemma put_alloc_held:
  assumes "server_ok env s" and "held a s" and "alloc_ok (sv_options s) a"
  shows "server_ok env (put_alloc env a s)" and "held a (put_alloc env a s)"
proof -
  obtain ys b zs where s: "sv_allocations s = ys @ (al_tuple a, b) # zs"
    "om_ok (five_tuple_less env) (ys @ (al_tuple a, b) # zs)"
    using held_split [OF assms(1,2)] by blast
  then have p: "sv_allocations (put_alloc env a s) = ys @ (al_tuple a, a) # zs"
    by (simp add: ft.om_set_mid)
  show "held a (put_alloc env a s)" by (auto simp: held_def p simp del: put_alloc_simps(5))
  have "om_ok (five_tuple_less env) (ys @ (al_tuple a, a) # zs)"
    using s(2) by (auto simp: om_ok_def sorted_wrt_append)
  then show "server_ok env (put_alloc env a s)"
    using assms(1,3) s(1) by (auto simp: server_ok_def p simp del: put_alloc_simps(5))
qed

lemma delete_pair_calm: "delete_pair cid pr pairs s = Inr (pairs', s') \<Longrightarrow> calm s s' \<and> pairs' = mm_erase (<) cid pairs"
  by (auto simp: delete_pair_def Let_def assert_r_eq_Inr pc_remove_def close_sockets_def split: option.splits)

lemma delete_pairs_calm: "delete_pairs xs pairs s = Inr (pairs', s') \<Longrightarrow> calm s s'"
  by (induction xs arbitrary: pairs s)
    (auto simp: bind_r_eq_Inr dest!: delete_pair_calm intro: calm_trans)

lemma delete_allocation_step:
  assumes "delete_allocation env a s = Inr s'"
  shows "sv_allocations s' = mm_erase (five_tuple_less env) (al_tuple a) (sv_allocations s)"
    and "sv_options s' = sv_options s" and "peer_outs s' = peer_outs s"
  using assms delete_pairs_calm
  by (fastforce simp: delete_allocation_def removeAllocation_def result_convs calm_def peer_outs_def
      split: relay.splits)+

lemma delete_allocation_ok:
  assumes "server_ok env s" and "delete_allocation env a s = Inr s'"
  shows "server_ok env s'"
  using assms(1) delete_allocation_step [OF assms(2)] ft.erase_ok
  by (auto simp: server_ok_def list_all_iff mm_erase_def)

subsection \<open>Every handler keeps the invariant\<close>

definition keeps :: "'a net_platform_scheme \<Rightarrow> turn_server \<Rightarrow> turn_server \<Rightarrow> bool" where
  "keeps env s s' \<longleftrightarrow> server_ok env s' \<and> sv_options s' = sv_options s"

lemma keeps_refl [simp]: "keeps env s s = server_ok env s"
  by (simp add: keeps_def)

lemma calm_keeps: "server_ok env s \<Longrightarrow> calm s s' \<Longrightarrow> keeps env s s'"
  by (simp add: keeps_def calm_def server_ok_def)

lemma keeps_calm: "keeps env s s1 \<Longrightarrow> calm s1 s2 \<Longrightarrow> keeps env s s2"
  using calm_ok(1) [of s1 s2 env] by (simp add: keeps_def calm_def)

lemma keeps_trans: "keeps env s s1 \<Longrightarrow> keeps env s1 s2 \<Longrightarrow> keeps env s s2"
  by (simp add: keeps_def)

lemma put_alloc_keeps:
  "server_ok env s \<Longrightarrow> held a s \<Longrightarrow> alloc_ok (sv_options s) a \<Longrightarrow> keeps env s (put_alloc env a s)"
  by (simp add: keeps_def put_alloc_held)

lemma delete_allocation_keeps:
  "server_ok env s \<Longrightarrow> delete_allocation env a s = Inr s' \<Longrightarrow> keeps env s s'"
  by (simp add: keeps_def delete_allocation_ok delete_allocation_step)

lemma held_simps [simp]:
  "held (updateUsage now n a) s = held a s" "held (set_pairs ps a) s = held a s"
  "held (setLifetime now n a) s = held a s" "held (addPermission clk ip a) s = held a s"
  "held (removeExpiredPermissions clk a) s = held a s" "held (a\<lparr>al_deleted := b\<rparr>) s = held a s"
  by (simp_all add: held_def setLifetime_def addPermission_def removeExpiredPermissions_def)

lemma alloc_ok_usage [simp]: "alloc_ok opt (updateUsage now n a) = alloc_ok opt a"
  by (simp add: alloc_ok_def updateUsage_def)

lemma alloc_ok_deleted [simp]: "alloc_ok opt (a\<lparr>al_deleted := b\<rparr>) = alloc_ok opt a"
  by (simp add: alloc_ok_def)

lemma alloc_ok_permission: "alloc_ok opt a \<Longrightarrow> alloc_ok opt (addPermission clk ip a)"
  by (auto simp: alloc_ok_def addPermission_def add_permission_ips)

lemma alloc_ok_expire: "alloc_ok opt a \<Longrightarrow> alloc_ok opt (removeExpiredPermissions clk a)"
  by (simp add: alloc_ok_def removeExpiredPermissions_def distinct_map_filter)

lemma alloc_ok_lifetime:
  "alloc_ok opt a \<Longrightarrow> v \<le> op_allocationMaxLifetime opt div 1000 \<Longrightarrow> alloc_ok opt (setLifetime now (int (unat v)) a)"
  by (simp add: alloc_ok_def setLifetime_def word_le_def)

lemma alloc_ok_pairs:
  "alloc_ok opt a \<Longrightarrow> om_ok (<) ps \<Longrightarrow> list_all (\<lambda>x. pair_ok (snd x)) ps \<Longrightarrow> alloc_ok opt (set_pairs ps a)"
  by (auto simp: alloc_ok_def set_pairs_def om_ok_def split: relay.splits)

lemma om_set_pairs_ok:
  assumes "alloc_ok opt a" and "pair_ok pr"
  shows "alloc_ok opt (set_pairs (om_set (<) cid pr (relay_pairs (al_relay a))) a)"
proof (rule alloc_ok_pairs [OF assms(1)])
  show "om_ok (<) (om_set (<) cid pr (relay_pairs (al_relay a)))"
    using assms(1) by (simp add: alloc_ok_def lin.set_ok)
  show "list_all (\<lambda>x. pair_ok (snd x)) (om_set (<) cid pr (relay_pairs (al_relay a)))"
    using assms by (auto simp: alloc_ok_def om_set_def list_all_iff lin.insert_set dest!: set_update_subset_insert [THEN subsetD]
        split: option.splits)
qed

lemma erase_pairs_ok:
  "alloc_ok opt a \<Longrightarrow> alloc_ok opt (set_pairs (mm_erase (<) cid (relay_pairs (al_relay a))) a)"
  using lin.erase_ok [of "relay_pairs (al_relay a)" cid]
  by (intro alloc_ok_pairs) (auto simp: alloc_ok_def mm_erase_def list_all_iff)

lemma refresh_keeps:
  assumes "server_ok env s" and "held a s" and "alloc_ok (sv_options s) a"
    and "handleRefreshRequest env sys r a s = Inr s'"
  shows "keeps env s s'"
proof (cases "request_get r Lifetime 0")
  case None
  then show ?thesis using assms by (simp add: handleRefreshRequest_def assert_r_eq_Inr calm_keeps)
next
  case (Some attr)
  obtain v m where v: "respond env r m (put_alloc env (setLifetime (ts_now sys)
      (int (unat (min (op_allocationMaxLifetime (sv_options s) div 1000) v))) a) s) = Inr s'"
    using assms(4) Some by (auto simp: handleRefreshRequest_def result_convs Let_def split: if_splits)
  show ?thesis
    using put_alloc_keeps [of env s] assms alloc_ok_lifetime respond_calm [OF v]
    by (meson keeps_calm held_simps(3) min.cobounded1)
qed

lemma permission_loop_ok:
  "permission_loop env sys r n i a = Inr (Some b) \<Longrightarrow> alloc_ok opt a \<Longrightarrow>
   alloc_ok opt b \<and> al_tuple b = al_tuple a"
proof (induction n arbitrary: i a)
  case (Suc n)
  show ?case
  proof (cases "request_get r XorPeerAddress (int i)")
    case None
    then show ?thesis using Suc.prems by (auto split: if_splits)
  next
    case (Some attr)
    then obtain addr where addr: "attr_address attr = Inr addr" using Suc.prems(1) by (auto simp: bind_r_eq_Inr)
    show ?thesis
    proof (cases "na_family addr = IPv4")
      case True
      then obtain h where "permission_loop env sys r n (Suc i) (addPermission (ts_clock sys) h a) = Inr (Some b)"
        using Suc.prems(1) Some addr by (auto simp: bind_r_eq_Inr)
      from Suc.IH [OF this] show ?thesis using alloc_ok_permission [OF Suc.prems(2)] by (simp add: addPermission_def)
    next
      case False
      then show ?thesis using Suc.prems Some addr by (auto split: if_splits)
    qed
  qed
qed simp

lemma permission_keeps:
  assumes "server_ok env s" and "held a s" and "alloc_ok (sv_options s) a"
    and "handleCreatePermission env sys r a s = Inr s'"
  shows "keeps env s s'"
proof -
  obtain res where res: "permission_loop env sys r (nat (op_allocationMaxPermissions (sv_options s))) 0 a = Inr res"
    using assms(4) by (auto simp: handleCreatePermission_def bind_r_eq_Inr)
  show ?thesis
  proof (cases res)
    case None
    then show ?thesis using assms res respondError_calm by (fastforce simp: handleCreatePermission_def intro: calm_keeps)
  next
    case (Some b)
    then obtain m where "respond env r m (put_alloc env b s) = Inr s'"
      using assms(4) res by (auto simp: handleCreatePermission_def bind_r_eq_Inr)
    then show ?thesis
      using permission_loop_ok [of env sys r _ 0 a b "sv_options s"] res Some assms(1-3) put_alloc_keeps [of env s b]
      by (auto intro: keeps_calm respond_calm simp: held_def)
  qed
qed

lemma sa_handle_keeps:
  assumes "server_ok env s" and "held a s" and "alloc_ok (sv_options s) a"
    and "sa_handleRequest env sys r a s = Inr (h, s')"
  shows "keeps env s s'" and "\<not> h \<longrightarrow> s' = s"
  using assms refresh_keeps permission_keeps
  by (auto simp: sa_handleRequest_def bind_r_eq_Inr calm_keeps split: if_splits)

lemma udp_send_step:
  assumes "udp_send env sys data peer a s = (sent, b, s')"
  shows "b = updateUsage (ts_now sys) (int (length data)) a"
    and "sv_allocations s' = sv_allocations (put_alloc env b s)" and "sv_options s' = sv_options s"
    and "peer_outs s' = peer_outs s @
      (if sa_deleted (ts_now sys) b then [] else [SendPeer (relayedAddress (al_relay a)) peer data])"
  using assms by (auto simp: udp_send_def Let_def peer_outs_def split: if_splits)

lemma udp_send_keeps:
  assumes "server_ok env s" and "held a s" and "alloc_ok (sv_options s) a"
    and "udp_send env sys data peer a s = (sent, b, s')"
  shows "keeps env s s'"
  using put_alloc_held(1) [of env s b] assms udp_send_step [OF assms(4)]
  by (simp add: keeps_def server_ok_def)

lemma send_cases:
  assumes "handleSendIndication env sys r a s = Inr s'"
  obtains (ignored) "s' = s"
  | (sent) peerAttr peer dataAttr data host sent b s1 where
      "request_get r XorPeerAddress 0 = Some peerAttr" "attr_address peerAttr = Inr peer" "na_family peer = IPv4"
      "request_get r Data 0 = Some dataAttr" "asString dataAttr = Inr data" "address_host env peer = Inr host"
      "hasPermission a host" "udp_send env sys data peer a s = (sent, b, s1)"
      "if sent = -1 then \<exists>s2. respondError env sys r 486 ''Allocation Quota Reached'' s1 = Inr s2 \<and>
         delete_allocation env b s2 = Inr s' else s' = s1"
proof (cases "s' = s")
  case False
  obtain peerAttr where p: "request_get r XorPeerAddress 0 = Some peerAttr"
    using assms False by (cases "request_get r XorPeerAddress 0") (auto simp: handleSendIndication_def)
  then obtain peer where peer: "attr_address peerAttr = Inr peer" "na_family peer = IPv4"
    using assms False by (auto simp: handleSendIndication_def bind_r_eq_Inr split: if_splits)
  obtain dataAttr where d: "request_get r Data 0 = Some dataAttr"
    using assms False p peer by (cases "request_get r Data 0") (auto simp: handleSendIndication_def)
  obtain host data where h: "address_host env peer = Inr host" "hasPermission a host" "asString dataAttr = Inr data"
    using assms False p peer d by (auto simp: handleSendIndication_def bind_r_eq_Inr split: if_splits)
  obtain sent b s1 where u: "udp_send env sys data peer a s = (sent, b, s1)" by (metis prod_cases3)
  have "if sent = -1 then \<exists>s2. respondError env sys r 486 ''Allocation Quota Reached'' s1 = Inr s2 \<and>
         delete_allocation env b s2 = Inr s' else s' = s1"
    using assms p peer d h u by (auto simp: handleSendIndication_def bind_r_eq_Inr)
  then show ?thesis using that(2) p peer d h u by blast
qed (use that in blast)

lemma send_keeps:
  assumes "server_ok env s" and "held a s" and "alloc_ok (sv_options s) a"
    and "handleSendIndication env sys r a s = Inr s'"
  shows "keeps env s s'"
  using assms(4)
proof (cases rule: send_cases)
  case (sent peerAttr peer dataAttr data host sent b s1)
  note k = udp_send_keeps [OF assms(1-3) sent(8)]
  show ?thesis
  proof (cases "sent = -1")
    case True
    then obtain s2 where s2: "calm s1 s2" "delete_allocation env b s2 = Inr s'"
      using sent(9) respondError_calm by fastforce
    then have "keeps env s s2" using keeps_calm [OF k] by blast
    then show ?thesis using s2(2) delete_allocation_keeps keeps_trans by (metis keeps_def)
  qed (use k sent(9) in simp)
qed (use assms in simp)

lemma peer_data_keeps:
  assumes "server_ok env s" and "held a s" and "alloc_ok (sv_options s) a"
    and "udp_onPeerData env sys buf peer a s = Inr s'"
  shows "keeps env s s'"
proof (cases "s' = s")
  case False
  then have "calm (put_alloc env (updateUsage (ts_now sys) (int (length buf)) a) s) s'"
    using assms(4) by (auto simp: udp_onPeerData_def result_convs Let_def split: if_splits)
  with assms(1-3) show ?thesis by (intro keeps_calm [OF put_alloc_keeps]) auto
qed (use assms in simp)

lemma new_peer_pair_ok: "setPeerSocket sock new_pair = Inr pr \<Longrightarrow> pair_ok pr"
  by (auto simp: setPeerSocket_def new_pair_def assert_r_eq_Inr pair_ok_def new_timeout_def)

lemma accept_step:
  assumes "onPeerAccept env sys sock peer a s = Inr s'" and "s' \<noteq> s"
  obtains cid n pr where "pair_ok pr"
    "calm (put_alloc env (set_pairs (om_set (<) cid pr (relay_pairs (al_relay a))) a) (s\<lparr>sv_draws := n\<rparr>)) s'"
proof -
  obtain host where h: "address_host env peer = Inr host" "hasPermission a host"
    using assms by (auto simp: onPeerAccept_def bind_r_eq_Inr split: if_splits)
  then obtain cid n where f: "fresh_id (ts_number sys) (sv_draws s) (relay_pairs (al_relay a)) = Some (cid, n)"
    using assms by (auto simp: onPeerAccept_def split: option.splits)
  then obtain pr where pr: "setPeerSocket sock new_pair = Inr pr"
    using assms h by (auto simp: onPeerAccept_def bind_r_eq_Inr)
  have "calm (put_alloc env (set_pairs (om_set (<) cid pr (relay_pairs (al_relay a))) a) (s\<lparr>sv_draws := n\<rparr>)) s'"
    using assms(1) h f pr by (auto simp: onPeerAccept_def Let_def sendToControl_def split: relay.splits)
  then show ?thesis using that new_peer_pair_ok [OF pr] by blast
qed

lemma accept_keeps:
  assumes "server_ok env s" and "held a s" and "alloc_ok (sv_options s) a"
    and "onPeerAccept env sys sock peer a s = Inr s'"
  shows "keeps env s s'"
proof (cases "s' = s")
  case False
  then obtain cid n pr where pr: "pair_ok pr"
    and c: "calm (put_alloc env (set_pairs (om_set (<) cid pr (relay_pairs (al_relay a))) a) (s\<lparr>sv_draws := n\<rparr>)) s'"
    using accept_step [OF assms(4)] by blast
  have "server_ok env (s\<lparr>sv_draws := n\<rparr>)" "held a (s\<lparr>sv_draws := n\<rparr>)"
    using assms(1,2) by (simp_all add: server_ok_def held_def)
  then have "keeps env (s\<lparr>sv_draws := n\<rparr>) s'"
    using pr assms(3) by (intro keeps_calm [OF put_alloc_keeps c] om_set_pairs_ok) auto
  then show ?thesis by (simp add: keeps_def)
qed (use assms in simp)

lemma connect_keeps:
  assumes "server_ok env s" and "handleConnectRequest env sys r a s = Inr s'"
  shows "keeps env s s'"
  using assms
  by (auto simp: handleConnectRequest_def bind_r_eq_Inr doPeerConnect_def new_pair_def assert_r_eq_Inr Let_def
      intro: calm_keeps [OF _ respondError_calm] split: option.splits if_splits)

lemma close_pair_keeps:
  assumes "server_ok env s" and "held a s" and "alloc_ok (sv_options s) a"
    and "delete_pair cid pr (relay_pairs (al_relay a)) s = Inr (pairs, s1)"
  shows "keeps env s (put_alloc env (set_pairs pairs a) s1)"
proof -
  note d = delete_pair_calm [OF assms(4)]
  then have "server_ok env s1" "held a s1" "sv_options s1 = sv_options s"
    using assms(1,2) calm_ok(1) [of s s1 env] calm_ok(2) [of s s1 a] by (simp_all add: calm_def)
  then show ?thesis using d assms(3) put_alloc_keeps [of env s1 "set_pairs pairs a"]
    by (auto intro: erase_pairs_ok simp: keeps_def)
qed

lemma bind_failed_none: "bind_failed env sys r sock None a s = Inr s' \<Longrightarrow> calm s s'"
  using respondError_calm by (fastforce simp: bind_failed_def bind_r_eq_Inr)

lemma makeData_ok:
  assumes "makeDataConnection pr s = Inr (ok, pr', s')" and "pr_peer pr = Some p" and "pr_client pr = Some c"
    and "to_delay (pr_timeout pr) = 0"
  shows "ok" and "pair_ok pr'" and "calm s s'"
  using assms releaseTCPSocket_calm
  by (auto simp: makeDataConnection_def bind_r_eq_Inr pair_ok_def Let_def split: if_splits)

lemma found_pair_ok:
  assumes "alloc_ok opt a" and "om_find (<) cid (relay_pairs (al_relay a)) = Some pr"
  shows "pair_ok pr"
proof -
  have "om_ok (<) (relay_pairs (al_relay a))" "list_all (\<lambda>x. pair_ok (snd x)) (relay_pairs (al_relay a))"
    using assms(1) by (simp_all add: alloc_ok_def)
  with lin.om_find_mem [OF this(1) assms(2)] show ?thesis by (force simp: list_all_iff)
qed

lemma bind_step:
  assumes "tcp_handleConnectionBindRequest env sys r a s = Inr s'" and "\<not> calm s s'"
  obtains cid pr pr1 sock m ok pr2 s2 where "om_find (<) cid (relay_pairs (al_relay a)) = Some pr"
    "\<not> pr_isDataConnection pr" "setClientSocket sock pr = Inr pr1"
    "makeDataConnection pr1 (emit (SendTCP sock m) s) = Inr (ok, pr2, s2)"
    "ok \<longrightarrow> s' = put_alloc env (set_pairs (om_set (<) cid pr2 (relay_pairs (al_relay a))) a) s2"
proof -
  obtain sock where sock: "getTCPSocket env s (rq_remoteAddress r) = Inr sock" "request_method r ConnectionBind"
    "rq_transport r = TCP"
    using assms
    by (auto simp: tcp_handleConnectionBindRequest_def result_convs dest: bind_failed_none split: if_splits)
  obtain attr where attr: "request_get r ConnectionID 0 = Some attr"
    using assms sock
    by (cases "request_get r ConnectionID 0") (auto simp: tcp_handleConnectionBindRequest_def dest: bind_failed_none)
  then obtain cid where cid: "attr_value attr = Inr cid"
    using assms(1) sock by (auto simp: tcp_handleConnectionBindRequest_def bind_r_eq_Inr)
  obtain pr where pr: "om_find (<) cid (relay_pairs (al_relay a)) = Some pr"
    using assms sock attr cid
    by (cases "om_find (<) cid (relay_pairs (al_relay a))")
      (auto simp: tcp_handleConnectionBindRequest_def dest: bind_failed_none)
  obtain m pr1 where m: "response_to r SuccessResponse (method_code ConnectionBind) = Inr m"
    "\<not> pr_isDataConnection pr" "setClientSocket sock pr = Inr pr1"
    using assms(1) sock attr cid pr by (auto simp: tcp_handleConnectionBindRequest_def result_convs)
  obtain ok pr2 s2 where "makeDataConnection pr1 (emit (SendTCP sock m) s) = Inr (ok, pr2, s2)"
    "ok \<longrightarrow> s' = put_alloc env (set_pairs (om_set (<) cid pr2 (relay_pairs (al_relay a))) a) s2"
    using assms(1) sock attr cid pr m
    by (auto simp: tcp_handleConnectionBindRequest_def bind_r_eq_Inr Let_def split: if_splits)
  then show ?thesis using that pr m by blast
qed

lemma bind_keeps:
  assumes "server_ok env s" and "held a s" and "alloc_ok (sv_options s) a"
    and "tcp_handleConnectionBindRequest env sys r a s = Inr s'"
  shows "keeps env s s'"
proof (cases "calm s s'")
  case True
  then show ?thesis using assms(1) calm_keeps by blast
next
  case False
  obtain cid pr pr1 sock m ok pr2 s2 where pr: "om_find (<) cid (relay_pairs (al_relay a)) = Some pr"
    "\<not> pr_isDataConnection pr" and c: "setClientSocket sock pr = Inr pr1"
    and md: "makeDataConnection pr1 (emit (SendTCP sock m) s) = Inr (ok, pr2, s2)"
    and fin: "ok \<longrightarrow> s' = put_alloc env (set_pairs (om_set (<) cid pr2 (relay_pairs (al_relay a))) a) s2"
    by (rule bind_step [OF assms(4) False])
  have "pair_ok pr" using assms(3) pr(1) by (rule found_pair_ok)
  then obtain p where p: "pr_peer pr1 = Some p" "pr_client pr1 = Some sock" "to_delay (pr_timeout pr1) = 0"
    using c pr(2) by (auto simp: setClientSocket_def assert_r_eq_Inr pair_ok_def)
  note m = makeData_ok [OF md p]
  then have calm: "calm s s2" by (auto simp: calm_def peer_outs_def)
  then have "server_ok env s2" "held a s2" "sv_options s2 = sv_options s"
    using assms(1,2) calm_ok(1) [of s s2 env] calm_ok(2) [of s s2 a] by (simp_all add: calm_def)
  moreover from this(3) assms(3) have
    "alloc_ok (sv_options s2) (set_pairs (om_set (<) cid pr2 (relay_pairs (al_relay a))) a)"
    using om_set_pairs_ok m(2) by simp
  ultimately show ?thesis
    using fin m put_alloc_keeps [of env s2 "set_pairs (om_set (<) cid pr2 (relay_pairs (al_relay a))) a"]
    by (simp add: keeps_def)
qed

lemma alloc_handle_keeps:
  assumes "server_ok env s" and "held a s" and "alloc_ok (sv_options s) a"
    and "alloc_handleRequest env sys r a s = Inr (h, s')"
  shows "keeps env s s'"
proof -
  obtain h1 s1 where 1: "sa_handleRequest env sys r a s = Inr (h1, s1)"
    using assms(4) by (auto simp: alloc_handleRequest_def bind_r_eq_Inr)
  note sa = sa_handle_keeps [OF assms(1-3) 1]
  show ?thesis
  proof (cases h1)
    case True
    then show ?thesis using assms(4) 1 sa by (simp add: alloc_handleRequest_def)
  next
    case False
    then have "s1 = s" using sa(2) by simp
    then show ?thesis using assms 1 False
      by (auto simp: alloc_handleRequest_def bind_r_eq_Inr split: relay.splits if_splits
          intro: send_keeps connect_keeps bind_keeps)
  qed
qed

lemma addAllocation_keeps:
  assumes "server_ok env s" and "alloc_ok (sv_options s) a" and "addAllocation env a s = Inr s'"
  shows "keeps env s s'"
proof -
  have new: "mm_find (five_tuple_less env) (al_tuple a) (sv_allocations s) = None"
    using assms(3) by (simp add: addAllocation_def assert_r_eq_Inr getAllocation_def om_find_def)
  then have s': "sv_allocations s' = mm_insert (five_tuple_less env) (al_tuple a, a) (sv_allocations s)"
    "sv_options s' = sv_options s"
    using assms(3) by (auto simp: addAllocation_def assert_r_eq_Inr om_set_def)
  have "om_ok (five_tuple_less env) (sv_allocations s')"
    using ft.insert_ok [of env "sv_allocations s" "(al_tuple a, a)"] new assms(1) s'
    by (simp add: server_ok_def)
  then show ?thesis using assms(1,2) s' by (auto simp: keeps_def server_ok_def list_all_iff ft.insert_set)
qed

lemma new_allocation_ok:
  assumes "lifetime \<le> op_allocationMaxLifetime opt div 1000" and "relay_pairs rel = []"
    and "ft_transport t = UDP \<longleftrightarrow> (\<exists>addr. rel = UDPRelay addr)"
  shows "alloc_ok opt (new_server_allocation now opt t u (int (unat lifetime)) rel)"
    and "al_tuple (new_server_allocation now opt t u (int (unat lifetime)) rel) = t"
  using assms by (simp_all add: alloc_ok_def new_server_allocation_def new_allocation_def allocation.defs
      om_ok_def word_le_def)

lemma allocate_lifetime_le: "allocate_lifetime opt v \<le> op_allocationMaxLifetime opt div 1000"
  by (simp add: allocate_lifetime_def Let_def min.coboundedI1 split: option.split)

lemma create_keeps:
  assumes "server_ok env s" and "create_allocation env sys t u l rel s = Inr (a, s')"
    and "l \<le> op_allocationMaxLifetime (sv_options s) div 1000" and "\<And>addr. relay_pairs (rel addr) = []"
    and "\<And>addr. ft_transport t = UDP \<longleftrightarrow> (\<exists>x. rel addr = UDPRelay x)"
  shows "keeps env s s'" and "peer_outs s' = peer_outs s"
proof -
  obtain s1 where s1: "addAllocation env a s = Inr s1" "s' = next_draw s1"
    "a = new_server_allocation (ts_now sys) (sv_options s) t u (int (unat l)) (rel (ts_bound sys (sv_draws s)))"
    using assms(2) by (auto simp: create_allocation_def bind_r_eq_Inr Let_def)
  have "alloc_ok (sv_options s) a" using s1(3) assms(3-5) new_allocation_ok(1) by simp
  then show "keeps env s s'" using addAllocation_keeps [OF assms(1) _ s1(1)] s1(2) keeps_calm [of env s s1 s']
    by simp
  show "peer_outs s' = peer_outs s"
    using s1(1,2) by (auto simp: addAllocation_def assert_r_eq_Inr peer_outs_def)
qed

lemma allocate_response_calm: "allocate_response env r l a s = Inr s' \<Longrightarrow> calm s s'"
  by (auto simp: allocate_response_def result_convs Let_def dest: respond_calm)

text \<open>The stages an Allocate request passes before the allocation is made.\<close>

lemma allocate_step:
  assumes "handleAllocateRequest env sys r s = Inr s'" and "\<not> calm s s'"
  obtains usernameAttr username transportAttr v t where
    "request_get r Username 0 = Some usernameAttr" "asString usernameAttr = Inr username"
    "request_get r RequestedTransport 0 = Some transportAttr" "attr_value transportAttr = Inr v"
    "drop_bit 24 v = 6 \<or> drop_bit 24 v = 17"
    "t = \<lparr>ft_remote = rq_remoteAddress r, ft_local = rq_localAddress r,
          ft_transport = (if drop_bit 24 v = 17 then UDP else TCP)\<rparr>"
    "getAllocation env s t = None" "allocate_checked env sys r username (drop_bit 24 v) t s = Inr s'"
proof -
  have m: "request_method r Allocate" "request_class r Request"
    using assms(1) by (auto simp: handleAllocateRequest_def assert_r_eq_Inr)
  obtain ua where ua: "request_get r Username 0 = Some ua"
    using assms m by (cases "request_get r Username 0") (auto simp: handleAllocateRequest_def dest: respondError_calm)
  then obtain u where u: "asString ua = Inr u"
    using assms m by (auto simp: handleAllocateRequest_def bind_r_eq_Inr)
  obtain ta where ta: "request_get r RequestedTransport 0 = Some ta"
    using assms m ua u
    by (cases "request_get r RequestedTransport 0") (auto simp: handleAllocateRequest_def dest: respondError_calm)
  then obtain v where v: "attr_value ta = Inr v"
    using assms m ua u by (auto simp: handleAllocateRequest_def bind_r_eq_Inr)
  define t where "t = \<lparr>ft_remote = rq_remoteAddress r, ft_local = rq_localAddress r,
          ft_transport = (if drop_bit 24 v = 17 then UDP else TCP)\<rparr>"
  have "drop_bit 24 v = 6 \<or> drop_bit 24 v = 17" "getAllocation env s t = None"
    "allocate_checked env sys r u (drop_bit 24 v) t s = Inr s'"
    using assms m ua u ta v
    by (auto simp: handleAllocateRequest_def Let_def t_def dest: respondError_calm split: if_splits)
  then show ?thesis using that [OF ua u ta v _ t_def] by blast
qed

lemma checked_step:
  assumes "allocate_checked env sys r u p t s = Inr s'" and "p = 6 \<or> p = 17"
  obtains requested rel a s1 where "requested_lifetime r = Inr requested"
    "p = 17 \<and> rel = UDPRelay \<or>
     p = 6 \<and> (\<exists>sock. getTCPSocket env s (rq_remoteAddress r) = Inr sock \<and> rel = (\<lambda>addr. TCPRelay sock addr []))"
    "create_allocation env sys t u (allocate_lifetime (sv_options s) requested) rel s = Inr (a, s1)"
    "allocate_response env r (allocate_lifetime (sv_options s) requested) a s1 = Inr s'"
  using assms
  by (auto simp: allocate_checked_def Let_def bind_r_eq_Inr split: if_splits)

lemma allocate_keeps:
  assumes "server_ok env s" and "handleAllocateRequest env sys r s = Inr s'"
  shows "keeps env s s'" and "peer_outs s' = peer_outs s"
proof -
  have "keeps env s s' \<and> peer_outs s' = peer_outs s"
  proof (cases "calm s s'")
    case True
    then show ?thesis using calm_keeps [OF assms(1)] by (simp add: calm_def)
  next
    case False
    from assms(2) False show ?thesis
    proof (rule allocate_step)
      fix ua u ta v t
      assume v: "drop_bit 24 v = 6 \<or> drop_bit 24 v = (17 :: u32)"
        and t: "t = \<lparr>ft_remote = rq_remoteAddress r, ft_local = rq_localAddress r,
          ft_transport = (if drop_bit 24 v = 17 then UDP else TCP)\<rparr>"
        and c: "allocate_checked env sys r u (drop_bit 24 v) t s = Inr s'"
      obtain requested rel a s1 where
        rel: "drop_bit 24 v = 17 \<and> rel = UDPRelay \<or> drop_bit 24 v = 6 \<and> (\<exists>sock. rel = (\<lambda>addr. TCPRelay sock addr []))"
        and s1: "create_allocation env sys t u (allocate_lifetime (sv_options s) requested) rel s = Inr (a, s1)"
        and s': "calm s1 s'"
        using checked_step [OF c v] allocate_response_calm by metis
      have "keeps env s s1 \<and> peer_outs s1 = peer_outs s"
        using create_keeps [OF assms(1) s1 allocate_lifetime_le] rel t by auto
      then show ?thesis using keeps_calm [of env s s1 s'] s' by (simp add: calm_def)
    qed
  qed
  then show "keeps env s s'" "peer_outs s' = peer_outs s" by auto
qed

lemma find_tcp_in: "find_tcp_allocation cid xs = Some a \<Longrightarrow> \<exists>k. (k, a) \<in> set xs"
  by (induction xs) (auto split: if_splits)

lemma getTCPAllocation_in:
  assumes "server_ok env s" and "getTCPAllocation s cid = Some a"
  shows "held a s" and "alloc_ok (sv_options s) a"
  using find_tcp_in [of cid "sv_allocations s" a] assms
  by (auto simp: getTCPAllocation_def server_ok_def held_def list_all_iff)

lemma getAllocation_held:
  assumes "server_ok env s" and "getAllocation env s t = Some a"
  shows "held a s" and "alloc_ok (sv_options s) a"
  using getAllocation_in [OF assms] by (auto simp: held_def)

text \<open>The four ways an authorized request is served.\<close>

lemma authorized_cases:
  assumes "handleAuthorizedRequest env sys r s = Inr s'"
  obtains (binding) "handleBindingRequest env r s = Inr s'"
  | (allocate) "handleAllocateRequest env sys r s = Inr s'"
  | (bind) "handleConnectionBindRequest env sys r s = Inr s'"
  | (mismatch) "respondError env sys r 437 ''Allocation Mismatch'' s = Inr s'"
  | (served) a handled s1 where
      "getAllocation env s \<lparr>ft_remote = rq_remoteAddress r, ft_local = rq_localAddress r,
         ft_transport = rq_transport r\<rparr> = Some a"
      "alloc_handleRequest env sys r a s = Inr (handled, s1)"
      "s' = s1 \<or> respondError env sys r 600 ''Operation Not Supported'' s1 = Inr s'"
  using assms that
  by (fastforce simp: handleAuthorizedRequest_def bind_r_eq_Inr split: if_splits option.splits)

lemma authorized_keeps:
  assumes "server_ok env s" and "handleAuthorizedRequest env sys r s = Inr s'"
  shows "keeps env s s'"
  using assms(2)
proof (cases rule: authorized_cases)
  case binding
  then show ?thesis using assms(1)
    by (auto simp: handleBindingRequest_def result_convs intro: calm_keeps dest: respond_calm)
next
  case allocate
  then show ?thesis using allocate_keeps(1) assms(1) by blast
next
  case bind
  then show ?thesis using assms(1)
    by (auto simp: handleConnectionBindRequest_def bind_r_eq_Inr split: option.splits
        intro: calm_keeps [OF _ respondError_calm] bind_keeps [OF _ getTCPAllocation_in])
next
  case mismatch
  then show ?thesis using assms(1) by (auto intro: calm_keeps [OF _ respondError_calm])
next
  case (served a handled s1)
  have "keeps env s s1"
    by (rule alloc_handle_keeps [OF assms(1) getAllocation_held [OF assms(1) served(1)] served(2)])
  then show ?thesis using served(3) by (auto intro: keeps_calm [OF _ respondError_calm])
qed

lemma request_keeps:
  assumes "server_ok env s" and "handleRequest env sys r state s = Inr s'"
  shows "keeps env s s'"
  using assms authorized_keeps
  by (auto simp: handleRequest_def split: auth_state.splits intro: calm_keeps [OF _ respondError_calm])

lemma recv_keeps:
  "server_ok env s \<Longrightarrow> recv_requests env sys tr l p buf m s = Inr s' \<Longrightarrow> keeps env s s'"
proof (induction env sys tr l p buf m s rule: recv_requests.induct)
  case (1 env sys tr l p buf m s)
  show ?case
  proof (cases "s' = s")
    case False
    obtain n m1 where n: "buf \<noteq> []" "message_read env buf m = Inr (n, m1)" "n \<noteq> 0" "n \<le> length buf"
      using 1(3) False by (auto simp: recv_requests.simps [of env sys tr l p buf m s] split: if_splits sum.splits)
    let ?step = "if msg_class m1 = class_code Request \<or> msg_class m1 = class_code Indication then
        bind_r (new_turn_request m1 tr l p) (\<lambda>request. let (state, key) = ts_auth sys request
          in handleRequest env sys (request\<lparr>rq_hash := key\<rparr>) state s) else Inl AssertFail"
    obtain s1 where s1: "?step = Inr s1" "recv_requests env sys tr l p (drop n buf) m1 s1 = Inr s'"
      using 1(3) n by (auto simp: recv_requests.simps [of env sys tr l p buf m s] bind_r_eq_Inr)
    have k: "keeps env s s1"
      using s1(1) by (auto simp: bind_r_eq_Inr split_beta split: if_splits intro: request_keeps [OF 1(2)])
    then have "keeps env s1 s'"
      using 1(1) [of "(n, m1)" n m1 s1] n s1 by (auto simp: keeps_def not_less)
    then show ?thesis using k keeps_trans by blast
  qed (use 1(2) in simp)
qed

lemma usage_keeps:
  assumes "server_ok env s" and "held a s" and "alloc_ok (sv_options s) a"
    and "calm (put_alloc env (updateUsage now n a) s) s'"
  shows "keeps env s s'"
  using assms by (intro keeps_calm [OF put_alloc_keeps]) auto

lemma pair_data_keeps:
  assumes "server_ok env s" and "held a s" and "alloc_ok (sv_options s) a" and "pair_ok pr"
  shows "keeps env s (pair_onPeerData env sys buf cid pr a s)" and "keeps env s (pair_onClientData env sys buf pr a s)"
proof -
  have "pair_ok (pr\<lparr>pr_early := pr_early pr @ buf\<rparr>)" using assms(4) by (simp add: pair_ok_def)
  then have "keeps env s (put_alloc env (set_pairs (om_set (<) cid (pr\<lparr>pr_early := pr_early pr @ buf\<rparr>)
      (relay_pairs (al_relay a))) a) s)"
    using assms by (intro put_alloc_keeps om_set_pairs_ok) auto
  then show "keeps env s (pair_onPeerData env sys buf cid pr a s)"
    using usage_keeps [OF assms(1-3), of "ts_now sys" "int (length buf)"]
    by (auto simp: pair_onPeerData_def Let_def split: option.splits)
  show "keeps env s (pair_onClientData env sys buf pr a s)"
    using usage_keeps [OF assms(1-3), of "ts_now sys" "int (length buf)"] assms(1)
    by (auto simp: pair_onClientData_def Let_def split: option.splits)
qed

lemma connect_response_calm: "sendPeerConnectResponse cid pr ok a s = Inr s' \<Longrightarrow> calm s s'"
  by (auto simp: sendPeerConnectResponse_def result_convs)

lemma connected_keeps:
  assumes "server_ok env s" and "held a s" and "alloc_ok (sv_options s) a" and "pair_ok pr"
    and "onPeerConnectSuccess env sys cid pr a s = Inr s'"
  shows "keeps env s s'"
proof -
  let ?a = "set_pairs (om_set (<) cid (pr\<lparr>pr_timeout := to_reset (ts_clock sys) (pr_timeout pr)\<rparr>)
              (relay_pairs (al_relay a))) a"
  obtain s1 where s1: "calm s s1" "s' = put_alloc env ?a s1"
    using assms(5) connect_response_calm by (fastforce simp: onPeerConnectSuccess_def bind_r_eq_Inr)
  have "pair_ok (pr\<lparr>pr_timeout := to_reset (ts_clock sys) (pr_timeout pr)\<rparr>)"
    using assms(4) by (simp add: pair_ok_def to_reset_def)
  moreover have "server_ok env s1" "held a s1" "sv_options s1 = sv_options s"
    using s1(1) calm_ok(1) [OF s1(1), of env] calm_ok(2) [OF s1(1), of a] assms(1,2) by (simp_all add: calm_def)
  ultimately have "keeps env s1 s'"
    using s1(2) assms(3) put_alloc_keeps [of env s1 ?a] om_set_pairs_ok by simp
  then show ?thesis using s1(1) by (simp add: keeps_def calm_def)
qed

lemma alloc_event_keeps:
  assumes "server_ok env s" and "held a s" and "alloc_ok (sv_options s) a" and "alloc_event env sys e a s = Inr s'"
  shows "keeps env s s'"
  using assms(4)
proof (cases e)
  case (PairPeerData t cid buf)
  then show ?thesis using assms(1,4)
    by (auto intro: pair_data_keeps [OF assms(1-3) found_pair_ok [OF assms(3)]] split: option.splits)
next
  case (PairClientData t cid buf)
  then show ?thesis using assms(1,4)
    by (auto intro: pair_data_keeps [OF assms(1-3) found_pair_ok [OF assms(3)]] split: option.splits)
next
  case (PairConnected t cid)
  then show ?thesis using assms(1,4)
    by (auto intro: connected_keeps [OF assms(1-3) found_pair_ok [OF assms(3)]] split: option.splits)
next
  case (PairConnectFailed t cid)
  then show ?thesis using assms(1,4) by (auto simp: onPeerConnectError_def split: option.splits
        intro: calm_keeps [OF _ connect_response_calm])
next
  case (PairClosed t cid)
  then show ?thesis using assms close_pair_keeps [OF assms(1-3)]
    by (auto simp: onConnectionClosed_def bind_r_eq_Inr split: option.splits)
qed (use assms in \<open>auto simp: onControlClosed_def split: relay.splits
      intro: peer_data_keeps accept_keeps put_alloc_keeps\<close>)

subsection \<open>The timer\<close>

lemma pair_not_expired: "pair_ok pr \<Longrightarrow> \<not> pr_expired clk pr"
  by (simp add: pair_ok_def pr_expired_def to_expired_def)

lemma free_expired_none:
  "list_all (\<lambda>x. pair_ok (snd x)) xs \<Longrightarrow> free_expired clk xs pairs s = Inr (pairs, s)"
  by (induction xs) (auto simp: pair_not_expired)

lemma set_pairs_same: "set_pairs (relay_pairs (al_relay a)) a = a"
  by (simp add: set_pairs_def split: relay.split)

lemma delete_pairs_total:
  "om_ok (<) xs \<Longrightarrow> \<exists>s'. delete_pairs xs xs s = Inr ([], s') \<and> calm s s'"
proof (induction xs arbitrary: s)
  case (Cons x xs)
  obtain k pr where x: "x = (k, pr)" by (cases x)
  have ok: "om_ok (<) xs" using Cons.prems by (simp add: om_ok_def)
  have e: "mm_erase (<) k (x # xs) = xs" using lin.erase_mid [of "[]" k pr xs] Cons.prems x by simp
  let ?s = "close_sockets (pr_peer pr) (close_sockets (pr_client pr) s)"
  have "delete_pair k pr (x # xs) s = Inr (xs, ?s)"
    using e x by (simp add: delete_pair_def pc_exists_def pc_remove_def)
  moreover have "calm s ?s" by (simp add: close_sockets_def split: option.split)
  moreover obtain s' where "delete_pairs xs xs ?s = Inr ([], s')" "calm ?s s'" using Cons.IH [OF ok] by blast
  ultimately show ?case using x calm_trans by auto
qed simp

lemma delete_allocation_total:
  assumes "server_ok env s" and "held a s" and "alloc_ok (sv_options s) a"
  shows "\<exists>s'. delete_allocation env a s = Inr s'"
proof -
  obtain ys b zs where s: "sv_allocations s = ys @ (al_tuple a, b) # zs"
    "om_ok (five_tuple_less env) (ys @ (al_tuple a, b) # zs)"
    using held_split [OF assms(1,2)] by blast
  have rem: "\<exists>s'. removeAllocation env a s1 = Inr s'" if "calm s s1" for s1
    using that s by (simp add: removeAllocation_def getAllocation_def calm_def ft.om_find_mid)
  show ?thesis
  proof (cases "al_relay a")
    case (UDPRelay addr)
    then show ?thesis using rem by (simp add: delete_allocation_def)
  next
    case (TCPRelay control addr pairs)
    let ?s = "emit (CloseSocket control) (emit (CloseRelay addr) s)"
    obtain s1 where s1: "delete_pairs pairs pairs ?s = Inr ([], s1)" "calm ?s s1"
      using delete_pairs_total [of pairs ?s] assms(3) TCPRelay by (auto simp: alloc_ok_def)
    then have "calm s s1" using calm_trans [of s ?s s1] by simp
    then show ?thesis using rem s1 TCPRelay by (simp add: delete_allocation_def)
  qed
qed

lemma onTimer_alloc:
  assumes "alloc_ok (sv_options s) a"
  shows "alloc_onTimer env sys a s =
    (if sa_deleted (ts_now sys) a then delete_allocation env a s
     else Inr (put_alloc env (removeExpiredPermissions (ts_clock sys) a) s))"
proof (cases "al_relay a")
  case (UDPRelay addr)
  then show ?thesis by (simp add: alloc_onTimer_def)
next
  case (TCPRelay control addr pairs)
  then have "free_expired (ts_clock sys) pairs pairs s = Inr (pairs, s)"
    using assms by (simp add: alloc_ok_def free_expired_none)
  then show ?thesis using TCPRelay set_pairs_same [of a] by (simp add: alloc_onTimer_def)
qed

definition swept :: "turn_sys \<Rightarrow> (five_tuple \<times> server_allocation) list \<Rightarrow> (five_tuple \<times> server_allocation) list" where
  "swept sys xs =
     map (\<lambda>x. (fst x, removeExpiredPermissions (ts_clock sys) (snd x)))
       (filter (\<lambda>x. \<not> sa_deleted (ts_now sys) (snd x)) xs)"

lemma timer_loop_exact:
  assumes "server_ok env s" and "sv_allocations s = ys @ xs"
  shows "\<exists>s'. timer_loop env sys xs s = Inr s' \<and> sv_allocations s' = ys @ swept sys xs \<and> keeps env s s'"
  using assms
proof (induction xs arbitrary: ys s)
  case (Cons x xs)
  obtain k a where x: "x = (k, a)" by (cases x)
  have a: "k = al_tuple a" "alloc_ok (sv_options s) a" "held a s"
    using Cons.prems x by (auto simp: server_ok_def held_def)
  have om: "om_ok (five_tuple_less env) (ys @ (al_tuple a, a) # xs)"
    using Cons.prems x a(1) by (simp add: server_ok_def)
  show ?case
  proof (cases "sa_deleted (ts_now sys) a")
    case True
    obtain s1 where s1: "delete_allocation env a s = Inr s1"
      using delete_allocation_total [OF Cons.prems(1) a(3,2)] by blast
    note k = delete_allocation_keeps [OF Cons.prems(1) s1]
    have "sv_allocations s1 = ys @ xs"
      using delete_allocation_step(1) [OF s1] Cons.prems(2) x a(1) ft.erase_mid [OF om] by simp
    from Cons.IH [OF _ this] k obtain s' where "timer_loop env sys xs s1 = Inr s'"
      "sv_allocations s' = ys @ swept sys xs" "keeps env s1 s'" by (auto simp: keeps_def)
    then show ?thesis using s1 True x onTimer_alloc [OF a(2), of env sys] keeps_trans [OF k]
      by (auto simp: swept_def)
  next
    case False
    let ?b = "removeExpiredPermissions (ts_clock sys) a"
    let ?s = "put_alloc env ?b s"
    have b: "al_tuple ?b = al_tuple a" by (simp add: removeExpiredPermissions_def)
    have k: "keeps env s ?s" using put_alloc_keeps [OF Cons.prems(1), of ?b] a alloc_ok_expire by simp
    have "sv_allocations ?s = (ys @ [(k, ?b)]) @ xs"
      using Cons.prems(2) x a(1) b ft.om_set_mid [OF om] by simp
    from Cons.IH [OF _ this] k obtain s' where "timer_loop env sys xs ?s = Inr s'"
      "sv_allocations s' = (ys @ [(k, ?b)]) @ swept sys xs" "keeps env ?s s'" by (auto simp: keeps_def)
    then show ?thesis using False x onTimer_alloc [OF a(2), of env sys] keeps_trans [OF k]
      by (auto simp: swept_def)
  qed
qed (simp add: swept_def)

lemma event_keeps:
  assumes "server_ok env s" and "server_event env sys e s = Inr s'"
  shows "keeps env s s'"
proof (cases e)
  case (Datagram tr l p buf)
  then obtain m where "recv_requests env sys tr l p buf m (next_draw s) = Inr s'"
    using assms(2) by (auto simp: server_event_def server_onSocketRecv_def bind_r_eq_Inr)
  moreover have "server_ok env (next_draw s)" using assms(1) by (simp add: server_ok_def)
  ultimately have "keeps env (next_draw s) s'" using recv_keeps by blast
  then show ?thesis by (simp add: keeps_def)
next
  case Timer
  then show ?thesis using timer_loop_exact [OF assms(1), of "[]" "sv_allocations s" sys] assms(2)
    by (auto simp: server_event_def onTimer_def)
next
  case (Accepted sock p)
  then show ?thesis using assms by (auto simp: server_event_def onTCPAcceptConnection_def keeps_def server_ok_def)
next
  case (Closed sock)
  then show ?thesis using assms by (auto simp: server_event_def intro: calm_keeps [OF _ releaseTCPSocket_calm])
qed (use assms in \<open>auto simp: server_event_def simp del: alloc_event.simps split: option.splits
      intro: alloc_event_keeps [OF _ getAllocation_held]\<close>)

lemma run_keeps: "server_ok env s \<Longrightarrow> server_run env evs s = Inr s' \<Longrightarrow> keeps env s s'"
proof (induction evs arbitrary: s)
  case (Cons e evs)
  then obtain s1 where s1: "server_event env (fst e) (snd e) s = Inr s1" "server_run env evs s1 = Inr s'"
    by (auto simp: bind_r_eq_Inr)
  have "keeps env s s1" by (rule event_keeps [OF Cons.prems(1) s1(1)])
  then show ?case using Cons.IH [OF _ s1(2)] keeps_trans by (auto simp: keeps_def)
qed simp

lemma new_server_ok: "server_ok env (new_server opt)"
  by (simp add: new_server_def server_ok_def om_ok_def)

end
