(* ===== verification/Fp_Double.thy ===== *)
theory Fp_Double
  imports Scy_Prelude "HOL-Library.Log_Nat"
begin

text \<open>
  The arithmetic of \<^verbatim>\<open>double\<close> that the calendar code relies on. A finite \<^verbatim>\<open>double\<close> is the
  rational number it stands for, and every operation computes the exact result and rounds it
  with \<open>fl\<close>: to 53 significant bits, to nearest, ties to even (IEEE 754 binary64, each operation
  rounded once). The exponent range is not bounded: the calendar code stays between
  \<open>2 ^ -64\<close> and \<open>2 ^ 64\<close>.

  The locale \<open>rounding\<close> states what the clients need of a rounding function: numbers with 53
  bits are kept, and the relative error is at most \<open>2 ^ -53\<close>. From these it proves that the
  floor of a rounded quotient of integers is the integer quotient.
\<close>

subsection \<open>Rounding\<close>

text \<open>Round to the nearest integer, ties to even.\<close>

definition rne :: "rat \<Rightarrow> int" where
  "rne x = (let f = \<lfloor>x\<rfloor>; r = x - of_int f
            in if r < 1 / 2 \<or> r = 1 / 2 \<and> even f then f else f + 1)"

text \<open>The binary exponent of a positive number: \<open>2 ^ e \<le> x < 2 ^ (e + 1)\<close>.\<close>

definition expo :: "rat \<Rightarrow> int" where
  "expo x = (if 1 \<le> x then bitlen \<lfloor>x\<rfloor> - 1 else - bitlen (\<lceil>1 / x\<rceil> - 1))"

definition fl :: "rat \<Rightarrow> rat" where
  "fl x = (if x = 0 then 0
           else let u = 2 powi (expo \<bar>x\<bar> - 52) in of_int (rne (x / u)) * u)"

subsection \<open>What the rounding promises\<close>

locale rounding =
  fixes rnd :: "rat \<Rightarrow> rat"
  assumes rnd_exact: "\<bar>k\<bar> \<le> 2 ^ 53 \<Longrightarrow> rnd (of_int k * 2 powi j) = of_int k * 2 powi j"
    and rnd_error: "\<bar>rnd x - x\<bar> \<le> \<bar>x\<bar> / 2 ^ 53"
    and rnd_grid: "2 powi e \<le> \<bar>x\<bar> \<Longrightarrow> \<exists>k. rnd x = of_int k * 2 powi (e - 52)"
begin

lemma rnd_int: "\<bar>k\<bar> \<le> 2 ^ 53 \<Longrightarrow> rnd (of_int k) = of_int k"
  using rnd_exact [of k 0] by simp

text \<open>A number with \<open>n\<close> fractional bits.\<close>

lemma rnd_dyadic:
  assumes "\<bar>k\<bar> \<le> 2 ^ 53"
  shows "rnd (of_int k / 2 ^ n) = of_int k / 2 ^ n"
  using rnd_exact [OF assms, of "- int n"] by (simp add: power_int_minus field_simps)

text \<open>A rounded number of at least \<open>2 ^ e\<close> has at most \<open>52 - e\<close> fractional bits.\<close>

lemma rnd_fraction:
  assumes "2 ^ e \<le> \<bar>x\<bar>" "n + e = 52"
  shows "\<exists>k. rnd x = of_int k / 2 ^ n"
proof -
  have "int e - 52 = - int n" using assms(2) by simp
  then show ?thesis using rnd_grid [of "int e" x] assms(1) by (simp add: power_int_minus divide_inverse)
qed

lemma rnd_floor_quotient:
  assumes b: "0 < b" and a: "\<bar>a\<bar> < 2 ^ 53"
  shows "\<lfloor>rnd (of_int a / of_int b)\<rfloor> = a div b"
proof (cases "b dvd a")
  case True
  then obtain k where k: "a = b * k" ..
  have "\<bar>k\<bar> \<le> \<bar>a\<bar>" using b by (simp add: k abs_mult mult_le_cancel_right1)
  then show ?thesis using a b by (simp add: k rnd_int)
next
  case False
  let ?q = "of_int a / of_int b :: rat" and ?n = "a div b"
  have b': "(0 :: rat) < of_int b" using b by simp
  have m: "0 < a mod b" "a mod b < b" 
    using False b pos_mod_bound [of b a] pos_mod_sign [of b a] by (auto simp: dvd_eq_mod_eq_0 less_le)
  have q: "?q = of_int ?n + of_int (a mod b) / of_int b"
  proof -
    have "(of_int a :: rat) = of_int b * of_int ?n + of_int (a mod b)"
      by (simp flip: of_int_mult of_int_add)
    then show ?thesis using b' by (simp add: add_divide_distrib)
  qed
  have "\<bar>rnd ?q - ?q\<bar> \<le> \<bar>?q\<bar> / 2 ^ 53" by (rule rnd_error)
  also have "\<dots> < 1 / of_int b"
  proof -
    have "(of_int \<bar>a\<bar> :: rat) < of_int (2 ^ 53)" using a by (simp only: of_int_less_iff)
    then show ?thesis using b' by (simp add: field_simps abs_mult)
  qed
  finally have e: "\<bar>rnd ?q - ?q\<bar> < 1 / of_int b" .
  have lo: "1 / of_int b \<le> (of_int (a mod b) / of_int b :: rat)"
    using m b' by (intro divide_right_mono) auto
  have "(of_int (a mod b) :: rat) \<le> of_int (b - 1)" using m by (simp only: of_int_le_iff)
  then have hi: "of_int (a mod b) / of_int b \<le> (1 :: rat) - 1 / of_int b"
    using b' by (simp add: field_simps)
  show ?thesis
    by (rule floor_unique) (use e lo hi q in \<open>simp_all add: abs_less_iff\<close>)
qed

end

subsection \<open>The rounding of doubles keeps the promises\<close>

lemma two_powi_pos [simp]: "(0 :: rat) < 2 powi e"
  by (simp add: power_int_def)

lemma expo_bounds:
  assumes "0 < x"
  shows "2 powi expo x \<le> x \<and> x < 2 powi (expo x + 1)"
proof (cases "1 \<le> x")
  case True
  then have p: "0 < \<lfloor>x\<rfloor>" by (simp add: zero_less_floor)
  define n where "n = nat (bitlen \<lfloor>x\<rfloor> - 1)"
  have "bitlen \<lfloor>x\<rfloor> \<noteq> 0" using p by (subst bitlen_eq_zero_iff) linarith
  then have "0 < bitlen \<lfloor>x\<rfloor>" using bitlen_nonneg [of "\<lfloor>x\<rfloor>"] by linarith
  then have n: "bitlen \<lfloor>x\<rfloor> = int n + 1" by (simp add: n_def)
  then have "2 ^ n \<le> \<lfloor>x\<rfloor>" "\<lfloor>x\<rfloor> < 2 ^ (n + 1)"
    using bitlen_bounds [OF p] by (simp_all add: nat_add_distrib)
  then have "(2 :: rat) ^ n \<le> x" "x < 2 ^ (n + 1)"
    by (simp_all add: le_floor_iff floor_less_iff)
  then show ?thesis using True n by (simp add: expo_def power_int_add)
next
  case False
  define m where "m = \<lceil>1 / x\<rceil> - 1"
  have "1 < 1 / x" using False assms by (simp add: field_simps)
  then have m0: "0 < m" by (simp add: m_def less_ceiling_iff)
  have lo: "of_int m < 1 / x" and hi: "1 / x \<le> of_int m + 1"
    unfolding m_def by linarith+
  define n where "n = nat (bitlen m)"
  have n: "bitlen m = int n" using bitlen_nonneg [of m] by (simp add: n_def)
  have n0: "0 < n" using m0 n by (cases n) (auto simp: bitlen_eq_zero_iff)
  have "2 ^ (n - 1) \<le> m" "m < 2 ^ n"
    using bitlen_bounds [OF m0] n n0 by (simp_all add: nat_diff_distrib)
  then have "(of_int (2 ^ (n - 1)) :: rat) \<le> of_int m" "(of_int (m + 1) :: rat) \<le> of_int (2 ^ n)"
    by (simp_all only: of_int_le_iff)
  then have "(2 :: rat) ^ (n - 1) \<le> of_int m" "of_int m + 1 \<le> (2 :: rat) ^ n"
    by (simp_all only: of_int_power of_int_numeral of_int_add of_int_1)
  then have "(2 :: rat) ^ (n - 1) < 1 / x" "1 / x \<le> 2 ^ n" using lo hi by linarith+
  then have b: "1 / 2 ^ n \<le> x" "x < 1 / 2 ^ (n - 1)" using assms by (simp_all add: field_simps)
  have e: "expo x = - int n" using False n by (simp add: expo_def m_def [symmetric])
  have "(2 :: rat) powi expo x = 1 / 2 ^ n" by (simp add: e power_int_minus divide_inverse)
  moreover have "(2 :: rat) powi (expo x + 1) = 1 / 2 ^ (n - 1)"
    using n0 by (cases n) (simp_all add: e power_int_minus divide_inverse)
  ultimately show ?thesis using b by (simp only: conj_absorb)
qed

lemma rne_int [simp]: "rne (of_int k) = k"
  by (simp add: rne_def)

lemma rne_error: "\<bar>of_int (rne x) - x\<bar> \<le> 1 / 2"
proof -
  have "of_int \<lfloor>x\<rfloor> \<le> x" "x < of_int \<lfloor>x\<rfloor> + 1" by linarith+
  then show ?thesis by (auto simp: rne_def Let_def abs_le_iff)
qed

lemma rne_unique:
  assumes "\<bar>x - of_int k\<bar> < 1 / 2"
  shows "rne x = k"
proof -
  have "\<bar>of_int (rne x) - (of_int k :: rat)\<bar> < 1" using rne_error [of x] assms by linarith
  then have "(of_int \<bar>rne x - k\<bar> :: rat) < of_int 1" by simp
  then show ?thesis by (simp only: of_int_less_iff)
qed

lemma fl_error: "\<bar>fl x - x\<bar> \<le> \<bar>x\<bar> / 2 ^ 53"
proof (cases "x = 0")
  case False
  define u :: rat where "u = 2 powi (expo \<bar>x\<bar> - 52)"
  have u: "0 < u" by (simp add: u_def)
  have "fl x - x = (of_int (rne (x / u)) - x / u) * u"
    using False u by (simp add: fl_def u_def [symmetric] Let_def left_diff_distrib)
  then have "\<bar>fl x - x\<bar> = \<bar>of_int (rne (x / u)) - x / u\<bar> * u" using u by (simp add: abs_mult)
  also have "\<dots> \<le> 1 / 2 * u" using u by (intro mult_right_mono rne_error) auto
  also have "\<dots> = 2 powi expo \<bar>x\<bar> / 2 ^ 53" by (simp add: u_def power_int_diff)
  also have "\<dots> \<le> \<bar>x\<bar> / 2 ^ 53" using expo_bounds [of "\<bar>x\<bar>"] False by (simp add: field_simps)
  finally show ?thesis .
qed (simp add: fl_def)

lemma fl_exact:
  assumes k: "\<bar>k\<bar> \<le> 2 ^ 53"
  shows "fl (of_int k * 2 powi j) = of_int k * 2 powi j"
proof (cases "k = 0")
  case False
  define x :: rat where "x = of_int k * 2 powi j"
  define e where "e = expo \<bar>x\<bar>"
  define u :: rat where "u = 2 powi (e - 52)"
  have u: "0 < u" by (simp add: u_def)
  have x0: "x \<noteq> 0" using False by (simp add: x_def)
  then have e: "2 powi e \<le> \<bar>x\<bar>" using expo_bounds [of "\<bar>x\<bar>"] by (simp add: e_def)
  have "\<bar>x\<bar> = of_int \<bar>k\<bar> * 2 powi j" by (simp add: x_def abs_mult)
  moreover have "(of_int \<bar>k\<bar> :: rat) \<le> of_int (2 ^ 53)" using k by (simp only: of_int_le_iff)
  ultimately have ub: "\<bar>x\<bar> \<le> 2 powi (j + 53)" by (simp add: power_int_add)
  have ej: "e \<le> j + 53" 
    using e ub power_int_strict_increasing [of "j + 53" e "2 :: rat"] by linarith
  have "\<exists>m. x / u = of_int m"
  proof (cases "e - 52 \<le> j")
    case True
    then have "(2 :: rat) powi j / u = 2 ^ nat (j - (e - 52))"
      by (simp add: u_def power_int_nonneg_exp flip: power_int_diff)
    then have "x / u = of_int (k * 2 ^ nat (j - (e - 52)))" by (simp add: x_def flip: times_divide_eq_right)
    then show ?thesis ..
  next
    case False
    then have je: "e = j + 53" using ej by simp
    then have "\<bar>x\<bar> = 2 powi (j + 53)" using e ub by simp
    then have "\<bar>x\<bar> = 2 ^ 52 * u" by (simp add: u_def je power_int_add)
    then have "x / u = of_int (2 ^ 52) \<or> x / u = of_int (- (2 ^ 52))"
      using u by (auto simp: abs_if field_simps split: if_splits)
    then show ?thesis by blast
  qed
  then obtain m where "x / u = of_int m" ..
  then show ?thesis using x0 u
    by (simp add: fl_def Let_def x_def [symmetric] e_def [symmetric] u_def [symmetric]) (metis nonzero_divide_eq_eq less_irrefl)
qed (simp add: fl_def)

lemma fl_grid:
  assumes e: "2 powi e \<le> \<bar>x\<bar>"
  shows "\<exists>k. fl x = of_int k * 2 powi (e - 52)"
proof -
  define E where "E = expo \<bar>x\<bar>"
  have "0 < \<bar>x\<bar>" using e two_powi_pos [of e] by linarith
  then have b: "\<bar>x\<bar> < 2 powi (E + 1)" and x0: "x \<noteq> 0" using expo_bounds [of "\<bar>x\<bar>"] by (auto simp: E_def)
  have "e \<le> E" using e b power_int_increasing [of "E + 1" e "2 :: rat"] by linarith
  then have "(2 :: rat) powi (E - 52) = 2 ^ nat (E - e) * 2 powi (e - 52)"
    by (simp flip: power_int_nonneg_exp power_int_add)
  then have "fl x = of_int (rne (x / 2 powi (E - 52)) * 2 ^ nat (E - e)) * 2 powi (e - 52)"
    using x0 by (simp add: fl_def E_def [symmetric] Let_def)
  then show ?thesis ..
qed

text \<open>Evaluating the rounding of a concrete number, its binade being known.\<close>

lemma fl_binade:
  assumes "2 powi e \<le> \<bar>x\<bar>" "\<bar>x\<bar> < 2 powi (e + 1)"
  shows "fl x = of_int (rne (x / 2 powi (e - 52))) * 2 powi (e - 52)"
proof -
  have x0: "0 < \<bar>x\<bar>" using assms(1) two_powi_pos [of e] by linarith
  note b = expo_bounds [OF x0]
  have "\<not> expo \<bar>x\<bar> < e" using b assms power_int_increasing [of "expo \<bar>x\<bar> + 1" e "2 :: rat"] by linarith
  moreover have "\<not> e < expo \<bar>x\<bar>" using b assms power_int_increasing [of "e + 1" "expo \<bar>x\<bar>" "2 :: rat"] by linarith
  ultimately have "expo \<bar>x\<bar> = e" by simp
  then show ?thesis using x0 by (simp add: fl_def Let_def)
qed

interpretation fl: rounding fl
  by unfold_locales (fact fl_exact, fact fl_error, fact fl_grid)

end
