(* ===== verification/Date_Time.thy ===== *)
theory Date_Time
  imports Fp_Double "HOL-Library.Signed_Division"
begin

text \<open>
  Dates and times: the classes \<^verbatim>\<open>Timestamp\<close>, \<^verbatim>\<open>Timespan\<close>, \<^verbatim>\<open>DateTime\<close> and \<^verbatim>\<open>Stopwatch\<close> of
  \<^verbatim>\<open>src/base/include/scy/datetime.h\<close> and \<^verbatim>\<open>src/base/src/datetime.cpp\<close>.

  The integer types are \<open>int\<close> with their limits written out: a signed 64-bit operation whose exact
  result does not fit is \<open>Undefined\<close> (\<open>chk64\<close>), a conversion to \<^verbatim>\<open>int\<close> or \<^verbatim>\<open>short\<close> wraps
  (\<open>to_int32\<close>, \<open>to_short\<close>), and a conversion of a \<^verbatim>\<open>double\<close> to an integer type that cannot hold
  its integral part is \<open>Undefined\<close>. \<^verbatim>\<open>/\<close> and \<^verbatim>\<open>%\<close> truncate towards zero (\<open>sdiv\<close>, \<open>smod\<close>).
  A \<^verbatim>\<open>double\<close> is a rational number and each operation on doubles rounds with \<open>fl\<close>.
  The system clock is a parameter: an operation that reads it takes the reading as its argument.
\<close>

subsection \<open>Conversions\<close>

definition chk64 :: "int \<Rightarrow> int result" where
  "chk64 x = (if - (2 ^ 63) \<le> x \<and> x < 2 ^ 63 then Inr x else Inl Undefined)"

definition to_int32 :: "int \<Rightarrow> int" where
  "to_int32 x = (x + 2 ^ 31) mod 2 ^ 32 - 2 ^ 31"

definition to_short :: "int \<Rightarrow> int" where
  "to_short x = (x + 2 ^ 15) mod 2 ^ 16 - 2 ^ 15"

definition trunc_d :: "rat \<Rightarrow> int" where
  "trunc_d x = (if 0 \<le> x then \<lfloor>x\<rfloor> else \<lceil>x\<rceil>)"

definition int64_of_double :: "rat \<Rightarrow> int result" where
  "int64_of_double x = chk64 (trunc_d x)"

definition short_of_double :: "rat \<Rightarrow> int result" where
  "short_of_double x =
     (if - (2 ^ 15) \<le> trunc_d x \<and> trunc_d x < 2 ^ 15 then Inr (trunc_d x) else Inl Undefined)"

definition floor_d :: "rat \<Rightarrow> rat" where
  "floor_d x = of_int \<lfloor>x\<rfloor>"

subsection \<open>Timestamp\<close>

text \<open>Microseconds since the Unix epoch.\<close>

definition resolution :: int where
  "resolution = 1000000"

text \<open>The Unix epoch in units of 100 ns since the 15th of October 1582.\<close>

definition utc_epoch :: int where
  "utc_epoch = push_bit 32 0x01b21dd2 + 0x13814000"

definition ts_epochTime :: "int \<Rightarrow> int" where
  "ts_epochTime ts = ts sdiv resolution"

definition ts_utcTime :: "int \<Rightarrow> int result" where
  "ts_utcTime ts = bind_r (chk64 (ts * 10)) (\<lambda>t. chk64 (t + utc_epoch))"

definition fromEpochTime :: "int \<Rightarrow> int result" where
  "fromEpochTime t = chk64 (t * resolution)"

definition fromUtcTime :: "int \<Rightarrow> int result" where
  "fromUtcTime val = bind_r (chk64 (val - utc_epoch)) (\<lambda>v. Inr (v sdiv 10))"

definition ts_isElapsed :: "int \<Rightarrow> int \<Rightarrow> int \<Rightarrow> bool result" where
  "ts_isElapsed now ts interval = bind_r (chk64 (now - ts)) (\<lambda>diff. Inr (interval \<le> diff))"

definition ts_update :: "int \<Rightarrow> int \<Rightarrow> int result" where
  "ts_update sec usec = bind_r (chk64 (sec * resolution)) (\<lambda>t. chk64 (t + usec))"

subsection \<open>Timespan\<close>

definition MILLISECONDS :: int where "MILLISECONDS = 1000"
definition SECONDS :: int where "SECONDS = 1000 * MILLISECONDS"
definition MINUTES :: int where "MINUTES = 60 * SECONDS"
definition HOURS :: int where "HOURS = 60 * MINUTES"
definition DAYS :: int where "DAYS = 24 * HOURS"

lemmas span_units = MILLISECONDS_def SECONDS_def MINUTES_def HOURS_def DAYS_def

text \<open>
  The five parts are 32-bit integers: only the product with \<open>DAYS\<close> and the last sum can leave
  64 bits.
\<close>

definition span_of_parts :: "int \<Rightarrow> int \<Rightarrow> int \<Rightarrow> int \<Rightarrow> int \<Rightarrow> int result" where
  "span_of_parts days hours minutes seconds microseconds =
     bind_r (chk64 (days * DAYS)) (\<lambda>d.
       chk64 (microseconds + seconds * SECONDS + minutes * MINUTES + hours * HOURS + d))"

definition span_of_seconds :: "int \<Rightarrow> int \<Rightarrow> int result" where
  "span_of_seconds seconds microseconds =
     bind_r (chk64 (seconds * SECONDS)) (\<lambda>s. chk64 (s + microseconds))"

definition span_days :: "int \<Rightarrow> int" where
  "span_days sp = to_int32 (sp sdiv DAYS)"

definition span_hours :: "int \<Rightarrow> int" where
  "span_hours sp = to_int32 ((sp sdiv HOURS) smod 24)"

definition span_totalHours :: "int \<Rightarrow> int" where
  "span_totalHours sp = to_int32 (sp sdiv HOURS)"

definition span_minutes :: "int \<Rightarrow> int" where
  "span_minutes sp = to_int32 ((sp sdiv MINUTES) smod 60)"

definition span_totalMinutes :: "int \<Rightarrow> int" where
  "span_totalMinutes sp = to_int32 (sp sdiv MINUTES)"

definition span_seconds :: "int \<Rightarrow> int" where
  "span_seconds sp = to_int32 ((sp sdiv SECONDS) smod 60)"

definition span_totalSeconds :: "int \<Rightarrow> int" where
  "span_totalSeconds sp = to_int32 (sp sdiv SECONDS)"

definition span_milliseconds :: "int \<Rightarrow> int" where
  "span_milliseconds sp = to_int32 ((sp sdiv MILLISECONDS) smod 1000)"

definition span_totalMilliseconds :: "int \<Rightarrow> int" where
  "span_totalMilliseconds sp = sp sdiv MILLISECONDS"

definition span_microseconds :: "int \<Rightarrow> int" where
  "span_microseconds sp = to_int32 (sp smod 1000)"

definition span_useconds :: "int \<Rightarrow> int" where
  "span_useconds sp = to_int32 (sp smod 1000000)"

definition span_plus :: "int \<Rightarrow> int \<Rightarrow> int result" where
  "span_plus s d = chk64 (s + d)"

definition span_minus :: "int \<Rightarrow> int \<Rightarrow> int result" where
  "span_minus s d = chk64 (s - d)"

subsection \<open>Stopwatch\<close>

record stopwatch =
  sw_start :: int
  sw_elapsed :: int
  sw_running :: bool

definition new_stopwatch :: "int \<Rightarrow> stopwatch" where
  "new_stopwatch now = \<lparr>sw_start = now, sw_elapsed = 0, sw_running = False\<rparr>"

definition stopwatch_start :: "int \<Rightarrow> stopwatch \<Rightarrow> stopwatch" where
  "stopwatch_start now w =
     (if \<not> sw_running w then w\<lparr>sw_start := now, sw_running := True\<rparr> else w)"

definition stopwatch_stop :: "int \<Rightarrow> stopwatch \<Rightarrow> stopwatch result" where
  "stopwatch_stop now w =
     (if sw_running w then
        bind_r (chk64 (now - sw_start w)) (\<lambda>d.
        bind_r (chk64 (sw_elapsed w + d)) (\<lambda>e.
          Inr (w\<lparr>sw_elapsed := e, sw_running := False\<rparr>)))
      else Inr w)"

definition stopwatch_elapsed :: "int \<Rightarrow> stopwatch \<Rightarrow> int result" where
  "stopwatch_elapsed now w =
     (if sw_running w then bind_r (chk64 (now - sw_start w)) (\<lambda>d. chk64 (sw_elapsed w + d))
      else Inr (sw_elapsed w))"

definition elapsedSeconds :: "int \<Rightarrow> stopwatch \<Rightarrow> int result" where
  "elapsedSeconds now w =
     bind_r (stopwatch_elapsed now w) (\<lambda>e. Inr (to_int32 (e sdiv resolution)))"

definition elapsedMilliseconds :: "int \<Rightarrow> stopwatch \<Rightarrow> int result" where
  "elapsedMilliseconds now w =
     bind_r (stopwatch_elapsed now w) (\<lambda>e. Inr (to_int32 (e sdiv (resolution sdiv 1000))))"

definition stopwatch_reset :: "stopwatch \<Rightarrow> stopwatch" where
  "stopwatch_reset w = w\<lparr>sw_elapsed := 0, sw_running := False\<rparr>"

definition stopwatch_restart :: "int \<Rightarrow> stopwatch \<Rightarrow> stopwatch" where
  "stopwatch_restart now w = w\<lparr>sw_elapsed := 0, sw_start := now, sw_running := True\<rparr>"

subsection \<open>The calendar\<close>

definition isLeapYear :: "int \<Rightarrow> bool" where
  "isLeapYear year \<longleftrightarrow> year smod 4 = 0 \<and> (year smod 100 \<noteq> 0 \<or> year smod 400 = 0)"

definition daysOfMonthTable :: "int list" where
  "daysOfMonthTable = [0, 31, 28, 31, 30, 31, 30, 31, 31, 30, 31, 30, 31]"

definition daysOfMonth :: "int \<Rightarrow> int \<Rightarrow> int result" where
  "daysOfMonth year month =
     assert_r (1 \<le> month \<and> month \<le> 12)
       (Inr (if month = 2 \<and> isLeapYear year then 29 else daysOfMonthTable ! nat month))"

definition isValid :: "int \<Rightarrow> int \<Rightarrow> int \<Rightarrow> int \<Rightarrow> int \<Rightarrow> int \<Rightarrow> int \<Rightarrow> int \<Rightarrow> bool" where
  "isValid year month day hour minute second millisecond microsecond \<longleftrightarrow>
     (0 \<le> year \<and> year \<le> 9999) \<and> (1 \<le> month \<and> month \<le> 12) \<and>
     (1 \<le> day \<and> (case daysOfMonth year month of Inr n \<Rightarrow> day \<le> n | Inl _ \<Rightarrow> False)) \<and>
     (0 \<le> hour \<and> hour \<le> 23) \<and> (0 \<le> minute \<and> minute \<le> 59) \<and> (0 \<le> second \<and> second \<le> 59) \<and>
     (0 \<le> millisecond \<and> millisecond \<le> 999) \<and> (0 \<le> microsecond \<and> microsecond \<le> 999)"

subsection \<open>Julian days\<close>

definition toJulianDay_utc :: "int \<Rightarrow> rat" where
  "toJulianDay_utc utc = fl (fl (fl (of_int utc) / 864000000000) + 4598321 / 2)"

definition toUtcTime :: "rat \<Rightarrow> int result" where
  "toUtcTime julianDay = int64_of_double (fl (fl (julianDay - 4598321 / 2) * 864000000000))"

definition julian_lookup :: "int list" where
  "julian_lookup = [-91, -60, -30, 0, 31, 61, 92, 122, 153, 184, 214, 245, 275, 306, 337]"

definition toJulianDay :: "int \<Rightarrow> int \<Rightarrow> int \<Rightarrow> int \<Rightarrow> int \<Rightarrow> int \<Rightarrow> int \<Rightarrow> int \<Rightarrow> rat result" where
  "toJulianDay year month day hour minute second millisecond microsecond =
     (let dday = fl (of_int day +
                  fl (fl (fl (fl (fl (of_int ((hour * 60 + minute) * 60 + second) * 1000)
                                  + of_int millisecond) * 1000) + of_int microsecond) / 86400000000));
          m = (if month < 3 then month + 12 else month);
          y = (if month < 3 then year - 1 else year);
          dyear = of_int y
      in if m < 0 \<or> 14 < m then Inl Undefined
         else Inr (fl (fl (fl (fl (fl (fl (dday + of_int (julian_lookup ! nat m)) + of_int (365 * y))
                   + floor_d (fl (dyear / 4))) - floor_d (fl (dyear / 100)))
                   + floor_d (fl (dyear / 400))) + 3442237 / 2)))"

subsection \<open>DateTime\<close>

record date_time =
  dt_utcTime :: int
  dt_year :: int
  dt_month :: int
  dt_day :: int
  dt_hour :: int
  dt_minute :: int
  dt_second :: int
  dt_millisecond :: int
  dt_microsecond :: int

definition checkLimit :: "int \<Rightarrow> int \<Rightarrow> int \<Rightarrow> int \<times> int" where
  "checkLimit lower higher limit =
     (if limit \<le> lower
      then (to_short (lower smod limit), to_short (higher + to_short (lower sdiv limit)))
      else (lower, higher))"

text \<open>\<^verbatim>\<open>normalize\<close>: the carries from the microseconds up to the day, then the day against the month.\<close>

definition normalize_time :: "date_time \<Rightarrow> date_time" where
  "normalize_time d =
     (let (us, ms) = checkLimit (dt_microsecond d) (dt_millisecond d) 1000;
          (ms', s) = checkLimit ms (dt_second d) 1000;
          (s', mi) = checkLimit s (dt_minute d) 60;
          (mi', h) = checkLimit mi (dt_hour d) 60;
          (h', dy) = checkLimit h (dt_day d) 24
      in d\<lparr>dt_microsecond := us, dt_millisecond := ms', dt_second := s', dt_minute := mi',
           dt_hour := h', dt_day := dy\<rparr>)"

definition normalize_day :: "date_time \<Rightarrow> date_time result" where
  "normalize_day d =
     bind_r (daysOfMonth (dt_year d) (dt_month d)) (\<lambda>n.
       Inr (if n < dt_day d
            then (let m = to_short (dt_month d + 1); d' = d\<lparr>dt_day := to_short (dt_day d - n), dt_month := m\<rparr>
                  in if 12 < m then d'\<lparr>dt_year := to_short (dt_year d + 1), dt_month := to_short (m - 12)\<rparr>
                     else d')
            else d))"

definition normalize :: "date_time \<Rightarrow> date_time result" where
  "normalize d = normalize_day (normalize_time d)"

text \<open>
  \<^verbatim>\<open>computeGregorian\<close>: the date of a Julian day, then the time of day from the fraction, each part
  the integral part of what the previous one left, scaled.
\<close>

definition gregorian_date :: "rat \<Rightarrow> rat \<Rightarrow> date_time \<Rightarrow> date_time result" where
  "gregorian_date z r d =
     (let g = fl (z - 1 / 4);
          a = floor_d (fl (g / (146097 / 4)));
          b = fl (a - floor_d (fl (a / 4)))
      in bind_r (short_of_double (floor_d (fl (fl (b + g) / (1461 / 4))))) (\<lambda>year.
         let c = fl (fl (b + z) - floor_d (fl (1461 / 4 * of_int year)))
         in bind_r (short_of_double (floor_d (fl (fl (fl (5 * c) + 456) / 153)))) (\<lambda>month.
            let dday = fl (fl (c - floor_d (fl (fl (fl (153 * of_int month) - 457) / 5))) + r)
            in bind_r (short_of_double dday) (\<lambda>day.
               Inr (if 12 < month
                    then d\<lparr>dt_year := to_short (year + 1), dt_month := to_short (month - 12), dt_day := day\<rparr>
                    else d\<lparr>dt_year := year, dt_month := month, dt_day := day\<rparr>)))))"

text \<open>\<^verbatim>\<open>r *= k; part = short(std::floor(r)); r -= std::floor(r)\<close>\<close>

definition take_part :: "rat \<Rightarrow> rat \<Rightarrow> (int \<times> rat) result" where
  "take_part k r =
     (let x = fl (r * k)
      in bind_r (short_of_double (floor_d x)) (\<lambda>p. Inr (p, fl (x - floor_d x))))"

definition gregorian_time :: "rat \<Rightarrow> date_time \<Rightarrow> date_time result" where
  "gregorian_time r d =
     bind_r (take_part 24 r) (\<lambda>(h, r1).
     bind_r (take_part 60 r1) (\<lambda>(mi, r2).
     bind_r (take_part 60 r2) (\<lambda>(s, r3).
     bind_r (take_part 1000 r3) (\<lambda>(ms, r4).
     bind_r (short_of_double (fl (fl (r4 * 1000) + 1 / 2))) (\<lambda>us.
       Inr (d\<lparr>dt_hour := h, dt_minute := mi, dt_second := s, dt_millisecond := ms,
              dt_microsecond := us\<rparr>))))))"

text \<open>The assertions at the end of \<^verbatim>\<open>computeGregorian\<close>: all of \<^verbatim>\<open>isValid\<close> but the limits of the year.\<close>

definition fields_ok :: "date_time \<Rightarrow> bool" where
  "fields_ok d \<longleftrightarrow>
     (1 \<le> dt_month d \<and> dt_month d \<le> 12) \<and>
     (1 \<le> dt_day d \<and> (case daysOfMonth (dt_year d) (dt_month d) of Inr n \<Rightarrow> dt_day d \<le> n | Inl _ \<Rightarrow> False)) \<and>
     (0 \<le> dt_hour d \<and> dt_hour d \<le> 23) \<and> (0 \<le> dt_minute d \<and> dt_minute d \<le> 59) \<and>
     (0 \<le> dt_second d \<and> dt_second d \<le> 59) \<and>
     (0 \<le> dt_millisecond d \<and> dt_millisecond d \<le> 999) \<and>
     (0 \<le> dt_microsecond d \<and> dt_microsecond d \<le> 999)"

definition computeGregorian :: "rat \<Rightarrow> date_time \<Rightarrow> date_time result" where
  "computeGregorian julianDay d =
     (let x = fl (julianDay - 3442237 / 2);
          z = floor_d x;
          r = fl (x - z)
      in bind_r (gregorian_date z r d) (\<lambda>d1.
         bind_r (gregorian_time r d1) (\<lambda>d2.
         bind_r (normalize d2) (\<lambda>d3. assert_r (fields_ok d3) (Inr d3)))))"

text \<open>
  \<^verbatim>\<open>computeDaytime\<close>: the time of day again, from the integer time; when the rounding of the
  Julian day has crossed midnight, the date is corrected first.
\<close>

definition previous_day :: "date_time \<Rightarrow> date_time result" where
  "previous_day d =
     (let d1 = d\<lparr>dt_day := to_short (dt_day d - 1)\<rparr>
      in if dt_day d1 = 0
         then (let m = to_short (dt_month d - 1);
                   d2 = (if m = 0 then d1\<lparr>dt_month := 12, dt_year := to_short (dt_year d - 1)\<rparr>
                         else d1\<lparr>dt_month := m\<rparr>)
               in bind_r (daysOfMonth (dt_year d2) (dt_month d2)) (\<lambda>n. Inr (d2\<lparr>dt_day := n\<rparr>)))
         else Inr d1)"

definition next_day :: "date_time \<Rightarrow> date_time result" where
  "next_day d =
     (let d1 = d\<lparr>dt_day := to_short (dt_day d + 1)\<rparr>
      in bind_r (daysOfMonth (dt_year d) (dt_month d)) (\<lambda>n.
         Inr (if n < dt_day d1
              then (let m = to_short (dt_month d + 1);
                        d2 = (if 12 < m then d1\<lparr>dt_month := 1, dt_year := to_short (dt_year d + 1)\<rparr>
                              else d1\<lparr>dt_month := m\<rparr>)
                    in d2\<lparr>dt_day := 1\<rparr>)
              else d1)))"

definition computeDaytime :: "date_time \<Rightarrow> date_time result" where
  "computeDaytime d =
     (let sp = dt_utcTime d sdiv 10;
          hour = span_hours sp
      in bind_r (if hour = 23 \<and> dt_hour d = 0 then previous_day d
                 else if hour = 0 \<and> dt_hour d = 23 then next_day d
                 else Inr d) (\<lambda>d'.
         Inr (d'\<lparr>dt_hour := to_short hour, dt_minute := to_short (span_minutes sp),
                 dt_second := to_short (span_seconds sp),
                 dt_millisecond := to_short (span_milliseconds sp),
                 dt_microsecond := to_short (span_microseconds sp)\<rparr>)))"

text \<open>
  Construction. \<open>uninitialised\<close> stands for a \<^verbatim>\<open>DateTime\<close> whose constructor has set only
  \<^verbatim>\<open>_utcTime\<close>: \<open>computeGregorian\<close> assigns every other field before one is read.
\<close>

definition uninitialised :: "int \<Rightarrow> date_time" where
  "uninitialised utc = \<lparr>dt_utcTime = utc, dt_year = 0, dt_month = 0, dt_day = 0, dt_hour = 0,
     dt_minute = 0, dt_second = 0, dt_millisecond = 0, dt_microsecond = 0\<rparr>"

definition julianDay :: "date_time \<Rightarrow> rat" where
  "julianDay d = toJulianDay_utc (dt_utcTime d)"

definition recompute :: "date_time \<Rightarrow> date_time result" where
  "recompute d = bind_r (computeGregorian (julianDay d) d) computeDaytime"

definition dt_of_timestamp :: "int \<Rightarrow> date_time result" where
  "dt_of_timestamp ts = bind_r (ts_utcTime ts) (\<lambda>utc. recompute (uninitialised utc))"

definition dt_of_utc :: "int \<Rightarrow> int \<Rightarrow> date_time result" where
  "dt_of_utc utc diff =
     bind_r (chk64 (diff * 10)) (\<lambda>x. bind_r (chk64 (utc + x)) (\<lambda>t. recompute (uninitialised t)))"

definition dt_of_julian :: "rat \<Rightarrow> date_time result" where
  "dt_of_julian j = bind_r (toUtcTime j) (\<lambda>utc. computeGregorian j (uninitialised utc))"

definition dt_make :: "int \<Rightarrow> int \<Rightarrow> int \<Rightarrow> int \<Rightarrow> int \<Rightarrow> int \<Rightarrow> int \<Rightarrow> int \<Rightarrow> date_time result" where
  "dt_make year month day hour minute second millisecond microsecond =
     assert_r (isValid year month day hour minute second millisecond microsecond)
       (bind_r (toJulianDay year month day 0 0 0 0 0) (\<lambda>j.
        bind_r (toUtcTime j) (\<lambda>t.
        bind_r (chk64 (t + 10 * (hour * HOURS + minute * MINUTES + second * SECONDS +
                                 millisecond * MILLISECONDS + microsecond))) (\<lambda>utc.
          Inr \<lparr>dt_utcTime = utc, dt_year = to_short year, dt_month = to_short month,
               dt_day = to_short day, dt_hour = to_short hour, dt_minute = to_short minute,
               dt_second = to_short second, dt_millisecond = to_short millisecond,
               dt_microsecond = to_short microsecond\<rparr>))))"

definition dt_assign :: "date_time \<Rightarrow> int \<Rightarrow> int \<Rightarrow> int \<Rightarrow> int \<Rightarrow> int \<Rightarrow> int \<Rightarrow> int \<Rightarrow> int \<Rightarrow> date_time result" where
  "dt_assign d year month day hour minute second millisecond microsecond =
     assert_r (isValid year month day hour minute second millisecond microsecond)
       (bind_r (toJulianDay year month day 0 0 0 0 0) (\<lambda>j.
        bind_r (toUtcTime j) (\<lambda>t.
        bind_r (chk64 (t + 10 * (hour * HOURS + minute * MINUTES + second * SECONDS +
                                 millisecond * MILLISECONDS + microsecond))) (\<lambda>utc.
          Inr (d\<lparr>dt_utcTime := utc, dt_year := to_short year, dt_month := to_short month,
                 dt_day := to_short day, dt_hour := to_short hour, dt_minute := to_short minute,
                 dt_second := to_short second, dt_millisecond := to_short millisecond,
                 dt_microsecond := to_short microsecond\<rparr>)))))"

definition dt_assign_timestamp :: "date_time \<Rightarrow> int \<Rightarrow> date_time result" where
  "dt_assign_timestamp d ts = bind_r (ts_utcTime ts) (\<lambda>utc. recompute (d\<lparr>dt_utcTime := utc\<rparr>))"

definition dt_assign_julian :: "date_time \<Rightarrow> rat \<Rightarrow> date_time result" where
  "dt_assign_julian d j = bind_r (toUtcTime j) (\<lambda>utc. computeGregorian j (d\<lparr>dt_utcTime := utc\<rparr>))"

text \<open>Queries.\<close>

definition dt_timestamp :: "date_time \<Rightarrow> int result" where
  "dt_timestamp d = fromUtcTime (dt_utcTime d)"

definition hourAMPM :: "date_time \<Rightarrow> int" where
  "hourAMPM d = (if dt_hour d < 1 then 12 else if 12 < dt_hour d then dt_hour d - 12 else dt_hour d)"

definition isAM :: "date_time \<Rightarrow> bool" where
  "isAM d \<longleftrightarrow> dt_hour d < 12"

definition isPM :: "date_time \<Rightarrow> bool" where
  "isPM d \<longleftrightarrow> 12 \<le> dt_hour d"

definition dayOfWeek :: "date_time \<Rightarrow> int" where
  "dayOfWeek d = \<lfloor>fl (julianDay d + 3 / 2)\<rfloor> smod 7"

function doy_loop :: "int \<Rightarrow> int \<Rightarrow> int \<Rightarrow> int \<Rightarrow> int result" where
  "doy_loop year limit month doy =
     (if month < limit
      then bind_r (daysOfMonth year month) (\<lambda>n. doy_loop year limit (month + 1) (doy + n))
      else Inr doy)"
  by pat_completeness auto
termination by (relation "measure (\<lambda>(_, limit, month, _). nat (limit - month))") auto

declare doy_loop.simps [simp del]

definition dayOfYear :: "date_time \<Rightarrow> int result" where
  "dayOfYear d = bind_r (doy_loop (dt_year d) (dt_month d) 1 0) (\<lambda>doy. Inr (doy + dt_day d))"

text \<open>The loop of \<^verbatim>\<open>week\<close> ends at the latest when the assertion of the constructor fails.\<close>

lemma isValid_day: "isValid y m d h mi s ms us \<Longrightarrow> d \<le> 31"
  by (auto simp: isValid_def daysOfMonth_def daysOfMonthTable_def nth_Cons' split: sum.splits if_splits)

function week_loop :: "int \<Rightarrow> int \<Rightarrow> int \<Rightarrow> int result" where
  "week_loop year firstDayOfWeek baseDay =
     bind_r (dt_make year 1 baseDay 0 0 0 0 0) (\<lambda>d.
       if dayOfWeek d \<noteq> firstDayOfWeek then week_loop year firstDayOfWeek (baseDay + 1)
       else Inr baseDay)"
  by pat_completeness auto
termination
  by (relation "measure (\<lambda>(_, _, baseDay). nat (32 - baseDay))")
     (auto simp: dt_make_def result_convs dest: isValid_day)

declare week_loop.simps [simp del]

definition week :: "date_time \<Rightarrow> int \<Rightarrow> int result" where
  "week d firstDayOfWeek =
     assert_r (0 \<le> firstDayOfWeek \<and> firstDayOfWeek \<le> 6)
       (bind_r (week_loop (dt_year d) firstDayOfWeek 1) (\<lambda>baseDay.
        bind_r (dayOfYear d) (\<lambda>doy.
          let offs = (if baseDay \<le> 4 then 0 else 1)
          in Inr (if doy < baseDay then offs else (doy - baseDay) sdiv 7 + 1 + offs))))"

text \<open>Arithmetic.\<close>

definition dt_plus :: "date_time \<Rightarrow> int \<Rightarrow> date_time result" where
  "dt_plus d sp = dt_of_utc (dt_utcTime d) sp"

definition dt_minus :: "date_time \<Rightarrow> int \<Rightarrow> date_time result" where
  "dt_minus d sp = bind_r (chk64 (- sp)) (\<lambda>n. dt_of_utc (dt_utcTime d) n)"

definition dt_difference :: "date_time \<Rightarrow> date_time \<Rightarrow> int result" where
  "dt_difference d e = bind_r (chk64 (dt_utcTime d - dt_utcTime e)) (\<lambda>x. Inr (x sdiv 10))"

definition dt_plus_assign :: "date_time \<Rightarrow> int \<Rightarrow> date_time result" where
  "dt_plus_assign d sp =
     bind_r (chk64 (sp * 10)) (\<lambda>x.
     bind_r (chk64 (dt_utcTime d + x)) (\<lambda>t. recompute (d\<lparr>dt_utcTime := t\<rparr>)))"

definition dt_minus_assign :: "date_time \<Rightarrow> int \<Rightarrow> date_time result" where
  "dt_minus_assign d sp =
     bind_r (chk64 (sp * 10)) (\<lambda>x.
     bind_r (chk64 (dt_utcTime d - x)) (\<lambda>t. recompute (d\<lparr>dt_utcTime := t\<rparr>)))"

definition makeUTC :: "date_time \<Rightarrow> int \<Rightarrow> date_time result" where
  "makeUTC d tzd = dt_minus_assign d (tzd * SECONDS)"

definition makeLocal :: "date_time \<Rightarrow> int \<Rightarrow> date_time result" where
  "makeLocal d tzd = dt_plus_assign d (tzd * SECONDS)"

end
