(* ===== verification/Date_Calendar.thy ===== *)
theory Date_Calendar
  imports Date_Time
begin

text \<open>
  The calendar arithmetic behind \<^verbatim>\<open>DateTime::computeGregorian\<close> and \<^verbatim>\<open>DateTime::toJulianDay\<close>: a
  reference calendar (month lengths, leap days, day numbers counted from the first of January of
  the year 1), the conversion of the code carried out in integers, and the proof that it computes
  the one valid date with the given day number.
\<close>

subsection \<open>The Gregorian calendar\<close>

text \<open>
  The reference: the length of a month, the leap days up to the end of a year, and the number of
  a day counted from the first of January of the year 1.
\<close>

definition month_days :: "int \<Rightarrow> int \<Rightarrow> int" where
  "month_days y m =
     (if m = 2 then (if isLeapYear y then 29 else 28) else if m \<in> {4, 6, 9, 11} then 30 else 31)"

definition valid_date :: "int \<Rightarrow> int \<Rightarrow> int \<Rightarrow> bool" where
  "valid_date y m d \<longleftrightarrow> 1 \<le> m \<and> m \<le> 12 \<and> 1 \<le> d \<and> d \<le> month_days y m"

definition leap_days :: "int \<Rightarrow> int" where
  "leap_days y = y div 4 - y div 100 + y div 400"

definition civil_day :: "int \<Rightarrow> int \<Rightarrow> int \<Rightarrow> int" where
  "civil_day y m d =
     365 * (y - 1) + leap_days (y - 1) + (\<Sum>i \<leftarrow> [1..m - 1]. month_days y i) + d"

lemma div_bounds:
  assumes "0 < (k :: int)"
  shows "k * (x div k) \<le> x" "x < k * (x div k) + k"
  using assms by (simp_all add: minus_mod_eq_mult_div [symmetric])

lemma div_unique_bounds:
  assumes "k * q \<le> (x :: int)" "x < k * q + k"
  shows "x div k = q"
  using assms by (intro int_div_pos_eq [of _ _ _ "x - k * q"]) simp_all

lemma smod_eq_0: "x smod k = 0 \<longleftrightarrow> x mod k = (0 :: int)"
  by (auto simp: signed_modulo_int_def sgn_if simp flip: dvd_eq_mod_eq_0)

lemma isLeapYear_iff: "isLeapYear y \<longleftrightarrow> y mod 4 = 0 \<and> (y mod 100 \<noteq> 0 \<or> y mod 400 = 0)"
  by (simp add: isLeapYear_def smod_eq_0)

lemma div_pred:
  assumes "0 < (k :: int)"
  shows "y div k = (y - 1) div k + (if y mod k = 0 then 1 else 0)"
proof -
  define q r where "q = y div k" and "r = y mod k"
  have y: "y = k * q + r" by (simp add: q_def r_def)
  have m: "0 \<le> r" "r < k" using assms by (simp_all add: r_def)
  have "(y - 1) div k = (if r = 0 then q - 1 else q)"
    by (rule div_unique_bounds) (use y m assms in \<open>auto simp: right_diff_distrib\<close>)
  then show ?thesis by (simp add: q_def r_def)
qed

lemma leap_sum:
  "A = A' + (if p then 1 else 0) \<Longrightarrow> B = B' + (if q then 1 else 0) \<Longrightarrow> C = C' + (if r then 1 else 0) \<Longrightarrow>
   (q \<Longrightarrow> p) \<Longrightarrow> (r \<Longrightarrow> q) \<Longrightarrow>
   A - B + C = A' - B' + C' + (if p \<and> (\<not> q \<or> r) then 1 else (0 :: int))"
  by (cases p; cases q; cases r) simp_all

lemma leap_days_step: "leap_days y = leap_days (y - 1) + (if isLeapYear y then 1 else 0)"
proof -
  have i: "y mod 100 = 0 \<Longrightarrow> y mod 4 = 0" "y mod 400 = 0 \<Longrightarrow> y mod 100 = 0"
    unfolding dvd_eq_mod_eq_0 [symmetric] by (rule dvd_trans [rotated], assumption, simp)+
  note d = div_pred [OF zero_less_numeral, of y]
  show ?thesis unfolding leap_days_def isLeapYear_iff by (rule leap_sum [OF d d d i])
qed

text \<open>The same number with the year starting in March, as the code computes it.\<close>

definition march_day :: "int \<Rightarrow> int \<Rightarrow> int \<Rightarrow> int" where
  "march_day Y M d = d + (153 * M - 457) div 5 + 365 * Y + leap_days Y"

lemma month_cases:
  assumes "1 \<le> (m :: int)" "m \<le> 12"
  shows "m = 1 \<or> m = 2 \<or> m = 3 \<or> m = 4 \<or> m = 5 \<or> m = 6 \<or> m = 7 \<or> m = 8 \<or> m = 9 \<or> m = 10 \<or> m = 11 \<or> m = 12"
  using assms by presburger

lemma march_day_civil:
  assumes "1 \<le> m" "m \<le> 12"
  shows "march_day (if m < 3 then y - 1 else y) (if m < 3 then m + 12 else m) d = civil_day y m d + 306"
  using month_cases [OF assms] leap_days_step [of y]
  by (elim disjE) (simp_all add: march_day_def civil_day_def month_days_def upto.simps)

subsection \<open>The conversion of \<open>computeGregorian\<close>, in integers\<close>

definition greg_century :: "int \<Rightarrow> int" where
  "greg_century z = (4 * z - 1) div 146097"

definition greg_days :: "int \<Rightarrow> int" where
  "greg_days z = greg_century z - greg_century z div 4 + z"

definition greg_year :: "int \<Rightarrow> int" where
  "greg_year z = (4 * greg_days z - 1) div 1461"

definition greg_rest :: "int \<Rightarrow> int" where
  "greg_rest z = greg_days z - 1461 * greg_year z div 4"

definition greg_month :: "int \<Rightarrow> int" where
  "greg_month z = (5 * greg_rest z + 456) div 153"

definition greg_day :: "int \<Rightarrow> int" where
  "greg_day z = greg_rest z - (153 * greg_month z - 457) div 5"

lemma greg_century_bounds:
  "146097 * greg_century z \<le> 4 * z - 1" "4 * z - 1 < 146097 * greg_century z + 146097"
  using div_bounds [of 146097 "4 * z - 1"] by (simp_all add: greg_century_def)

lemma greg_year_bounds:
  "1461 * greg_year z \<le> 4 * greg_days z - 1" "4 * greg_days z - 1 < 1461 * greg_year z + 1461"
  using div_bounds [of 1461 "4 * greg_days z - 1"] by (simp_all add: greg_year_def)

lemma greg_century_of_year: "greg_year z div 100 = greg_century z"
proof -
  define a where "a = greg_century z"
  define q where "q = a div 4"
  have q: "4 * q \<le> a" "a < 4 * q + 4" using div_bounds [of 4 a] by (simp_all add: q_def)
  have w: "greg_days z = a - q + z" by (simp add: greg_days_def a_def q_def)
  have "146100 * a \<le> 4 * greg_days z - 1" "4 * greg_days z - 1 < 146100 * a + 146100"
    using greg_century_bounds [of z] q w by (simp_all add: a_def [symmetric])
  then have "100 * a \<le> greg_year z" "greg_year z < 100 * a + 100"
    using greg_year_bounds [of z] by linarith+
  then show ?thesis unfolding a_def by (rule div_unique_bounds)
qed

lemma greg_rest_bounds: "1 \<le> greg_rest z" "greg_rest z \<le> 366"
  and greg_rest_leap: "greg_rest z = 366 \<Longrightarrow> isLeapYear (greg_year z + 1)"
proof -
  define Y a p where "Y = greg_year z" and "a = greg_century z" and "p = 1461 * Y div 4"
  have p: "4 * p \<le> 1461 * Y" "1461 * Y < 4 * p + 4"
    using div_bounds [of 4 "1461 * Y"] by (simp_all add: p_def)
  have c: "greg_rest z = greg_days z - p" by (simp add: greg_rest_def Y_def p_def)
  note Y = greg_year_bounds [of z, folded Y_def]
  show "1 \<le> greg_rest z" "greg_rest z \<le> 366" using Y c p by linarith+
  assume l: "greg_rest z = 366"
  then have e: "1461 * Y = 4 * p + 3" "greg_days z = p + 366" using Y c p by linarith+
  then have "Y + 1 = 4 * (p - 365 * Y + 1)" by (simp add: algebra_simps)
  then have y4: "(Y + 1) mod 4 = 0" by (metis mod_mult_self1_is_0)
  have "(Y + 1) mod 400 = 0" if "(Y + 1) mod 100 = 0"
  proof -
    have "Y div 100 = a" using greg_century_of_year [of z] by (simp add: Y_def a_def)
    then have "100 * a \<le> Y" "Y < 100 * a + 100" using div_bounds [of 100 Y] by simp_all
    moreover obtain k where k: "Y + 1 = 100 * k" using \<open>(Y + 1) mod 100 = 0\<close> by auto
    ultimately have "k = a + 1" by linarith
    then have ya: "Y = 100 * a + 99" using k by simp
    define q where "q = a div 4"
    have q: "4 * q \<le> a" "a < 4 * q + 4" using div_bounds [of 4 a] by (simp_all add: q_def)
    have "z = 36524 * a + q + 36525" using e ya by (simp add: greg_days_def a_def [symmetric] q_def)
    then have "4 * q + 2 < a" using greg_century_bounds(2) [of z, folded a_def] by linarith
    then have "a = 4 * q + 3" using q by linarith
    then have "Y + 1 = 400 * (q + 1)" using ya by simp
    then show ?thesis by (metis mod_mult_self1_is_0)
  qed
  then show "isLeapYear (greg_year z + 1)" using y4 by (auto simp: isLeapYear_iff Y_def)
qed

lemma greg_march_day: "march_day (greg_year z) (greg_month z) (greg_day z) = z"
proof -
  have "1461 * greg_year z div 4 = 365 * greg_year z + greg_year z div 4"
    using div_mult_self1 [of 4 "greg_year z" "365 * greg_year z"] by simp
  moreover have "greg_year z div 400 = greg_century z div 4"
    using zdiv_zmult2_eq [of 4 "greg_year z" 100] by (simp add: greg_century_of_year)
  ultimately show ?thesis
    by (simp add: march_day_def leap_days_def greg_day_def greg_rest_def greg_days_def greg_century_of_year)
qed

text \<open>The months of a year that starts in March, day by day.\<close>

definition month_ok :: "int \<Rightarrow> bool" where
  "month_ok c \<longleftrightarrow>
     (let m = (5 * c + 456) div 153; d = c - (153 * m - 457) div 5
      in 3 \<le> m \<and> m \<le> 14 \<and> 1 \<le> d \<and>
         d \<le> (if m = 14 then (if c = 366 then 29 else 28) else if m \<in> {4, 6, 9, 11} then 30 else 31))"

lemma month_table: "1 \<le> c \<Longrightarrow> c \<le> 366 \<Longrightarrow> month_ok c"
proof -
  have "list_all month_ok [1..366]" by code_simp
  then show "1 \<le> c \<Longrightarrow> c \<le> 366 \<Longrightarrow> month_ok c" by (simp add: list_all_iff)
qed

text \<open>The date of a day number, with the year starting in January.\<close>

definition greg_date :: "int \<Rightarrow> int \<times> int \<times> int" where
  "greg_date z =
     (if 12 < greg_month z then (greg_year z + 1, greg_month z - 12, greg_day z)
      else (greg_year z, greg_month z, greg_day z))"

lemma greg_month_bounds: "3 \<le> greg_month z" "greg_month z \<le> 14"
  using month_table [OF greg_rest_bounds, of z] by (simp_all add: month_ok_def greg_month_def Let_def)

lemma greg_date_valid: "greg_date z = (y, m, d) \<Longrightarrow> valid_date y m d"
  using month_table [OF greg_rest_bounds, of z] greg_rest_leap [of z]
  by (auto simp: month_ok_def greg_date_def valid_date_def month_days_def greg_day_def Let_def
      simp flip: greg_month_def split: if_splits)

lemma greg_day_range: "1 \<le> greg_day z" "greg_day z \<le> 31"
  using month_table [OF greg_rest_bounds, of z]
  by (auto simp: month_ok_def greg_day_def Let_def simp flip: greg_month_def split: if_splits)

lemma greg_date_civil: "greg_date z = (y, m, d) \<Longrightarrow> civil_day y m d + 306 = z"
  using march_day_civil [of m y d] greg_month_bounds [of z] greg_march_day [of z]
  by (auto simp: greg_date_def split: if_splits)

lemma greg_of_march:
  assumes c: "1 \<le> c" "c \<le> 366" and l: "c = 366 \<Longrightarrow> isLeapYear (Y + 1)"
    and z: "z = c + 365 * Y + leap_days Y"
  shows "greg_year z = Y" "greg_rest z = c"
proof -
  define a q s where "a = Y div 100" and "q = a div 4" and "s = Y div 4"
  define t u where "t = Y - 100 * a" and "u = Y - 4 * s"
  have t: "0 \<le> t" "t \<le> 99" "Y = 100 * a + t" using div_bounds [of 100 Y] by (simp_all add: a_def t_def)
  have q: "4 * q \<le> a" "a \<le> 4 * q + 3" using div_bounds [of 4 a] by (simp_all add: q_def)
  have s: "0 \<le> u" "u \<le> 3" "Y = 4 * s + u" using div_bounds [of 4 Y] by (simp_all add: s_def u_def)
  have "Y div 400 = q" using zdiv_zmult2_eq [of 4 Y 100] by (simp add: q_def a_def)
  then have z': "z = c + 365 * Y + s - a + q" using z by (simp add: leap_days_def a_def s_def)
  have l4: "u = 3" if "c = 366"
  proof -
    obtain k where k: "Y + 1 = 4 * k" using l [OF \<open>c = 366\<close>] by (auto simp: isLeapYear_iff)
    then have "k = s + 1" using s by linarith
    then show ?thesis using k s(3) by linarith
  qed
  have l100: "a = 4 * q + 3" if "c = 366" "t = 99"
  proof -
    have "Y + 1 = 100 * (a + 1)" using t(3) that(2) by simp
    then have "(Y + 1) mod 100 = 0" by (metis mod_mult_self1_is_0)
    then obtain k where k: "Y + 1 = 400 * k" using l [OF \<open>c = 366\<close>] by (auto simp: isLeapYear_iff)
    then have "k = q + 1" using q t by linarith
    then show ?thesis using k t \<open>t = 99\<close> by simp
  qed
  have "c \<le> 365 \<or> t \<le> 98 \<or> a = 4 * q + 3" using l100 c t by linarith
  moreover have s': "0 \<le> s - 25 * a" "s - 25 * a \<le> 24" using s t by linarith+
  ultimately have "4 * z - 1 < 146097 * a + 146097"
    using z' t q c by linarith
  moreover have "146097 * a \<le> 4 * z - 1" using s' z' t q c by linarith
  ultimately have a: "greg_century z = a" unfolding greg_century_def by (intro div_unique_bounds)
  then have days: "greg_days z = c + 365 * Y + s" using z' by (simp add: greg_days_def q_def)
  show y: "greg_year z = Y" unfolding greg_year_def
    by (rule div_unique_bounds) (use days c s l4 in linarith)+
  have "1461 * Y div 4 = 365 * Y + s"
    using div_mult_self1 [of 4 Y "365 * Y"] by (simp add: s_def)
  then show "greg_rest z = c" using y days by (simp add: greg_rest_def)
qed

definition march_ok :: "int \<Rightarrow> int \<Rightarrow> bool" where
  "march_ok m d \<longleftrightarrow>
     (let c = d + (153 * m - 457) div 5
      in (5 * c + 456) div 153 = m \<and> 1 \<le> c \<and> c \<le> (if m = 14 then 337 + d else 337))"

definition march_len :: "int \<Rightarrow> int" where
  "march_len m = (if m = 14 then 29 else if m \<in> {4, 6, 9, 11} then 30 else 31)"

lemma march_table:
  assumes "3 \<le> m" "m \<le> 14" "1 \<le> d" "d \<le> march_len m"
  shows "march_ok m d"
proof -
  have "list_all (\<lambda>m. list_all (march_ok m) [1..march_len m]) [3..14]" by code_simp
  then have "\<forall>m \<in> {3..14}. \<forall>d \<in> {1..march_len m}. march_ok m d"
    by (simp only: list_all_iff set_upto)
  then show ?thesis using assms by simp
qed

lemma greg_date_of_civil:
  assumes v: "valid_date y m d"
  shows "greg_date (civil_day y m d + 306) = (y, m, d)"
proof -
  define Y M where "Y = (if m < 3 then y - 1 else y)" and "M = (if m < 3 then m + 12 else m)"
  define c z where "c = d + (153 * M - 457) div 5" and "z = civil_day y m d + 306"
  have m: "1 \<le> m" "m \<le> 12" "1 \<le> d" using v by (simp_all add: valid_date_def)
  have "march_ok M d"
    using v by (intro march_table) (auto simp: valid_date_def M_def month_days_def march_len_def split: if_splits)
  then have k: "(5 * c + 456) div 153 = M" "1 \<le> c" "c \<le> (if M = 14 then 337 + d else 337)"
    by (simp_all add: march_ok_def Let_def c_def)
  have dd: "M = 14 \<Longrightarrow> d \<le> 29 \<and> (d = 29 \<longrightarrow> isLeapYear (Y + 1))"
    using v by (auto simp: valid_date_def M_def Y_def month_days_def split: if_splits)
  have z: "z = c + 365 * Y + leap_days Y"
    using march_day_civil [OF m(1,2), of y d] by (simp add: march_day_def z_def c_def Y_def M_def)
  have g: "greg_year z = Y" "greg_rest z = c"
    by (rule greg_of_march [OF k(2) _ _ z]; use k dd in \<open>auto split: if_splits\<close>)+
  then have "greg_month z = M" by (simp only: greg_month_def k)
  moreover from this g have "greg_day z = d" by (simp add: greg_day_def c_def)
  ultimately show ?thesis using g m by (auto simp: greg_date_def z_def [symmetric] Y_def M_def)
qed

end
