(* ===== verification/Date_Exact.thy ===== *)
theory Date_Exact
  imports Date_Calendar
begin

text \<open>
  The double arithmetic of \<^verbatim>\<open>DateTime\<close> computes the calendar exactly. Every operation of
  \<^verbatim>\<open>computeGregorian\<close> on a Julian day is either exact or a quotient whose floor survives the
  rounding; the Julian day itself is off by less than \<open>2 ^ -29\<close> days, so at worst the wrong side
  of midnight, which \<^verbatim>\<open>computeDaytime\<close> detects and corrects. The result is
  \<open>recompute_exact\<close>: for every time from the 15th of October 1582 to the end of the year 9999 the
  fields are those of the calendar (\<open>fields_of_utc\<close>).
\<close>

subsection \<open>Exact operations\<close>

lemma fl_dyadic:
  "x = of_int k / 2 ^ n \<Longrightarrow> \<bar>k\<bar> \<le> 2 ^ 53 \<Longrightarrow> fl x = x"
  using fl.rnd_dyadic [of k n] by simp

lemma fl_int [simp]: "\<bar>k\<bar> \<le> 2 ^ 53 \<Longrightarrow> fl (of_int k) = of_int k"
  by (rule fl.rnd_int)

lemma floor_d_quotient: "0 < b \<Longrightarrow> \<bar>a\<bar> < 2 ^ 53 \<Longrightarrow> floor_d (fl (of_int a / of_int b)) = of_int (a div b)"
  by (simp add: floor_d_def fl.rnd_floor_quotient)

lemma floor_d_int [simp]: "floor_d (of_int k) = of_int k"
  by (simp add: floor_d_def)

lemma trunc_d_int [simp]: "trunc_d (of_int k) = k"
  by (simp add: trunc_d_def)

lemma short_of_int [simp]: "- (2 ^ 15) \<le> k \<Longrightarrow> k < 2 ^ 15 \<Longrightarrow> short_of_double (of_int k) = Inr k"
  by (simp add: short_of_double_def)

lemma to_short_small [simp]: "- (2 ^ 15) \<le> x \<Longrightarrow> x < 2 ^ 15 \<Longrightarrow> to_short x = x"
  by (simp add: to_short_def)

lemma to_int32_small [simp]: "- (2 ^ 31) \<le> x \<Longrightarrow> x < 2 ^ 31 \<Longrightarrow> to_int32 x = x"
  by (simp add: to_int32_def)

subsection \<open>The date of a day number\<close>

lemma greg_ranges:
  assumes "0 < z" "z < 4000000"
  shows "0 \<le> greg_century z" "greg_century z < 1024" "0 < greg_days z" "greg_days z < 4001024"
    "0 \<le> greg_year z" "greg_year z < 11000"
proof -
  show c: "0 \<le> greg_century z" "greg_century z < 1024"
    using assms greg_century_bounds [of z] by linarith+
  show d: "0 < greg_days z" "greg_days z < 4001024"
    using assms c div_bounds [of 4 "greg_century z", simplified] unfolding greg_days_def by linarith+
  then show "0 \<le> greg_year z" "greg_year z < 11000"
    using greg_year_bounds [of z] by linarith+
qed

lemma gregorian_date_int:
  assumes z: "0 < z" "z < 4000000" and r: "0 \<le> r" "r < 1"
    and fr: "\<And>k. 0 \<le> k \<Longrightarrow> k \<le> 31 \<Longrightarrow> fl (of_int k + r) = of_int k + r"
    and g: "greg_date z = (y, m, d)"
  shows "gregorian_date (of_int z) r dt = Inr (dt\<lparr>dt_year := y, dt_month := m, dt_day := d\<rparr>)"
proof -
  note R = greg_ranges [OF z]
  have g1: "fl (of_int z - 1 / 4) = (of_int (4 * z - 1) / of_int 4 :: rat)"
    using fl_dyadic [of "of_int z - 1 / 4" "4 * z - 1" 2] z by simp
  have a: "floor_d (fl ((of_int (4 * z - 1) / of_int 4) / (146097 / 4))) = of_int (greg_century z)"
  proof -
    have "(of_int (4 * z - 1) / of_int 4) / (146097 / 4) = (of_int (4 * z - 1) / of_int 146097 :: rat)" by simp
    then show ?thesis using floor_d_quotient [of 146097 "4 * z - 1"] z by (simp only: greg_century_def) simp
  qed
  have a4: "floor_d (fl (of_int (greg_century z) / 4)) = of_int (greg_century z div 4)"
    using floor_d_quotient [of 4 "greg_century z"] R by simp
  have b: "fl (of_int (greg_century z) - of_int (greg_century z div 4)) = of_int (greg_days z - z)"
    using fl_int [of "greg_days z - z"] R z by (simp add: greg_days_def)
  have bg: "fl (of_int (greg_days z - z) + of_int (4 * z - 1) / of_int 4) = of_int (4 * greg_days z - 1) / of_int 4"
    using fl_dyadic [of "of_int (greg_days z - z) + of_int (4 * z - 1) / of_int 4" "4 * greg_days z - 1" 2] R z
    by (simp add: field_simps)
  have y: "floor_d (fl ((of_int (4 * greg_days z - 1) / of_int 4) / (1461 / 4))) = of_int (greg_year z)"
  proof -
    have "(of_int (4 * greg_days z - 1) / of_int 4) / (1461 / 4) = (of_int (4 * greg_days z - 1) / of_int 1461 :: rat)" by simp
    then show ?thesis using floor_d_quotient [of 1461 "4 * greg_days z - 1"] R by (simp only: greg_year_def) simp
  qed
  have bz: "fl (of_int (greg_days z - z) + of_int z) = of_int (greg_days z)"
    using fl_int [of "greg_days z"] R by simp
  have y4: "floor_d (fl (1461 / 4 * of_int (greg_year z))) = of_int (1461 * greg_year z div 4)"
    using floor_d_quotient [of 4 "1461 * greg_year z"] R by simp
  have c: "fl (of_int (greg_days z) - of_int (1461 * greg_year z div 4)) = of_int (greg_rest z)"
    using fl_int [of "greg_rest z"] greg_rest_bounds [of z] by (simp add: greg_rest_def)
  have m: "floor_d (fl (fl (fl (5 * of_int (greg_rest z)) + 456) / 153)) = of_int (greg_month z)"
    using fl_int [of "5 * greg_rest z"] fl_int [of "5 * greg_rest z + 456"]
      floor_d_quotient [of 153 "5 * greg_rest z + 456"] greg_rest_bounds [of z]
    by (simp add: greg_month_def)
  have m5: "floor_d (fl (fl (fl (153 * of_int (greg_month z)) - 457) / 5)) = of_int ((153 * greg_month z - 457) div 5)"
    using fl_int [of "153 * greg_month z"] fl_int [of "153 * greg_month z - 457"]
      floor_d_quotient [of 5 "153 * greg_month z - 457"] greg_month_bounds [of z]
    by simp
  have d: "fl (of_int (greg_rest z) - of_int ((153 * greg_month z - 457) div 5)) = of_int (greg_day z)"
    using fl_int [of "greg_day z"] greg_day_range [of z] by (simp add: greg_day_def)
  have dr: "short_of_double (fl (of_int (greg_day z) + r)) = Inr (greg_day z)"
  proof -
    have "\<lfloor>of_int (greg_day z) + r\<rfloor> = greg_day z" using r by (intro floor_unique) auto
    then show ?thesis using fr [of "greg_day z"] greg_day_range [of z] r
      by (simp add: short_of_double_def trunc_d_def)
  qed
  have Y: "short_of_double (of_int (greg_year z)) = Inr (greg_year z)" using R by simp
  have M: "short_of_double (of_int (greg_month z)) = Inr (greg_month z)"
    using greg_month_bounds [of z] by simp
  show ?thesis
    unfolding gregorian_date_def g1 a Let_def a4 b bg y Y bind_r_simps bz y4 c m M m5 d dr
    using g R greg_month_bounds [of z] by (auto simp: greg_date_def)
qed

subsection \<open>The time of a fraction of a day\<close>

text \<open>
  A fraction of a day with 32 fractional bits: every part is computed exactly.
\<close>

lemma div_less_bound: "0 < (k :: int) \<Longrightarrow> x < p * k \<Longrightarrow> x div k < p"
  using div_bounds(1) [of k x] mult_left_mono [of p "x div k" k] by (fastforce simp: not_less mult.commute)

abbreviation b32 :: int where "b32 \<equiv> 2 ^ 32"

lemma b32_numeral: "b32 = 4294967296" "(2 :: int) ^ 31 = 2147483648"
  by simp_all

lemma take_part_exact:
  assumes "0 \<le> k" "k < b32" "0 < p" "p \<le> 1000"
  shows "take_part (of_int p) (of_int k / 2 ^ 32) =
         Inr (p * k div b32, of_int (p * k mod b32) / 2 ^ 32)"
proof -
  have pk0: "0 \<le> p * k" "p * k < p * b32" using assms by simp_all
  moreover have "p * b32 \<le> 1000 * b32" using assms by simp
  ultimately have pk': "p * k < 1000 * b32" by linarith
  have x: "fl (of_int k / 2 ^ 32 * of_int p) = of_int (p * k) / 2 ^ 32"
    using pk0 pk' fl_dyadic [of "of_int k / 2 ^ 32 * of_int p" "p * k" 32] by simp
  have f: "floor_d (of_int (p * k) / 2 ^ 32) = of_int (p * k div b32)"
    using floor_divide_of_int_eq [of "p * k" b32, where 'a = rat] by (simp add: floor_d_def)
  have q: "0 \<le> p * k div b32" "p * k div b32 < p"
    using pk0 by (simp_all add: pos_imp_zdiv_nonneg_iff div_less_bound)
  have "of_int (p * k) / 2 ^ 32 - of_int (p * k div b32) = (of_int (p * k mod b32) / 2 ^ 32 :: rat)"
    by (simp add: diff_divide_eq_iff minus_div_mult_eq_mod [symmetric])
  moreover have "\<bar>p * k mod b32\<bar> \<le> 2 ^ 53" using pos_mod_bound [of b32 "p * k"] by simp
  ultimately have r: "fl (of_int (p * k) / 2 ^ 32 - of_int (p * k div b32)) = of_int (p * k mod b32) / 2 ^ 32"
    using fl.rnd_dyadic [of "p * k mod b32" 32] by (simp only:)
  have s: "short_of_double (of_int (p * k div b32)) = Inr (p * k div b32)"
    using q assms(4) by (intro short_of_int) simp_all
  show ?thesis unfolding take_part_def Let_def x f r s bind_r_simps ..
qed

lemma round_part_exact:
  assumes "0 \<le> k" "k < b32"
  shows "short_of_double (fl (fl (of_int k / 2 ^ 32 * 1000) + 1 / 2)) = Inr ((1000 * k + 2 ^ 31) div b32)"
proof -
  have x: "fl (of_int k / 2 ^ 32 * 1000) = of_int (1000 * k) / 2 ^ 32"
    using assms fl_dyadic [of "of_int k / 2 ^ 32 * 1000" "1000 * k" 32] by simp
  have y: "fl (of_int (1000 * k) / 2 ^ 32 + 1 / 2) = of_int (1000 * k + 2 ^ 31) / 2 ^ 32"
    using assms fl_dyadic [of "of_int (1000 * k) / 2 ^ 32 + 1 / 2" "1000 * k + 2 ^ 31" 32]
    by (simp add: field_simps)
  have "trunc_d (of_int (1000 * k + 2 ^ 31) / 2 ^ 32) = (1000 * k + 2 ^ 31) div b32"
    using floor_divide_of_int_eq [of "1000 * k + 2 ^ 31" b32, where 'a = rat] assms
    by (simp add: trunc_d_def)
  moreover have "0 \<le> (1000 * k + 2 ^ 31) div b32" "(1000 * k + 2 ^ 31) div b32 < 1001"
    using assms by (simp_all add: pos_imp_zdiv_nonneg_iff div_less_bound)
  ultimately show ?thesis unfolding x y by (simp add: short_of_double_def)
qed

text \<open>
  The parts of a fraction \<open>k / 2 ^ 32\<close>: hour, minute, second, millisecond and the rounded
  microsecond, and what is left before each.
\<close>

definition part_left :: "int list \<Rightarrow> int \<Rightarrow> int" where
  "part_left ps k = fold (\<lambda>p k. p * k mod b32) ps k"

definition frac_time :: "int \<Rightarrow> date_time \<Rightarrow> date_time" where
  "frac_time k d =
     (let k1 = 24 * k mod b32; k2 = 60 * k1 mod b32; k3 = 60 * k2 mod b32; k4 = 1000 * k3 mod b32
      in d\<lparr>dt_hour := 24 * k div b32, dt_minute := 60 * k1 div b32, dt_second := 60 * k2 div b32,
           dt_millisecond := 1000 * k3 div b32, dt_microsecond := (1000 * k4 + 2 ^ 31) div b32\<rparr>)"

lemma gregorian_time_exact:
  assumes "0 \<le> k" "k < b32"
  shows "gregorian_time (of_int k / 2 ^ 32) d = Inr (frac_time k d)"
proof -
  have m: "0 \<le> x mod b32" "x mod b32 < b32" for x :: int by simp_all
  have t24: "take_part 24 (of_int x / 2 ^ 32) = Inr (24 * x div b32, of_int (24 * x mod b32) / 2 ^ 32)"
    and t60: "take_part 60 (of_int x / 2 ^ 32) = Inr (60 * x div b32, of_int (60 * x mod b32) / 2 ^ 32)"
    and t1000: "take_part 1000 (of_int x / 2 ^ 32) = Inr (1000 * x div b32, of_int (1000 * x mod b32) / 2 ^ 32)"
    if "0 \<le> x" "x < b32" for x
    using take_part_exact [OF that, of 24] take_part_exact [OF that, of 60] take_part_exact [OF that, of 1000]
    by simp_all
  show ?thesis
    unfolding gregorian_time_def frac_time_def Let_def t24 [OF assms] bind_r_simps prod.case t60 [OF m] t1000 [OF m]
      round_part_exact [OF m] ..
qed

text \<open>
  The carries: only the microseconds can reach their limit, and all parts reach theirs together
  for no fraction of 32 bits, so the day does not change.
\<close>

lemma checkLimit_below: "a < l \<Longrightarrow> checkLimit a b l = (a, b)"
  by (simp add: checkLimit_def)

lemma checkLimit_at:
  "0 < l \<Longrightarrow> l < 2 ^ 15 \<Longrightarrow> 0 \<le> b \<Longrightarrow> b < 2 ^ 14 \<Longrightarrow> checkLimit l b l = (0, b + 1)"
  by (simp add: checkLimit_def signed_divide_int_def signed_modulo_int_def)

lemma normalize_time_carry:
  assumes "0 \<le> dt_hour d" "dt_hour d \<le> 23" "0 \<le> dt_minute d" "dt_minute d \<le> 59"
    "0 \<le> dt_second d" "dt_second d \<le> 59" "0 \<le> dt_millisecond d" "dt_millisecond d \<le> 999"
    "0 \<le> dt_microsecond d" "dt_microsecond d \<le> 1000"
    and no: "\<not> (dt_hour d = 23 \<and> dt_minute d = 59 \<and> dt_second d = 59 \<and> dt_millisecond d = 999 \<and>
               dt_microsecond d = 1000)"
  obtains h mi s ms us where
    "normalize_time d = d\<lparr>dt_hour := h, dt_minute := mi, dt_second := s, dt_millisecond := ms, dt_microsecond := us\<rparr>"
    "0 \<le> h" "h \<le> 23" "0 \<le> mi" "mi \<le> 59" "0 \<le> s" "s \<le> 59" "0 \<le> ms" "ms \<le> 999" "0 \<le> us" "us \<le> 999"
    "h = dt_hour d \<or> h = dt_hour d + 1 \<and> dt_minute d = 59"
proof -
  define us ms s mi h where "us = dt_microsecond d" and "ms = dt_millisecond d" and "s = dt_second d"
    and "mi = dt_minute d" and "h = dt_hour d"
  note D = us_def [symmetric] ms_def [symmetric] s_def [symmetric] mi_def [symmetric] h_def [symmetric]
  note B = assms [unfolded D]
  consider "us < 1000" | "us = 1000" "ms < 999" | "us = 1000" "ms = 999" "s < 59"
    | "us = 1000" "ms = 999" "s = 59" "mi < 59" | "us = 1000" "ms = 999" "s = 59" "mi = 59" "h < 23"
    using B by linarith
  then show thesis
  proof cases
    case 1
    then show ?thesis using B
      by (intro that [where h = h and mi = mi and s = s and ms = ms and us = us]) (simp_all add: normalize_time_def D checkLimit_below)
  next
    case 2
    then show ?thesis using B
      by (intro that [where h = h and mi = mi and s = s and ms = "ms + 1" and us = 0]) (simp_all add: normalize_time_def D checkLimit_below checkLimit_at)
  next
    case 3
    then show ?thesis using B
      by (intro that [where h = h and mi = mi and s = "s + 1" and ms = 0 and us = 0]) (simp_all add: normalize_time_def D checkLimit_below checkLimit_at)
  next
    case 4
    then show ?thesis using B
      by (intro that [where h = h and mi = "mi + 1" and s = 0 and ms = 0 and us = 0]) (simp_all add: normalize_time_def D checkLimit_below checkLimit_at)
  next
    case 5
    then show ?thesis using B
      by (intro that [where h = "h + 1" and mi = 0 and s = 0 and ms = 0 and us = 0]) (simp_all add: normalize_time_def D checkLimit_below checkLimit_at)
  qed
qed

lemma frac_time_bounds:
  assumes k: "0 \<le> k" "k < b32"
  shows "0 \<le> dt_hour (frac_time k d)" "dt_hour (frac_time k d) \<le> 23"
    "0 \<le> dt_minute (frac_time k d)" "dt_minute (frac_time k d) \<le> 59"
    "0 \<le> dt_second (frac_time k d)" "dt_second (frac_time k d) \<le> 59"
    "0 \<le> dt_millisecond (frac_time k d)" "dt_millisecond (frac_time k d) \<le> 999"
    "0 \<le> dt_microsecond (frac_time k d)" "dt_microsecond (frac_time k d) \<le> 1000"
    "\<not> (dt_hour (frac_time k d) = 23 \<and> dt_minute (frac_time k d) = 59 \<and> dt_second (frac_time k d) = 59 \<and>
        dt_millisecond (frac_time k d) = 999 \<and> dt_microsecond (frac_time k d) = 1000)"
proof -
  define k1 where "k1 = 24 * k mod b32"
  define k2 where "k2 = 60 * k1 mod b32"
  define k3 where "k3 = 60 * k2 mod b32"
  define k4 where "k4 = 1000 * k3 mod b32"
  note K = k1_def [symmetric] k2_def [symmetric] k3_def [symmetric] k4_def [symmetric]
  have m: "0 \<le> x mod b32" "x mod b32 < b32" for x :: int by simp_all
  have b: "0 \<le> k1" "k1 < b32" "0 \<le> k2" "k2 < b32" "0 \<le> k3" "k3 < b32" "0 \<le> k4" "k4 < b32"
    unfolding k1_def k2_def k3_def k4_def by (rule m)+
  have e: "b32 * (24 * k div b32) + k1 = 24 * k" "b32 * (60 * k1 div b32) + k2 = 60 * k1"
    "b32 * (60 * k2 div b32) + k3 = 60 * k2" "b32 * (1000 * k3 div b32) + k4 = 1000 * k3"
    unfolding k1_def k2_def k3_def k4_def by (rule mult_div_mod_eq)+
  have f: "frac_time k d = d\<lparr>dt_hour := 24 * k div b32, dt_minute := 60 * k1 div b32,
      dt_second := 60 * k2 div b32, dt_millisecond := 1000 * k3 div b32,
      dt_microsecond := (1000 * k4 + 2 ^ 31) div b32\<rparr>"
    by (simp only: frac_time_def K Let_def)
  have b0: "0 < b32" by simp
  define h mi s ms us where "h = 24 * k div b32" and "mi = 60 * k1 div b32" and "s = 60 * k2 div b32"
    and "ms = 1000 * k3 div b32" and "us = (1000 * k4 + 2 ^ 31) div b32"
  note D = h_def [symmetric] mi_def [symmetric] s_def [symmetric] ms_def [symmetric] us_def [symmetric]
  have u: "b32 * us \<le> 1000 * k4 + 2 ^ 31" "1000 * k4 + 2 ^ 31 < b32 * us + b32"
    unfolding us_def by (rule div_bounds [OF b0])+
  note e' = e [unfolded D] and f' = f [unfolded D]
  have "0 \<le> h" "h \<le> 23" using k b(1,2) e'(1) unfolding b32_numeral by linarith+
  moreover have "0 \<le> mi" "mi \<le> 59" using b(1-4) e'(2) unfolding b32_numeral by linarith+
  moreover have "0 \<le> s" "s \<le> 59" using b(3-6) e'(3) unfolding b32_numeral by linarith+
  moreover have "0 \<le> ms" "ms \<le> 999" using b(5-8) e'(4) unfolding b32_numeral by linarith+
  moreover have "0 \<le> us" "us \<le> 1000" using b(7,8) u unfolding b32_numeral by linarith+
  ultimately show "0 \<le> dt_hour (frac_time k d)" "dt_hour (frac_time k d) \<le> 23"
    "0 \<le> dt_minute (frac_time k d)" "dt_minute (frac_time k d) \<le> 59"
    "0 \<le> dt_second (frac_time k d)" "dt_second (frac_time k d) \<le> 59"
    "0 \<le> dt_millisecond (frac_time k d)" "dt_millisecond (frac_time k d) \<le> 999"
    "0 \<le> dt_microsecond (frac_time k d)" "dt_microsecond (frac_time k d) \<le> 1000"
    by (simp_all add: f')
  have "\<not> (h = 23 \<and> mi = 59 \<and> s = 59 \<and> ms = 999 \<and> us = 1000)"
  proof
    assume "h = 23 \<and> mi = 59 \<and> s = 59 \<and> ms = 999 \<and> us = 1000"
    then have "k1 = 24 * k - 23 * b32" "k2 = 60 * k1 - 59 * b32" "k3 = 60 * k2 - 59 * b32"
      "k4 = 1000 * k3 - 999 * b32" "1000 * b32 \<le> 1000 * k4 + 2 ^ 31"
      using e' u(1) unfolding b32_numeral by simp_all
    then show False using k(2) unfolding b32_numeral by linarith
  qed
  then show "\<not> (dt_hour (frac_time k d) = 23 \<and> dt_minute (frac_time k d) = 59 \<and> dt_second (frac_time k d) = 59 \<and>
        dt_millisecond (frac_time k d) = 999 \<and> dt_microsecond (frac_time k d) = 1000)"
    by (simp add: f')
qed

subsection \<open>computeGregorian\<close>

lemma time_fields_twice:
  "d\<lparr>dt_hour := h', dt_minute := mi', dt_second := s', dt_millisecond := ms', dt_microsecond := us'\<rparr>
    \<lparr>dt_hour := h, dt_minute := mi, dt_second := s, dt_millisecond := ms, dt_microsecond := us\<rparr> =
   d\<lparr>dt_hour := h, dt_minute := mi, dt_second := s, dt_millisecond := ms, dt_microsecond := us\<rparr>"
  by simp

lemma time_fields_get:
  "dt_hour (d\<lparr>dt_hour := h, dt_minute := mi, dt_second := s, dt_millisecond := ms, dt_microsecond := us\<rparr>) = h"
  "dt_minute (d\<lparr>dt_hour := h, dt_minute := mi, dt_second := s, dt_millisecond := ms, dt_microsecond := us\<rparr>) = mi"
  by simp_all

lemma frac_time_hour:
  "dt_hour (frac_time k d) = 24 * k div b32" "dt_minute (frac_time k d) = 60 * (24 * k mod b32) div b32"
  unfolding frac_time_def Let_def by (rule time_fields_get)+

lemma daysOfMonth_eq:
  assumes "1 \<le> m" "m \<le> 12"
  shows "daysOfMonth y m = Inr (month_days y m)"
  using month_cases [OF assms]
  by (elim disjE) (simp_all add: daysOfMonth_def daysOfMonthTable_def month_days_def)

lemma fields_ok_iff:
  "fields_ok d \<longleftrightarrow> valid_date (dt_year d) (dt_month d) (dt_day d) \<and>
     0 \<le> dt_hour d \<and> dt_hour d \<le> 23 \<and> 0 \<le> dt_minute d \<and> dt_minute d \<le> 59 \<and>
     0 \<le> dt_second d \<and> dt_second d \<le> 59 \<and> 0 \<le> dt_millisecond d \<and> dt_millisecond d \<le> 999 \<and>
     0 \<le> dt_microsecond d \<and> dt_microsecond d \<le> 999"
  by (auto simp: fields_ok_def valid_date_def daysOfMonth_eq)

lemma normalize_day_valid:
  "valid_date (dt_year d) (dt_month d) (dt_day d) \<Longrightarrow> normalize_day d = Inr d"
  by (simp add: normalize_day_def valid_date_def daysOfMonth_eq)

lemma fl_day_fraction:
  assumes "0 \<le> n" "n \<le> 31" "0 \<le> k" "k < b32"
  shows "fl (of_int n + of_int k / 2 ^ 32) = of_int n + of_int k / 2 ^ 32"
proof -
  have "\<bar>n * b32 + k\<bar> \<le> 2 ^ 53" using assms by simp
  then show ?thesis using fl.rnd_dyadic [of "n * b32 + k" 32] by (simp add: add_divide_distrib)
qed

lemma computeGregorian_exact:
  assumes j: "fl (j - 3442237 / 2) = of_int z + of_int k / 2 ^ 32"
    and z: "0 < z" "z < 4000000" and k: "0 \<le> k" "k < b32" and g: "greg_date z = (y, m, dy)"
  obtains h mi s ms us where
    "computeGregorian j d = Inr (d\<lparr>dt_year := y, dt_month := m, dt_day := dy, dt_hour := h, dt_minute := mi,
       dt_second := s, dt_millisecond := ms, dt_microsecond := us\<rparr>)"
    "h \<le> 23" "h = 24 * k div b32 \<or> h = 24 * k div b32 + 1 \<and> 60 * (24 * k mod b32) div b32 = 59"
proof -
  let ?x = "of_int z + of_int k / 2 ^ 32 :: rat"
  let ?d1 = "d\<lparr>dt_year := y, dt_month := m, dt_day := dy\<rparr>"
  have f: "0 \<le> (of_int k / 2 ^ 32 :: rat)" "of_int k / 2 ^ 32 < (1 :: rat)" using k by simp_all
  have zf: "floor_d ?x = of_int z" unfolding floor_d_def using f by (subst floor_unique [of z]) auto
  have r: "fl (?x - of_int z) = of_int k / 2 ^ 32"
    using fl.rnd_dyadic [of k 32] k by simp
  have gd: "gregorian_date (of_int z) (of_int k / 2 ^ 32) d = Inr ?d1"
    using k by (intro gregorian_date_int [OF z f _ g] fl_day_fraction)
  have v: "valid_date y m dy" using g by (rule greg_date_valid)
  obtain h mi s ms us where n:
    "normalize_time (frac_time k ?d1) = (frac_time k ?d1)\<lparr>dt_hour := h, dt_minute := mi, dt_second := s,
       dt_millisecond := ms, dt_microsecond := us\<rparr>"
    "0 \<le> h" "h \<le> 23" "0 \<le> mi" "mi \<le> 59" "0 \<le> s" "s \<le> 59" "0 \<le> ms" "ms \<le> 999" "0 \<le> us" "us \<le> 999"
    "h = dt_hour (frac_time k ?d1) \<or> h = dt_hour (frac_time k ?d1) + 1 \<and> dt_minute (frac_time k ?d1) = 59"
    by (rule normalize_time_carry [OF frac_time_bounds [OF k, of ?d1]])
  define d3 where "d3 = d\<lparr>dt_year := y, dt_month := m, dt_day := dy, dt_hour := h, dt_minute := mi,
       dt_second := s, dt_millisecond := ms, dt_microsecond := us\<rparr>"
  have d3: "normalize_time (frac_time k ?d1) = d3" 
    unfolding n(1) unfolding frac_time_def Let_def d3_def by (rule time_fields_twice)
  have ok: "fields_ok d3" using v n by (simp add: fields_ok_iff d3_def)
  have nd: "normalize (frac_time k ?d1) = Inr d3"
    unfolding normalize_def d3 using v by (intro normalize_day_valid) (simp add: d3_def)
  have "computeGregorian j d = Inr d3"
    unfolding computeGregorian_def j Let_def zf r gd bind_r_simps gregorian_time_exact [OF k] nd
    using ok by simp
  then show thesis
    using n(3,12) unfolding frac_time_hour d3_def by (rule that)
qed

subsection \<open>From the time to the Julian day\<close>

text \<open>A day in units of 100 ns, the number of the 15th of October 1582, the end of the year 9999.\<close>

abbreviation utc_day :: int where "utc_day \<equiv> 864000000000"
abbreviation utc_zero :: int where "utc_zero \<equiv> 578042"
abbreviation utc_limit :: int where "utc_limit \<equiv> 3074324 * utc_day"

lemma julian_error:
  assumes u: "0 \<le> u" "u < utc_limit"
  defines "v \<equiv> of_int u / 864000000000 :: rat"
  shows "\<bar>toJulianDay_utc u - (v + 4598321 / 2)\<bar> \<le> 1 / 2 ^ 29"
    "\<bar>fl (fl (of_int u) / 864000000000) - v\<bar> \<le> 1 / 2 ^ 29"
proof -
  have v: "0 \<le> v" "v < 3074324"
  proof -
    have "(of_int u :: rat) < of_int utc_limit" using u by (simp only: of_int_less_iff)
    then show "v < 3074324" by (simp add: v_def)
    show "0 \<le> v" using u by (simp add: v_def)
  qed
  define w q where "w = fl (of_int u) / 864000000000" and "q = fl w"
  have "\<bar>fl (of_int u) - of_int u\<bar> \<le> \<bar>of_int u\<bar> / 2 ^ 53" by (rule fl_error)
  then have "\<bar>(w - v) * 864000000000\<bar> \<le> v * 864000000000 / 2 ^ 53"
    using u by (simp add: w_def v_def diff_divide_distrib)
  then have "(w - v) * 864000000000 \<le> v * 864000000000 / 2 ^ 53" "- ((w - v) * 864000000000) \<le> v * 864000000000 / 2 ^ 53"
    by (simp_all only: abs_le_iff)
  then have w: "\<bar>w - v\<bar> \<le> v / 2 ^ 53" unfolding abs_le_iff by simp
  have q: "\<bar>q - w\<bar> \<le> \<bar>w\<bar> / 2 ^ 53" unfolding q_def by (rule fl_error)
  have j: "\<bar>toJulianDay_utc u - (q + 4598321 / 2)\<bar> \<le> \<bar>q + 4598321 / 2\<bar> / 2 ^ 53"
    unfolding toJulianDay_utc_def q_def w_def by (rule fl_error)
  have W: "w - v \<le> 3074324 / 2 ^ 53" "v - w \<le> 3074324 / 2 ^ 53"
    using w v unfolding abs_le_iff by simp_all
  then have "\<bar>w\<bar> \<le> 3074325" using v unfolding abs_le_iff by simp
  then have "\<bar>q - w\<bar> \<le> 3074325 / 2 ^ 53" using q by simp
  then have Q: "q - w \<le> 3074325 / 2 ^ 53" "w - q \<le> 3074325 / 2 ^ 53" unfolding abs_le_iff by simp_all
  have "\<bar>q + 4598321 / 2\<bar> \<le> 5373487" using W Q v unfolding abs_le_iff by simp
  then have "\<bar>toJulianDay_utc u - (q + 4598321 / 2)\<bar> \<le> 5373487 / 2 ^ 53" using j by simp
  then have J: "toJulianDay_utc u - (q + 4598321 / 2) \<le> 5373487 / 2 ^ 53"
    "q + 4598321 / 2 - toJulianDay_utc u \<le> 5373487 / 2 ^ 53" unfolding abs_le_iff by simp_all
  show "\<bar>toJulianDay_utc u - (v + 4598321 / 2)\<bar> \<le> 1 / 2 ^ 29"
    using W Q J unfolding abs_le_iff by simp
  show "\<bar>fl (fl (of_int u) / 864000000000) - v\<bar> \<le> 1 / 2 ^ 29"
    using W Q unfolding abs_le_iff q_def [symmetric] w_def [symmetric] by simp
qed

lemma julian_day_number:
  assumes u: "0 \<le> u" "u < utc_limit"
  obtains n where "fl (toJulianDay_utc u - 3442237 / 2) = of_int n / 2 ^ 32"
    "\<bar>of_int n / 2 ^ 32 - (of_int u / 864000000000 + 578042)\<bar> \<le> (1 / 2 ^ 29 :: rat)"
proof -
  define v q where "v = (of_int u / 864000000000 :: rat)" and "q = fl (fl (of_int u) / 864000000000)"
  have v: "0 \<le> v" "v < 3074324"
  proof -
    have "(of_int u :: rat) < of_int utc_limit" using u by (simp only: of_int_less_iff)
    then show "v < 3074324" by (simp add: v_def)
    show "0 \<le> v" using u by (simp add: v_def)
  qed
  define j where "j = toJulianDay_utc u"
  have jq: "j = fl (q + 4598321 / 2)" by (simp add: j_def q_def toJulianDay_utc_def)
  have e: "\<bar>j - (v + 4598321 / 2)\<bar> \<le> 1 / 2 ^ 29" "\<bar>q - v\<bar> \<le> 1 / 2 ^ 29"
    using julian_error [OF u] by (simp_all add: j_def v_def q_def)
  have e': "j \<le> v + 4598321 / 2 + 1" "v + 4598321 / 2 - 1 \<le> j" "q \<le> v + 1" "v - 1 \<le> q"
    using e unfolding abs_le_iff by simp_all
  obtain k :: int and b :: nat where k: "j = of_int k / 2 ^ b" "b \<le> 31" "1 \<le> b"
    "\<bar>j - 3442237 / 2\<bar> * 2 ^ b \<le> 2 ^ 53"
  proof (cases "2 ^ 22 \<le> \<bar>q + 4598321 / 2\<bar>")
    case True
    from fl.rnd_fraction [OF this, of 30] obtain k where jk: "j = of_int k / 2 ^ 30" by (auto simp: jq)
    have "\<bar>j - 3442237 / 2\<bar> \<le> 2 ^ 23" using e' v by (simp add: abs_le_iff)
    then have jb: "\<bar>j - 3442237 / 2\<bar> * 2 ^ 30 \<le> 2 ^ 53" by simp
    show ?thesis by (rule that [OF jk _ _ jb]) simp_all
  next
    case False
    have "2 ^ 21 \<le> \<bar>q + 4598321 / 2\<bar>" using e' v by simp
    from fl.rnd_fraction [OF this, of 31] obtain k where jk: "j = of_int k / 2 ^ 31" by (auto simp: jq)
    have "\<bar>j - 3442237 / 2\<bar> \<le> 2 ^ 22" using e' v False by (simp add: abs_le_iff)
    then have jb: "\<bar>j - 3442237 / 2\<bar> * 2 ^ 31 \<le> 2 ^ 53" by simp
    show ?thesis by (rule that [OF jk _ _ jb]) simp_all
  qed
  define m where "m = k - 3442237 * 2 ^ (b - 1)"
  have "(2 :: rat) ^ b = 2 * 2 ^ (b - 1)" using k(3) by (cases b) auto
  then have m: "j - 3442237 / 2 = of_int m / 2 ^ b" by (simp add: k(1) m_def diff_divide_distrib)
  have "(of_int \<bar>m\<bar> :: rat) \<le> of_int (2 ^ 53)" using k(4) by (simp add: m abs_divide)
  then have "\<bar>m\<bar> \<le> 2 ^ 53" by (simp only: of_int_le_iff)
  then have x: "fl (j - 3442237 / 2) = j - 3442237 / 2" unfolding m by (rule fl.rnd_dyadic)
  have "(2 :: rat) ^ 32 = 2 ^ b * 2 ^ (32 - b)" using k(2) by (simp flip: power_add)
  then have "j - 3442237 / 2 = of_int (m * 2 ^ (32 - b)) / 2 ^ 32" by (simp only: m) (simp add: field_simps)
  moreover have "\<bar>j - 3442237 / 2 - (v + 578042)\<bar> \<le> 1 / 2 ^ 29" using e(1) by (simp add: algebra_simps)
  ultimately show thesis using x by (intro that [of "m * 2 ^ (32 - b)"]) (simp_all only: j_def v_def)
qed

subsection \<open>computeDaytime\<close>

lemma civil_day_next_month:
  assumes "1 \<le> m" "m < 12"
  shows "civil_day y (m + 1) 1 = civil_day y m (month_days y m) + 1"
proof -
  have "[1..m] = [1..m - 1] @ [m]" using assms upto_rec2 [of 1 m] by simp
  then show ?thesis by (simp add: civil_day_def)
qed

lemma civil_day_next_year: "civil_day (y + 1) 1 1 = civil_day y 12 31 + 1"
  using leap_days_step [of y] by (simp add: civil_day_def month_days_def upto.simps)

lemma month_days_bounds: "28 \<le> month_days y m" "month_days y m \<le> 31"
  by (simp_all add: month_days_def)

lemma civil_day_shift: "civil_day y m (d + k) = civil_day y m d + k"
  by (simp add: civil_day_def)

lemma valid_dateD:
  assumes "valid_date y m d"
  shows "1 \<le> m" "m \<le> 12" "1 \<le> d" "d \<le> month_days y m" "d \<le> 31"
  using assms month_days_bounds [of y m] by (auto simp: valid_date_def)

lemma next_day_correct:
  assumes v: "valid_date (dt_year d) (dt_month d) (dt_day d)" and y: "0 \<le> dt_year d" "dt_year d < 12000"
  obtains y' m' d' where "next_day d = Inr (d\<lparr>dt_year := y', dt_month := m', dt_day := d'\<rparr>)"
    "valid_date y' m' d'" "civil_day y' m' d' = civil_day (dt_year d) (dt_month d) (dt_day d) + 1"
proof -
  note V = valid_dateD [OF v]
  consider "dt_day d < month_days (dt_year d) (dt_month d)" | "dt_day d = month_days (dt_year d) (dt_month d)" "dt_month d < 12"
    | "dt_day d = 31" "dt_month d = 12"
    using V by (fastforce simp: month_days_def)
  then show thesis
  proof cases
    case 1
    then show ?thesis using V
      by (intro that [where y' = "dt_year d" and m' = "dt_month d" and d' = "dt_day d + 1"])
        (simp_all add: next_day_def daysOfMonth_eq valid_date_def civil_day_shift)
  next
    case 2
    then show ?thesis using V month_days_bounds [of "dt_year d" "dt_month d + 1"]
      by (intro that [where y' = "dt_year d" and m' = "dt_month d + 1" and d' = 1])
        (simp_all add: next_day_def daysOfMonth_eq valid_date_def civil_day_next_month)
  next
    case 3
    then show ?thesis using V y civil_day_next_year [of "dt_year d"]
      by (intro that [where y' = "dt_year d + 1" and m' = 1 and d' = 1])
        (simp_all add: next_day_def daysOfMonth_eq valid_date_def month_days_def)
  qed
qed

lemma previous_day_correct:
  assumes v: "valid_date (dt_year d) (dt_month d) (dt_day d)" and y: "0 \<le> dt_year d" "dt_year d < 12000"
  obtains y' m' d' where "previous_day d = Inr (d\<lparr>dt_year := y', dt_month := m', dt_day := d'\<rparr>)"
    "valid_date y' m' d'" "civil_day y' m' d' = civil_day (dt_year d) (dt_month d) (dt_day d) - 1"
proof -
  note V = valid_dateD [OF v]
  consider "1 < dt_day d" | "dt_day d = 1" "1 < dt_month d" | "dt_day d = 1" "dt_month d = 1" using V by linarith
  then show thesis
  proof cases
    case 1
    then show ?thesis using V civil_day_shift [of "dt_year d" "dt_month d" "dt_day d" "-1"]
      by (intro that [where y' = "dt_year d" and m' = "dt_month d" and d' = "dt_day d - 1"]) (simp_all add: previous_day_def valid_date_def)
  next
    case 2
    then show ?thesis
      using V month_days_bounds [of "dt_year d" "dt_month d - 1"] civil_day_next_month [of "dt_month d - 1" "dt_year d"]
      by (intro that [where y' = "dt_year d" and m' = "dt_month d - 1" and d' = "month_days (dt_year d) (dt_month d - 1)"])
        (simp_all add: previous_day_def daysOfMonth_eq valid_date_def Let_def)
  next
    case 3
    then show ?thesis using V y civil_day_next_year [of "dt_year d - 1"]
      by (intro that [where y' = "dt_year d - 1" and m' = 12 and d' = 31])
        (simp_all add: previous_day_def daysOfMonth_eq valid_date_def month_days_def)
  qed
qed

lemma sdiv_nonneg: "0 \<le> a \<Longrightarrow> 0 < b \<Longrightarrow> a sdiv b = a div (b :: int)"
  by (cases "a = 0") (simp_all add: signed_divide_int_def)

lemma smod_nonneg: "0 \<le> a \<Longrightarrow> 0 < b \<Longrightarrow> a smod b = a mod (b :: int)"
  by (cases "a = 0") (simp_all add: signed_modulo_int_def)

lemma span_part:
  assumes u: "0 \<le> u" and k: "0 < k" and n: "0 < n" "n \<le> 1000" and K: "K = 10 * k"
  shows "to_int32 ((u sdiv 10 sdiv k) smod n) = u div K mod n"
proof -
  have a: "u sdiv 10 = u div 10" using u by (intro sdiv_nonneg) simp_all
  have b: "u div 10 sdiv k = u div 10 div k" using u k by (intro sdiv_nonneg) (simp_all add: pos_imp_zdiv_nonneg_iff)
  have c: "u div 10 div k = u div (10 * k)" using k by (intro zdiv_zmult2_eq [symmetric]) simp
  have d: "u div (10 * k) smod n = u div (10 * k) mod n"
    using u k n by (intro smod_nonneg) (simp_all add: pos_imp_zdiv_nonneg_iff)
  have e: "to_int32 (u div (10 * k) mod n) = u div (10 * k) mod n"
    using n(2) pos_mod_sign [OF n(1), of "u div (10 * k)"] pos_mod_bound [OF n(1), of "u div (10 * k)"]
    by (intro to_int32_small) (unfold b32_numeral, linarith+)
  show ?thesis unfolding a b c d e K ..
qed

lemma span_fields:
  assumes u: "0 \<le> u"
  shows "span_hours (u sdiv 10) = u div 36000000000 mod 24" "span_minutes (u sdiv 10) = u div 600000000 mod 60"
    "span_seconds (u sdiv 10) = u div 10000000 mod 60" "span_milliseconds (u sdiv 10) = u div 10000 mod 1000"
    "span_microseconds (u sdiv 10) = u div 10 mod 1000"
proof -
  show "span_hours (u sdiv 10) = u div 36000000000 mod 24"
    unfolding span_hours_def by (rule span_part [OF u]) (simp_all add: span_units)
  show "span_minutes (u sdiv 10) = u div 600000000 mod 60"
    unfolding span_minutes_def by (rule span_part [OF u]) (simp_all add: span_units)
  show "span_seconds (u sdiv 10) = u div 10000000 mod 60"
    unfolding span_seconds_def by (rule span_part [OF u]) (simp_all add: span_units)
  show "span_milliseconds (u sdiv 10) = u div 10000 mod 1000"
    unfolding span_milliseconds_def by (rule span_part [OF u]) (simp_all add: span_units)
  have "to_int32 (u sdiv 10 sdiv 1 smod 1000) = u div 10 mod 1000" by (rule span_part [OF u]) simp_all
  then show "span_microseconds (u sdiv 10) = u div 10 mod 1000"
    unfolding span_microseconds_def int_sdiv_simps(1) .
qed

subsection \<open>The fields of a time\<close>

text \<open>The fields a time must have: the date of its day and the parts of its time of day.\<close>

definition fields_of_utc :: "int \<Rightarrow> date_time" where
  "fields_of_utc u =
     (let (y, m, d) = greg_date (u div utc_day + utc_zero)
      in \<lparr>dt_utcTime = u, dt_year = y, dt_month = m, dt_day = d,
          dt_hour = u div 36000000000 mod 24, dt_minute = u div 600000000 mod 60,
          dt_second = u div 10000000 mod 60, dt_millisecond = u div 10000 mod 1000,
          dt_microsecond = u div 10 mod 1000\<rparr>)"

text \<open>
  How the rounded Julian day can be off: its day number is that of the time or one beside it, and
  the hour it gives tells which.
\<close>

lemma rounding_cases:
  fixes Z f z k h :: int
  assumes f: "0 \<le> f" "f < utc_day" and k: "0 \<le> k" "k < b32"
    and e: "\<bar>(z * b32 + k) * utc_day - (Z * utc_day + f) * b32\<bar> \<le> 8 * utc_day"
    and h: "h \<le> 23" "h = 24 * k div b32 \<or> h = 24 * k div b32 + 1 \<and> 60 * (24 * k mod b32) div b32 = 59"
  shows "z = Z \<and> \<not> (f div 36000000000 = 23 \<and> h = 0) \<and> \<not> (f div 36000000000 = 0 \<and> h = 23) \<or>
         z = Z + 1 \<and> f div 36000000000 = 23 \<and> h = 0 \<or> z = Z - 1 \<and> f div 36000000000 = 0 \<and> h = 23"
proof -
  define H q r m where "H = f div 36000000000" and "q = 24 * k div b32" and "r = 24 * k mod b32"
    and "m = 60 * r div b32"
  define w where "w = z - Z"
  have "(z * b32 + k) * utc_day - (Z * utc_day + f) * b32 =
        3710851743744000000000 * w + utc_day * k - 4294967296 * f"
    by (simp add: w_def algebra_simps)
  then have E: "3710851743744000000000 * w + utc_day * k - 4294967296 * f \<le> 8 * utc_day"
    "4294967296 * f - (3710851743744000000000 * w + utc_day * k) \<le> 8 * utc_day"
    using e by (simp_all only: abs_le_iff minus_diff_eq)
  have H: "36000000000 * H \<le> f" "f < 36000000000 * H + 36000000000"
    using div_bounds [of 36000000000 f] by (simp_all add: H_def)
  have b0: "0 < b32" by simp
  have q: "24 * k = b32 * q + r" "0 \<le> r" "r < b32" by (simp_all only: q_def r_def mult_div_mod_eq pos_mod_sign [OF b0] pos_mod_bound [OF b0])
  have m: "b32 * m \<le> 60 * r" "60 * r < b32 * m + b32" unfolding m_def by (rule div_bounds [OF b0])+
  have h': "h = q \<or> h = q + 1 \<and> m = 59" using h(2) unfolding q_def m_def r_def .
  note N = b32_numeral
  have "w \<le> 1" "-1 \<le> w" using E f k unfolding N by linarith+
  then consider "w = 0" | "w = 1" | "w = -1" by linarith
  then show ?thesis
  proof cases
    case 1
    then have E1: "utc_day * k - 4294967296 * f \<le> 8 * utc_day" "4294967296 * f - utc_day * k \<le> 8 * utc_day"
      using E by simp_all
    have "\<not> (H = 23 \<and> h = 0)"
    proof
      assume "H = 23 \<and> h = 0"
      moreover from this h' q have "q \<le> 0" by auto
      ultimately show False using E1 H q unfolding N by linarith
    qed
    moreover have "\<not> (H = 0 \<and> h = 23)"
    proof
      assume "H = 0 \<and> h = 23"
      moreover from this h' have "22 \<le> q" by auto
      ultimately show False using E1 H q unfolding N by linarith
    qed
    ultimately show ?thesis using 1 unfolding H_def by (simp add: w_def)
  next
    case 2
    then have E1: "3710851743744000000000 + utc_day * k - 4294967296 * f \<le> 8 * utc_day" using E(1) by simp
    have k8: "k < 9" "utc_day - 2000 \<le> f" using E1 f k unfolding N by linarith+
    then have q0: "q = 0" using q k unfolding N by linarith
    then have "m < 59" using q m k8 unfolding N by linarith
    then have "h = 0" using q0 h' by auto
    moreover have "H = 23" using H f k8 by linarith
    ultimately show ?thesis using 2 unfolding H_def by (simp add: w_def)
  next
    case 3
    then have E1: "4294967296 * f + 3710851743744000000000 - utc_day * k \<le> 8 * utc_day" using E(2) by simp
    have k8: "b32 - 9 < k" "f < 2000" using E1 f k unfolding N by linarith+
    then have q0: "q = 23" using q k unfolding N by linarith
    then have "h = 23" using h' h(1) by auto
    moreover have "H = 0" using H f k8 by linarith
    ultimately show ?thesis using 3 unfolding H_def by (simp add: w_def)
  qed
qed

lemma recompute_step:
  assumes d: "dt_utcTime d = u" and c: "computeGregorian (julianDay d) d = Inr d1"
    and d1: "d1 = d\<lparr>dt_year := y, dt_month := m, dt_day := dy, dt_hour := h, dt_minute := mi,
       dt_second := s, dt_millisecond := ms, dt_microsecond := us\<rparr>"
    and u: "0 \<le> u" and v: "valid_date y m dy" and y: "0 \<le> y" "y < 12000" and g: "civil_day y m dy + 306 = z"
    and z: "z = Z \<and> \<not> (H = 23 \<and> h = 0) \<and> \<not> (H = 0 \<and> h = 23) \<or>
         z = Z + 1 \<and> H = 23 \<and> h = 0 \<or> z = Z - 1 \<and> H = 0 \<and> h = 23"
    and H: "H = u div 36000000000 mod 24" and Z: "Z = u div utc_day + utc_zero"
  shows "recompute d = Inr (fields_of_utc u)"
proof -
  note sp = span_fields [OF u]
  have D: "dt_year d1 = y" "dt_month d1 = m" "dt_day d1 = dy" by (simp_all add: d1)
  have fin: "computeDaytime d1 = Inr (fields_of_utc u)"
    if c: "(if H = 23 \<and> h = 0 then previous_day d1 else if H = 0 \<and> h = 23 then next_day d1 else Inr d1) = Inr x"
      and dx: "x = d1\<lparr>dt_year := y', dt_month := m', dt_day := d'\<rparr>"
      and v': "valid_date y' m' d'" and c': "civil_day y' m' d' + 306 = Z" for x y' m' d'
  proof -
    have gd: "greg_date (u div utc_day + utc_zero) = (y', m', d')"
      using greg_date_of_civil [OF v'] c' Z by simp
    have sm: "to_short (a mod n) = a mod n" if "0 < n" "n \<le> 1000" for a n :: int
      using pos_mod_sign [OF that(1), of a] pos_mod_bound [OF that(1), of a] that(2) by simp
    have du: "dt_utcTime d1 = u" "dt_hour d1 = h" using d d1 by simp_all
    show ?thesis
      unfolding computeDaytime_def du Let_def sp H [symmetric] c bind_r_simps
      using d by (simp add: sp sm H dx d1 fields_of_utc_def gd)
  qed
  have "computeDaytime d1 = Inr (fields_of_utc u)"
    using z
  proof (elim disjE conjE)
    assume "z = Z" "\<not> (H = 23 \<and> h = 0)" "\<not> (H = 0 \<and> h = 23)"
    then show ?thesis using v g by (intro fin [where x = d1 and y' = y and m' = m and d' = dy]) (auto simp: d1)
  next
    assume a: "z = Z + 1" "H = 23" "h = 0"
    obtain y' m' d' where p: "previous_day d1 = Inr (d1\<lparr>dt_year := y', dt_month := m', dt_day := d'\<rparr>)"
      "valid_date y' m' d'" "civil_day y' m' d' = civil_day y m dy - 1"
      by (rule previous_day_correct [of d1, unfolded D, OF v y])
    from p(3) a g have "civil_day y' m' d' + 306 = Z" by linarith
    from fin [OF _ refl p(2) this] p(1) a show ?thesis by simp
  next
    assume a: "z = Z - 1" "H = 0" "h = 23"
    obtain y' m' d' where p: "next_day d1 = Inr (d1\<lparr>dt_year := y', dt_month := m', dt_day := d'\<rparr>)"
      "valid_date y' m' d'" "civil_day y' m' d' = civil_day y m dy + 1"
      by (rule next_day_correct [of d1, unfolded D, OF v y])
    from p(3) a g have "civil_day y' m' d' + 306 = Z" by linarith
    from fin [OF _ refl p(2) this] p(1) a show ?thesis by simp
  qed
  then show ?thesis by (simp add: recompute_def c)
qed

lemma recompute_exact:
  assumes d: "dt_utcTime d = u" and u: "0 \<le> u" "u < utc_limit"
  shows "recompute d = Inr (fields_of_utc u)"
proof -
  obtain n where n: "fl (toJulianDay_utc u - 3442237 / 2) = of_int n / 2 ^ 32"
    "\<bar>of_int n / 2 ^ 32 - (of_int u / 864000000000 + 578042)\<bar> \<le> (1 / 2 ^ 29 :: rat)"
    by (rule julian_day_number [OF u])
  define z k Z f where "z = n div b32" and "k = n mod b32" and "Z = u div utc_day + utc_zero" and "f = u mod utc_day"
  have nz: "n = z * b32 + k" unfolding z_def k_def by (rule div_mult_mod_eq [symmetric])
  have k: "0 \<le> k" "k < b32" by (simp_all add: k_def)
  have fb: "0 \<le> f" "f < utc_day" by (simp_all add: f_def)
  have uz: "u + utc_zero * utc_day = Z * utc_day + f" by (simp add: Z_def f_def algebra_simps)
  have "\<bar>of_int n * 864000000000 - (of_int u + 578042 * 864000000000) * 2 ^ 32\<bar> \<le> (8 * 864000000000 :: rat)"
    using n(2) unfolding abs_le_iff by (simp add: field_simps)
  then have "of_int \<bar>n * utc_day - (u + utc_zero * utc_day) * b32\<bar> \<le> (of_int (8 * utc_day) :: rat)" by simp
  then have e: "\<bar>(z * b32 + k) * utc_day - (Z * utc_day + f) * b32\<bar> \<le> 8 * utc_day"
    unfolding of_int_le_iff nz uz .
  have Zb: "utc_zero \<le> Z" "Z < 3652366" using u by (simp_all add: Z_def pos_imp_zdiv_nonneg_iff div_less_bound)
  have b0: "0 < b32" by simp
  have "Z - 1 \<le> z" "z \<le> Z + 1"
    using e fb k unfolding abs_le_iff by (simp_all add: algebra_simps)
  then have z: "0 < z" "z < 4000000" using Zb by linarith+
  obtain y m dy where g: "greg_date z = (y, m, dy)" by (cases "greg_date z") auto
  have "fl (julianDay d - 3442237 / 2) = of_int z + of_int k / 2 ^ 32"
    unfolding julianDay_def d n(1) nz by (simp add: add_divide_distrib)
  then obtain h mi s ms us where c:
    "computeGregorian (julianDay d) d = Inr (d\<lparr>dt_year := y, dt_month := m, dt_day := dy, dt_hour := h,
       dt_minute := mi, dt_second := s, dt_millisecond := ms, dt_microsecond := us\<rparr>)" and h:
    "h \<le> 23" "h = 24 * k div b32 \<or> h = 24 * k div b32 + 1 \<and> 60 * (24 * k mod b32) div b32 = 59"
    by (rule computeGregorian_exact [OF _ z k g])
  have "f = 36000000000 * (u div 36000000000 mod 24) + u mod 36000000000"
    using zmod_zmult2_eq [of 24 u 36000000000] by (simp add: f_def)
  then have "f div 36000000000 = u div 36000000000 mod 24"
    using pos_mod_bound [of 36000000000 u] pos_mod_sign [of 36000000000 u] by (intro div_unique_bounds) simp_all
  note cases = rounding_cases [OF fb k e h, unfolded this]
  have "0 \<le> y" "y < 12000" using g greg_ranges [OF z] by (auto simp: greg_date_def split: if_splits)
  then show ?thesis
    by (rule recompute_step [OF d c refl u(1) greg_date_valid [OF g] _ _ greg_date_civil [OF g] cases refl Z_def])
qed

end
