(* ===== verification/Date_Fields.thy ===== *)
theory Date_Fields
  imports Date_Exact
begin

text \<open>
  Building a \<^verbatim>\<open>DateTime\<close> from its fields and back: the constructor computes the time of the
  fields exactly (\<open>dt_make_exact\<close>), and the fields recomputed from that time are the same ones.
  The properties of the class follow: which times have well-formed fields, the round trip, the
  number of the week, and the arithmetic on times. Two lemmas record where the class fails:
  before the calendar reform the hours are negative, and the day of the week can be a day ahead
  just before midnight.
\<close>

subsection \<open>From fields to the time\<close>

lemma julian_lookup_eq:
  assumes "3 \<le> m" "m \<le> 14"
  shows "julian_lookup ! nat m = (153 * m - 457) div 5 \<and> 0 \<le> (153 * m - 457) div 5 \<and> (153 * m - 457) div 5 \<le> 337"
proof -
  have "list_all (\<lambda>m. julian_lookup ! nat m = (153 * m - 457) div 5 \<and> 0 \<le> (153 * m - 457) div 5 \<and> (153 * m - 457) div 5 \<le> 337) [3..14]"
    by code_simp
  then show ?thesis using assms by (simp only: list_all_iff set_upto) simp
qed

lemma fl_add_int: "\<bar>a + b\<bar> \<le> 2 ^ 53 \<Longrightarrow> fl (of_int a + of_int b) = of_int (a + b)"
  using fl_int [of "a + b"] by simp

lemma fl_diff_int: "\<bar>a - b\<bar> \<le> 2 ^ 53 \<Longrightarrow> fl (of_int a - of_int b) = of_int (a - b)"
  using fl_int [of "a - b"] by simp

lemma fl_add_half:
  assumes "\<bar>n\<bar> \<le> 2 ^ 40"
  shows "fl (of_int n + 3442237 / 2) = of_int n + 3442237 / 2"
    "fl (of_int n + 3442237 / 2 - 4598321 / 2) = of_int (n - 578042)"
proof -
  have "\<bar>2 * n + 3442237\<bar> \<le> 2 ^ 53" using assms by simp
  then show "fl (of_int n + 3442237 / 2) = of_int n + 3442237 / 2"
    using fl.rnd_dyadic [of "2 * n + 3442237" 1] by (simp add: add_divide_distrib)
  have "of_int n + 3442237 / 2 - 4598321 / 2 = (of_int (n - 578042) :: rat)" by simp
  then show "fl (of_int n + 3442237 / 2 - 4598321 / 2) = of_int (n - 578042)" using assms fl_int [of "n - 578042"] by simp
qed

lemma toJulianDay_exact:
  assumes v: "valid_date y m d" and y: "0 \<le> y" "y \<le> 9999"
  shows "toJulianDay y m d 0 0 0 0 0 = Inr (of_int (civil_day y m d + 306) + 3442237 / 2)"
proof -
  define Y M where "Y = (if m < 3 then y - 1 else y)" and "M = (if m < 3 then m + 12 else m)"
  define p a b c where "p = (153 * M - 457) div 5" and "a = Y div 4" and "b = Y div 100" and "c = Y div 400"
  note V = valid_dateD [OF v]
  have M: "3 \<le> M" "M \<le> 14" using V by (auto simp: M_def)
  have Y: "-1 \<le> Y" "Y \<le> 9999" using y by (auto simp: Y_def)
  have p: "julian_lookup ! nat M = p" "0 \<le> p" "p \<le> 337" using julian_lookup_eq [OF M] by (simp_all only: p_def)
  have f: "floor_d (fl (of_int Y / 4)) = of_int a" "floor_d (fl (of_int Y / 100)) = of_int b"
    "floor_d (fl (of_int Y / 400)) = of_int c"
    using Y floor_d_quotient [of 4 Y] floor_d_quotient [of 100 Y] floor_d_quotient [of 400 Y] by (simp_all add: a_def b_def c_def)
  have q: "-1 \<le> a" "a \<le> 9999" "-1 \<le> b" "b \<le> 9999" "-1 \<le> c" "c \<le> 9999"
    using Y div_bounds [of 4 Y] div_bounds [of 100 Y] div_bounds [of 400 Y]
    by (simp_all add: a_def [symmetric] b_def [symmetric] c_def [symmetric])
  have dd: "fl (of_int d + fl (fl (fl (fl (fl (of_int ((0 * 60 + 0) * 60 + 0) * 1000) + of_int 0) * 1000) + of_int 0) / 86400000000)) = of_int d"
    using V by (simp add: fl_def [of 0])
  have "civil_day y m d + 306 = d + p + 365 * Y + a - b + c"
    using march_day_civil [of m y d] V by (simp add: march_day_def leap_days_def p_def a_def b_def c_def Y_def M_def)
  moreover have s: "fl (of_int d + of_int p) = of_int (d + p)" "fl (of_int (d + p) + of_int (365 * Y)) = of_int (d + p + 365 * Y)"
    "fl (of_int (d + p + 365 * Y) + of_int a) = of_int (d + p + 365 * Y + a)"
    "fl (of_int (d + p + 365 * Y + a) - of_int b) = of_int (d + p + 365 * Y + a - b)"
    "fl (of_int (d + p + 365 * Y + a - b) + of_int c) = of_int (d + p + 365 * Y + a - b + c)"
    by (intro fl_add_int fl_diff_int; use V p Y q in simp)+
  moreover have "fl (of_int (d + p + 365 * Y + a - b + c) + 3442237 / 2) = of_int (d + p + 365 * Y + a - b + c) + 3442237 / 2"
    by (intro fl_add_half) (use V p Y q in simp)
  moreover have "\<not> (M < 0 \<or> 14 < M)" using M by simp
  ultimately show ?thesis
    unfolding toJulianDay_def dd Let_def Y_def [symmetric] M_def [symmetric] p(1) f by (simp only: s if_False)
qed

lemma toUtcTime_exact:
  assumes "\<bar>n\<bar> \<le> 2 ^ 23"
  shows "toUtcTime (of_int n + 3442237 / 2) = Inr ((n - utc_zero) * utc_day)"
proof -
  have h: "fl (of_int n + 3442237 / 2 - 4598321 / 2) = of_int (n - utc_zero)"
    using assms by (intro fl_add_half) simp
  have "\<bar>(n - utc_zero) * 52734375\<bar> \<le> 2 ^ 53" using assms by simp
  then have "fl (of_int ((n - utc_zero) * 52734375) * 2 powi 14) = of_int ((n - utc_zero) * 52734375) * 2 powi 14"
    by (rule fl_exact)
  then have "fl (of_int (n - utc_zero) * 864000000000) = of_int ((n - utc_zero) * utc_day)"
    by (simp add: power_int_numeral algebra_simps)
  moreover have "- 8388608 \<le> n" "n \<le> 8388608" using assms by (simp_all add: abs_le_iff)
  then have "chk64 ((n - utc_zero) * utc_day) = Inr ((n - utc_zero) * utc_day)"
    unfolding chk64_def by (intro if_P) simp
  ultimately show ?thesis unfolding toUtcTime_def h int64_of_double_def by (simp only: trunc_d_int)
qed

text \<open>The time of day in units of 100 ns.\<close>

definition day_part :: "int \<Rightarrow> int \<Rightarrow> int \<Rightarrow> int \<Rightarrow> int \<Rightarrow> int" where
  "day_part h mi s ms us = 36000000000 * h + 600000000 * mi + 10000000 * s + 10000 * ms + 10 * us"

lemma isValid_iff:
  "isValid y m d h mi s ms us \<longleftrightarrow> 0 \<le> y \<and> y \<le> 9999 \<and> valid_date y m d \<and> 0 \<le> h \<and> h \<le> 23 \<and> 0 \<le> mi \<and> mi \<le> 59 \<and>
     0 \<le> s \<and> s \<le> 59 \<and> 0 \<le> ms \<and> ms \<le> 999 \<and> 0 \<le> us \<and> us \<le> 999"
  by (auto simp: isValid_def valid_date_def daysOfMonth_eq)

lemma leap_days_mono: "x \<le> y \<Longrightarrow> leap_days x \<le> leap_days y"
proof (induction y rule: int_ge_induct)
  case (step i)
  then show ?case using leap_days_step [of "i + 1"] by simp
qed simp

lemma year_day_bounds:
  assumes "valid_date y m d"
  shows "365 * (y - 1) + leap_days (y - 1) + 1 \<le> civil_day y m d" "civil_day y m d \<le> 365 * y + leap_days y"
proof -
  note V = valid_dateD [OF assms]
  note c = month_cases [OF V(1,2)]
  show "365 * (y - 1) + leap_days (y - 1) + 1 \<le> civil_day y m d"
    using c V by (elim disjE) (simp_all add: civil_day_def month_days_def upto.simps)
  show "civil_day y m d \<le> 365 * y + leap_days y"
    using c V(4) leap_days_step [of y]
    by (elim disjE) (simp_all add: civil_day_def month_days_def upto.simps split: if_splits)
qed

lemma civil_day_bounds:
  assumes v: "valid_date y m d" and y: "0 \<le> y" "y \<le> 9999"
  shows "-365 \<le> civil_day y m d" "civil_day y m d \<le> 3652059"
proof -
  have y': "-1 \<le> y - 1" using y by simp
  define a b where "a = leap_days (y - 1)" and "b = leap_days y"
  have "leap_days (-1) = -1" "leap_days 9999 = 2424" by (simp_all add: leap_days_def)
  then have "-1 \<le> a" "b \<le> 2424"
    using leap_days_mono [OF y'] leap_days_mono [OF y(2)] by (simp_all add: a_def b_def)
  then show "-365 \<le> civil_day y m d" "civil_day y m d \<le> 3652059"
    using year_day_bounds [OF v, folded a_def b_def] y by simp_all
qed

lemma day_part_bounds:
  assumes "0 \<le> h" "h \<le> 23" "0 \<le> mi" "mi \<le> 59" "0 \<le> s" "s \<le> 59" "0 \<le> ms" "ms \<le> 999" "0 \<le> us" "us \<le> 999"
  shows "0 \<le> day_part h mi s ms us" "day_part h mi s ms us < utc_day"
  using assms by (simp_all add: day_part_def)

text \<open>The time of valid fields: whole days since the 15th of October 1582, and the time of day.\<close>

definition utc_of_fields :: "int \<Rightarrow> int \<Rightarrow> int \<Rightarrow> int \<Rightarrow> int \<Rightarrow> int \<Rightarrow> int \<Rightarrow> int \<Rightarrow> int" where
  "utc_of_fields y m d h mi s ms us = (civil_day y m d + 306 - utc_zero) * utc_day + day_part h mi s ms us"

lemma dt_make_exact:
  assumes v: "isValid y m d h mi s ms us"
  shows "dt_make y m d h mi s ms us =
    Inr \<lparr>dt_utcTime = utc_of_fields y m d h mi s ms us, dt_year = y, dt_month = m, dt_day = d,
         dt_hour = h, dt_minute = mi, dt_second = s, dt_millisecond = ms, dt_microsecond = us\<rparr>"
proof -
  have V: "valid_date y m d" "0 \<le> y" "y \<le> 9999" using v by (simp_all add: isValid_iff)
  note B = civil_day_bounds [OF V] and D = valid_dateD [OF V(1)]
  note j = toJulianDay_exact [OF V]
  have "\<bar>civil_day y m d + 306\<bar> \<le> 2 ^ 23" using B by simp
  note t = toUtcTime_exact [OF this]
  have e: "10 * (h * HOURS + mi * MINUTES + s * SECONDS + ms * MILLISECONDS + us) = day_part h mi s ms us"
    by (simp add: span_units day_part_def)
  have "0 \<le> day_part h mi s ms us" "day_part h mi s ms us < utc_day"
    using v by (intro day_part_bounds; simp add: isValid_iff)+
  then have c: "chk64 ((civil_day y m d + 306 - utc_zero) * utc_day + day_part h mi s ms us) = Inr (utc_of_fields y m d h mi s ms us)"
    unfolding chk64_def utc_of_fields_def using B by (intro if_P) simp
  have s: "to_short y = y" "to_short m = m" "to_short d = d" "to_short h = h" "to_short mi = mi" "to_short s = s"
    "to_short ms = ms" "to_short us = us"
    using v D by (simp_all add: isValid_iff)
  show ?thesis unfolding dt_make_def j bind_r_simps t e c s using v by simp
qed

lemma fields_of_utc_make:
  assumes v: "isValid y m d h mi s ms us"
  shows "fields_of_utc (utc_of_fields y m d h mi s ms us) =
    \<lparr>dt_utcTime = utc_of_fields y m d h mi s ms us, dt_year = y, dt_month = m, dt_day = d,
     dt_hour = h, dt_minute = mi, dt_second = s, dt_millisecond = ms, dt_microsecond = us\<rparr>"
proof -
  define u n where "u = utc_of_fields y m d h mi s ms us" and "n = civil_day y m d + 306 - utc_zero"
  have R: "0 \<le> h" "h \<le> 23" "0 \<le> mi" "mi \<le> 59" "0 \<le> s" "s \<le> 59" "0 \<le> ms" "ms \<le> 999" "0 \<le> us" "us \<le> 999"
    using v by (simp_all add: isValid_iff)
  have u: "u = n * utc_day + day_part h mi s ms us" by (simp add: u_def n_def utc_of_fields_def)
  have q: "u div utc_day = n" "u div 36000000000 = 24 * n + h" "u div 600000000 = 60 * (24 * n + h) + mi"
    "u div 10000000 = 60 * (60 * (24 * n + h) + mi) + s"
    "u div 10000 = 1000 * (60 * (60 * (24 * n + h) + mi) + s) + ms"
    "u div 10 = 1000 * (1000 * (60 * (60 * (24 * n + h) + mi) + s) + ms) + us"
    by (rule div_unique_bounds; use R in \<open>unfold u day_part_def, simp add: algebra_simps\<close>)+
  have g: "greg_date (n + utc_zero) = (y, m, d)" 
    using greg_date_of_civil [of y m d] v by (simp add: n_def isValid_iff add.commute)
  have md: "(k * a + b) mod k = b" if "0 \<le> b" "b < k" for k a b :: int using that by simp
  have mods: "(24 * n + h) mod 24 = h" "(60 * (24 * n + h) + mi) mod 60 = mi"
    "(60 * (60 * (24 * n + h) + mi) + s) mod 60 = s"
    "(1000 * (60 * (60 * (24 * n + h) + mi) + s) + ms) mod 1000 = ms"
    "(1000 * (1000 * (60 * (60 * (24 * n + h) + mi) + s) + ms) + us) mod 1000 = us"
    by (rule md; use R in simp)+
  show ?thesis unfolding u_def [symmetric] fields_of_utc_def q g mods by simp
qed

text \<open>A time is the time of its fields, up to the 100 ns the fields do not hold.\<close>

lemma utc_of_fields_of_utc:
  assumes f: "fields_of_utc u = d"
  shows "utc_of_fields (dt_year d) (dt_month d) (dt_day d) (dt_hour d) (dt_minute d) (dt_second d)
           (dt_millisecond d) (dt_microsecond d) = u - u mod 10"
    "valid_date (dt_year d) (dt_month d) (dt_day d)"
proof -
  obtain y m dy where g: "greg_date (u div utc_day + utc_zero) = (y, m, dy)"
    by (cases "greg_date (u div utc_day + utc_zero)") auto
  have z: "civil_day y m dy + 306 = u div utc_day + utc_zero" using g by (rule greg_date_civil)
  show "valid_date (dt_year d) (dt_month d) (dt_day d)"
    using greg_date_valid [OF g] f by (auto simp: fields_of_utc_def g)
  have m: "u div K = n * (u div L) + u div K mod n" if "0 < n" "L = K * n" for K n L :: int
    using that by (simp add: zdiv_zmult2_eq)
  have "u div 36000000000 = 24 * (u div utc_day) + u div 36000000000 mod 24"
    "u div 600000000 = 60 * (u div 36000000000) + u div 600000000 mod 60"
    "u div 10000000 = 60 * (u div 600000000) + u div 10000000 mod 60"
    "u div 10000 = 1000 * (u div 10000000) + u div 10000 mod 1000"
    "u div 10 = 1000 * (u div 10000) + u div 10 mod 1000"
    by (rule m; simp)+
  moreover have "u = 10 * (u div 10) + u mod 10" by (rule mult_div_mod_eq [symmetric])
  ultimately have "u = utc_day * (u div utc_day) + day_part (u div 36000000000 mod 24) (u div 600000000 mod 60)
      (u div 10000000 mod 60) (u div 10000 mod 1000) (u div 10 mod 1000) + u mod 10"
    unfolding day_part_def by linarith
  then show "utc_of_fields (dt_year d) (dt_month d) (dt_day d) (dt_hour d) (dt_minute d) (dt_second d)
      (dt_millisecond d) (dt_microsecond d) = u - u mod 10"
    using f z by (auto simp: fields_of_utc_def g utc_of_fields_def)
qed

subsection \<open>Well-formed times\<close>

text \<open>
  A \<^verbatim>\<open>DateTime\<close> whose fields are those of its time, between the calendar reform and the end of
  the year 9999.
\<close>

definition wf_date_time :: "date_time \<Rightarrow> bool" where
  "wf_date_time d \<longleftrightarrow> 0 \<le> dt_utcTime d \<and> dt_utcTime d < utc_limit \<and> fields_of_utc (dt_utcTime d) = d"

lemma fields_of_utc_time [simp]: "dt_utcTime (fields_of_utc u) = u"
  by (simp add: fields_of_utc_def split: prod.splits)

lemma fields_of_utc_parts:
  "dt_hour (fields_of_utc u) = u div 36000000000 mod 24" "dt_minute (fields_of_utc u) = u div 600000000 mod 60"
  "dt_second (fields_of_utc u) = u div 10000000 mod 60" "dt_millisecond (fields_of_utc u) = u div 10000 mod 1000"
  "dt_microsecond (fields_of_utc u) = u div 10 mod 1000"
  by (simp_all add: fields_of_utc_def split: prod.splits)

lemma recompute_wf:
  assumes "0 \<le> dt_utcTime d" "dt_utcTime d < utc_limit"
  shows "recompute d = Inr (fields_of_utc (dt_utcTime d))" "wf_date_time (fields_of_utc (dt_utcTime d))"
  using recompute_exact [OF refl assms] assms by (simp_all add: wf_date_time_def)

lemma wf_year:
  assumes "wf_date_time d"
  shows "1582 \<le> dt_year d" "dt_year d \<le> 9999"
proof -
  have u: "0 \<le> dt_utcTime d" "dt_utcTime d < utc_limit" "fields_of_utc (dt_utcTime d) = d"
    using assms by (simp_all add: wf_date_time_def)
  obtain y m dy where g: "greg_date (dt_utcTime d div utc_day + utc_zero) = (y, m, dy)"
    by (cases "greg_date (dt_utcTime d div utc_day + utc_zero)") auto
  have y: "dt_year d = y" by (subst u(3) [symmetric]) (simp add: fields_of_utc_def g)
  have "0 \<le> dt_utcTime d div utc_day" "dt_utcTime d div utc_day < 3074324"
    using u by (simp_all add: pos_imp_zdiv_nonneg_iff div_less_bound)
  then have z: "577736 \<le> civil_day y m dy" "civil_day y m dy \<le> 3652059"
    using greg_date_civil [OF g] by simp_all
  have b: "365 * (y - 1) + leap_days (y - 1) + 1 \<le> civil_day y m dy" "civil_day y m dy \<le> 365 * y + leap_days y"
    using year_day_bounds [OF greg_date_valid [OF g]] by simp_all
  have "\<not> y \<le> 1581"
  proof
    assume "y \<le> 1581"
    moreover from this have "leap_days y \<le> leap_days 1581" by (rule leap_days_mono)
    ultimately show False using z b by (simp add: leap_days_def [of 1581])
  qed
  moreover have "\<not> 10000 \<le> y"
  proof
    assume "10000 \<le> y"
    moreover from this have "leap_days 9999 \<le> leap_days (y - 1)" by (intro leap_days_mono) simp
    ultimately show False using z b by (simp add: leap_days_def [of 9999])
  qed
  ultimately show "1582 \<le> dt_year d" "dt_year d \<le> 9999" using y by simp_all
qed

lemma wf_isValid:
  assumes "wf_date_time d"
  shows "isValid (dt_year d) (dt_month d) (dt_day d) (dt_hour d) (dt_minute d) (dt_second d) (dt_millisecond d) (dt_microsecond d)"
proof -
  have f: "fields_of_utc (dt_utcTime d) = d" using assms by (simp add: wf_date_time_def)
  have t: "0 \<le> a mod k" "a mod k \<le> k - 1" if "0 < k" for a k :: int using that by simp_all
  have "0 \<le> dt_hour d" "dt_hour d \<le> 24 - 1" "0 \<le> dt_minute d" "dt_minute d \<le> 60 - 1"
    "0 \<le> dt_second d" "dt_second d \<le> 60 - 1" "0 \<le> dt_millisecond d" "dt_millisecond d \<le> 1000 - 1"
    "0 \<le> dt_microsecond d" "dt_microsecond d \<le> 1000 - 1"
    unfolding fields_of_utc_parts [of "dt_utcTime d", unfolded f] by (rule t, simp)+
  then show ?thesis using utc_of_fields_of_utc(2) [OF f] wf_year [OF assms] by (simp add: isValid_iff)
qed

subsection \<open>The properties\<close>

definition timestamp_min :: int where "timestamp_min = -12219292800000000"
definition timestamp_max :: int where "timestamp_max = 253402300800000000"

lemma sdiv_exact: "k \<noteq> 0 \<Longrightarrow> x * k sdiv k = (x :: int)"
  by (simp add: signed_divide_int_eq_divide_int)

lemma ts_utcTime_range:
  assumes "timestamp_min \<le> ts" "ts < timestamp_max"
  shows "ts_utcTime ts = Inr (ts * 10 + utc_epoch)" "0 \<le> ts * 10 + utc_epoch" "ts * 10 + utc_epoch < utc_limit"
proof -
  have e: "utc_epoch = 122192928000000000" by (simp add: utc_epoch_def push_bit_eq_mult)
  show "0 \<le> ts * 10 + utc_epoch" "ts * 10 + utc_epoch < utc_limit" "ts_utcTime ts = Inr (ts * 10 + utc_epoch)"
    using assms by (simp_all add: e timestamp_min_def timestamp_max_def ts_utcTime_def chk64_def)
qed

text \<open>
  C14 (functional). \<^verbatim>\<open>DateTime(const Timestamp&)\<close> is exact although it goes through doubles: for every timestamp
  between the calendar reform and the year 10000 the object has valid fields, and they stand for
  the timestamp to the microsecond.
\<close>
theorem timestamp_fields_exact:
  assumes "timestamp_min \<le> ts" "ts < timestamp_max"
  shows "\<exists>d. dt_of_timestamp ts = Inr d \<and>
    isValid (dt_year d) (dt_month d) (dt_day d) (dt_hour d) (dt_minute d) (dt_second d) (dt_millisecond d) (dt_microsecond d) \<and>
    utc_of_fields (dt_year d) (dt_month d) (dt_day d) (dt_hour d) (dt_minute d) (dt_second d) (dt_millisecond d) (dt_microsecond d) =
      ts * 10 + utc_epoch \<and> dt_timestamp d = Inr ts"
proof -
  note t = ts_utcTime_range [OF assms]
  let ?d = "fields_of_utc (ts * 10 + utc_epoch)"
  have "dt_of_timestamp ts = Inr ?d"
    using t recompute_wf(1) [of "uninitialised (ts * 10 + utc_epoch)"] by (simp add: dt_of_timestamp_def uninitialised_def)
  moreover have w: "wf_date_time ?d" using t by (simp add: wf_date_time_def)
  moreover have "(ts * 10 + utc_epoch) mod 10 = 0" by (simp add: utc_epoch_def push_bit_eq_mult)
  moreover have "dt_timestamp ?d = Inr ts"
    using assms by (simp add: dt_timestamp_def fromUtcTime_def chk64_def timestamp_min_def timestamp_max_def sdiv_exact)
  ultimately show ?thesis using wf_isValid [OF w] utc_of_fields_of_utc(1) [of "ts * 10 + utc_epoch", OF refl] by auto
qed

theorem timestamp_fields_exact_witness:
  "\<exists>d. dt_of_timestamp 951827696789012 = Inr d \<and> dt_timestamp d = Inr 951827696789012"
  using timestamp_fields_exact [of 951827696789012] by (auto simp: timestamp_min_def timestamp_max_def)

text \<open>
  C32 (roundtrip). A date and time from 15 October 1582 on, given by valid fields up to the year 9999, survives the
  way through the time: the constructor from fields followed by the constructor from the time gives
  back the same fields. (Earlier dates do not: \<open>hours_before_reform\<close>.)
\<close>
theorem datetime_roundtrip:
  assumes v: "isValid y m d h mi s ms us" and u: "0 \<le> utc_of_fields y m d h mi s ms us"
  shows "bind_r (dt_make y m d h mi s ms us) (\<lambda>dt. dt_of_utc (dt_utcTime dt) 0) = dt_make y m d h mi s ms us"
proof -
  let ?u = "utc_of_fields y m d h mi s ms us"
  have V: "valid_date y m d" "0 \<le> y" "y \<le> 9999" using v by (simp_all add: isValid_iff)
  have "0 \<le> day_part h mi s ms us" "day_part h mi s ms us < utc_day"
    using v by (intro day_part_bounds; simp add: isValid_iff)+
  moreover have "(civil_day y m d + 306 - utc_zero) * utc_day \<le> 3074323 * utc_day"
    using civil_day_bounds [OF V] by (intro mult_right_mono) simp_all
  ultimately have l: "?u < utc_limit" unfolding utc_of_fields_def by linarith
  have "recompute (uninitialised ?u) = Inr (fields_of_utc ?u)"
    
    by (rule recompute_exact) (use u l in \<open>simp_all add: uninitialised_def\<close>)
  then show ?thesis using u l by (simp add: dt_make_exact [OF v] fields_of_utc_make [OF v] dt_of_utc_def chk64_def)
qed

theorem datetime_roundtrip_witness:
  "bind_r (dt_make 2016 2 29 23 59 59 999 999) (\<lambda>dt. dt_of_utc (dt_utcTime dt) 0) = dt_make 2016 2 29 23 59 59 999 999"
  by (rule datetime_roundtrip)
    (simp_all add: isValid_iff valid_date_def month_days_def isLeapYear_iff utc_of_fields_def day_part_def
      civil_day_def leap_days_def upto.simps)

text \<open>The operations that add a span compute the time exactly and take the fields from it.\<close>

lemma shift_exact:
  assumes "wf_date_time d" and "\<bar>k\<bar> < 2 ^ 58"
    and r: "0 \<le> dt_utcTime d + 10 * k" "dt_utcTime d + 10 * k < utc_limit"
  shows "dt_plus_assign d k = Inr (fields_of_utc (dt_utcTime d + 10 * k))"
    "dt_plus d k = Inr (fields_of_utc (dt_utcTime d + 10 * k))"
    "dt_minus_assign d (- k) = Inr (fields_of_utc (dt_utcTime d + 10 * k))"
    "wf_date_time (fields_of_utc (dt_utcTime d + 10 * k))"
proof -
  let ?u = "dt_utcTime d + 10 * k"
  have k: "- 288230376151711744 < k" "k < 288230376151711744" using assms(2) by (simp_all add: abs_less_iff)
  have c: "chk64 (k * 10) = Inr (10 * k)" "chk64 (- k * 10) = Inr (- (10 * k))" "chk64 ?u = Inr ?u"
    "chk64 (dt_utcTime d - - (10 * k)) = Inr ?u"
    using k r by (simp_all add: chk64_def)
  have e: "recompute x = Inr (fields_of_utc ?u)" if "dt_utcTime x = ?u" for x
    using recompute_exact [OF that r] .
  show "dt_plus_assign d k = Inr (fields_of_utc ?u)" "dt_plus d k = Inr (fields_of_utc ?u)"
    "dt_minus_assign d (- k) = Inr (fields_of_utc ?u)"
    unfolding dt_plus_assign_def dt_plus_def dt_of_utc_def dt_minus_assign_def c bind_r_simps
    by (rule e, simp add: uninitialised_def)+
  show "wf_date_time (fields_of_utc ?u)" using r by (simp add: wf_date_time_def)
qed

text \<open>
  C33 (type). Arithmetic keeps times well formed: adding a span to a well-formed time with \<^verbatim>\<open>+\<close> or \<^verbatim>\<open>+=\<close>, or
  subtracting the opposite span with \<^verbatim>\<open>-\<close> or \<^verbatim>\<open>-=\<close>, when the result lies between the reform of 1582
  and the year 10000, gives one and the same well-formed time, whose distance to the first is the span.
\<close>
theorem arithmetic_well_formed:
  assumes "wf_date_time d" and "\<bar>k\<bar> < 2 ^ 58"
    and r: "0 \<le> dt_utcTime d + 10 * k" "dt_utcTime d + 10 * k < utc_limit"
  shows "\<exists>e. dt_plus_assign d k = Inr e \<and> dt_plus d k = Inr e \<and> dt_minus_assign d (- k) = Inr e \<and>
    dt_minus d (- k) = Inr e \<and> wf_date_time e \<and> dt_difference e d = Inr k"
proof -
  let ?u = "dt_utcTime d + 10 * k"
  have c: "chk64 (?u - dt_utcTime d) = Inr (10 * k)" using assms(2) by (simp add: chk64_def abs_less_iff)
  have x: "10 * k sdiv 10 = k" using sdiv_exact [of 10 k] by (simp add: mult.commute)
  have "dt_difference (fields_of_utc ?u) d = Inr k"
    unfolding dt_difference_def fields_of_utc_time c bind_r_simps x ..
  moreover have "dt_minus d (- k) = dt_plus d k"
    using assms(2) by (simp add: dt_minus_def dt_plus_def chk64_def abs_less_iff)
  ultimately show ?thesis using shift_exact [OF assms] by auto
qed

theorem arithmetic_well_formed_witness:
  "\<exists>e. dt_plus_assign (fields_of_utc 0) 86400000000 = Inr e \<and> dt_minus (fields_of_utc 0) (- 86400000000) = Inr e \<and>
    wf_date_time e \<and> dt_difference e (fields_of_utc 0) = Inr 86400000000"
  using arithmetic_well_formed [of "fields_of_utc 0" 86400000000] by (auto simp: wf_date_time_def)

subsection \<open>Weekdays and weeks\<close>

lemma dayOfWeek_midnight:
  assumes u: "dt_utcTime d = (c + 306 - utc_zero) * utc_day" and c: "-365 \<le> c" "c \<le> 3652059"
  shows "dayOfWeek d = c mod 7"
proof -
  define n where "n = c + 306 - utc_zero"
  have n: "- 578101 \<le> n" "n \<le> 3074323" using c by (simp_all add: n_def)
  have "\<bar>n * 52734375\<bar> \<le> 2 ^ 53" using n by (simp add: abs_le_iff)
  then have "fl (of_int (n * 52734375) * 2 powi 14) = of_int (n * 52734375) * 2 powi 14" by (rule fl_exact)
  then have a: "fl (of_int (n * utc_day)) = of_int (n * utc_day)" by (simp add: power_int_numeral algebra_simps)
  have b: "fl (of_int (n * utc_day) / 864000000000) = of_int n" using n by (simp add: abs_le_iff)
  have j: "fl (of_int n + 4598321 / 2) = of_int n + 4598321 / 2"
    using fl.rnd_dyadic [of "2 * n + 4598321" 1] n by (simp add: add_divide_distrib abs_le_iff)
  have "of_int n + 4598321 / 2 + 3 / 2 = (of_int (n + 2299162) :: rat)" by simp
  then have k: "fl (of_int n + 4598321 / 2 + 3 / 2) = of_int (n + 2299162)"
    using n by (simp only: fl_int abs_le_iff) (rule fl_int, simp add: abs_le_iff)
  have "dayOfWeek d = (n + 2299162) smod 7"
    unfolding dayOfWeek_def julianDay_def toJulianDay_utc_def u n_def [symmetric] a b j k by simp
  also have "\<dots> = (c + 7 * 245918) mod 7" using n by (simp add: smod_nonneg n_def add.commute)
  also have "\<dots> = c mod 7" by (rule mod_mult_self2)
  finally show ?thesis .
qed

lemma day_part_zero [simp]: "day_part 0 0 0 0 0 = 0"
  by (simp add: day_part_def)

lemma january:
  assumes "0 \<le> y" "y \<le> 9999" "1 \<le> b" "b \<le> 31"
  obtains d where "dt_make y 1 b 0 0 0 0 0 = Inr d" "dayOfWeek d = (civil_day y 1 1 + b - 1) mod 7"
proof -
  have v: "valid_date y 1 b" using assms by (simp add: valid_date_def month_days_def)
  then have V: "isValid y 1 b 0 0 0 0 0" using assms by (simp add: isValid_iff)
  define d where "d = \<lparr>dt_utcTime = utc_of_fields y 1 b 0 0 0 0 0, dt_year = y, dt_month = 1, dt_day = b, dt_hour = 0,
    dt_minute = 0, dt_second = 0, dt_millisecond = 0, dt_microsecond = 0\<rparr>"
  have "dayOfWeek d = civil_day y 1 b mod 7"
    by (rule dayOfWeek_midnight) (use civil_day_bounds [OF v assms(1,2)] in \<open>simp_all add: d_def utc_of_fields_def\<close>)
  moreover have "civil_day y 1 b = civil_day y 1 1 + b - 1" by (simp add: civil_day_def)
  ultimately show thesis using dt_make_exact [OF V] by (intro that [of d]) (simp_all add: d_def)
qed

text \<open>The first day of January that is the wanted weekday.\<close>

definition first_weekday :: "int \<Rightarrow> int \<Rightarrow> int" where
  "first_weekday y f = 1 + (f - civil_day y 1 1) mod 7"

lemma first_weekday_bounds: "1 \<le> first_weekday y f" "first_weekday y f \<le> 7"
  using pos_mod_bound [of 7 "f - civil_day y 1 1"] by (simp_all add: first_weekday_def)

lemma week_loop_exact:
  assumes y: "0 \<le> y" "y \<le> 9999" and f: "0 \<le> f" "f \<le> 6" and b: "1 \<le> b" "b \<le> first_weekday y f"
  shows "week_loop y f b = Inr (first_weekday y f)"
  using b
proof (induction "nat (7 - b)" arbitrary: b rule: less_induct)
  case less
  note F = first_weekday_bounds [of y f]
  obtain d where d: "dt_make y 1 b 0 0 0 0 0 = Inr d" "dayOfWeek d = (civil_day y 1 1 + b - 1) mod 7"
    using january [OF y, of b] less.prems F by auto
  define r where "r = (f - civil_day y 1 1) mod 7"
  have r: "first_weekday y f = 1 + r" "0 \<le> r" "r < 7" by (simp_all add: r_def first_weekday_def)
  have "(civil_day y 1 1 + b - 1) mod 7 = f \<longleftrightarrow> (b - 1) mod 7 = r"
  proof -
    have "f mod 7 = f" using f by simp
    then have "(civil_day y 1 1 + b - 1) mod 7 = f \<longleftrightarrow> (civil_day y 1 1 + b - 1) mod 7 = f mod 7" by simp
    also have "\<dots> \<longleftrightarrow> 7 dvd (civil_day y 1 1 + b - 1 - f)" by (simp add: mod_eq_dvd_iff)
    also have "\<dots> \<longleftrightarrow> (b - 1) mod 7 = (f - civil_day y 1 1) mod 7" by (simp add: mod_eq_dvd_iff algebra_simps)
    finally show ?thesis by (simp add: r_def)
  qed
  then have q: "dayOfWeek d = f \<longleftrightarrow> b = first_weekday y f" using d(2) less.prems r by (simp, linarith)
  show ?case
  proof (cases "b = first_weekday y f")
    case True
    then have "dayOfWeek d = f" using q by simp
    then have "week_loop y f b = Inr b" by (simp add: week_loop.simps [of y f b] d(1))
    then show ?thesis using True by simp
  next
    case False
    then have "week_loop y f (b + 1) = Inr (first_weekday y f)" using less F by simp
    then show ?thesis using q False by (simp add: week_loop.simps [of y f b] d(1))
  qed
qed

lemma doy_loop_exact:
  assumes "1 \<le> i" "i \<le> m" "m \<le> 13"
  shows "doy_loop y m i acc = Inr (acc + (\<Sum>k \<leftarrow> [i..m - 1]. month_days y k))"
  using assms
proof (induction "nat (m - i)" arbitrary: i acc rule: less_induct)
  case less
  show ?case
  proof (cases "i < m")
    case True
    then have "doy_loop y m (i + 1) (acc + month_days y i) = Inr (acc + month_days y i + (\<Sum>k \<leftarrow> [i + 1..m - 1]. month_days y k))"
      using less by simp
    then show ?thesis using True less.prems
      by (simp add: doy_loop.simps [of y m i] daysOfMonth_eq upto_rec1 [of i "m - 1"])
  qed (use less.prems in \<open>simp add: doy_loop.simps [of y m m]\<close>)
qed

lemma dayOfYear_exact:
  assumes "valid_date (dt_year d) (dt_month d) (dt_day d)"
  shows "dayOfYear d = Inr (civil_day (dt_year d) (dt_month d) (dt_day d) - civil_day (dt_year d) 1 1 + 1)"
  using valid_dateD [OF assms] by (simp add: dayOfYear_def doy_loop_exact civil_day_def)

text \<open>
  C34 (termination). \<^verbatim>\<open>week\<close> returns for every valid date and first day of the week: its search for the first such
  day of the year ends within a week, and the number it returns counts the weeks from there, the
  days before it being in week 0 or, when it is later than the fourth of January, week 1.
\<close>
theorem week_returns:
  assumes v: "valid_date (dt_year d) (dt_month d) (dt_day d)" and y: "0 \<le> dt_year d" "dt_year d \<le> 9999"
    and f: "0 \<le> f" "f \<le> 6"
  shows "\<exists>w b. week d f = Inr w \<and> 1 \<le> b \<and> b \<le> 7 \<and> (civil_day (dt_year d) 1 1 + b - 1) mod 7 = f \<and>
    (let doy = civil_day (dt_year d) (dt_month d) (dt_day d) - civil_day (dt_year d) 1 1 + 1;
         offs = (if b \<le> 4 then 0 else 1)
     in w = (if doy < b then offs else (doy - b) div 7 + 1 + offs)) \<and> 0 \<le> w \<and> w \<le> 53"
proof -
  define b where "b = first_weekday (dt_year d) f"
  define doy where "doy = civil_day (dt_year d) (dt_month d) (dt_day d) - civil_day (dt_year d) 1 1 + 1"
  define w where "w = (if doy < b then (if b \<le> 4 then 0 else 1) else (doy - b) div 7 + 1 + (if b \<le> 4 then 0 else (1 :: int)))"
  have b: "1 \<le> b" "b \<le> 7" unfolding b_def by (rule first_weekday_bounds)+
  have l: "week_loop (dt_year d) f 1 = Inr b" unfolding b_def using first_weekday_bounds y f by (intro week_loop_exact) simp_all
  have dy: "dayOfYear d = Inr doy" unfolding doy_def using v by (rule dayOfYear_exact)
  have "doy \<le> 366" using year_day_bounds [OF v] leap_days_step [of "dt_year d"]
    by (simp add: doy_def civil_day_def split: if_splits)
  then have q: "doy < b \<or> 0 \<le> (doy - b) div 7 \<and> (doy - b) div 7 < 53"
    using b by (auto simp: pos_imp_zdiv_nonneg_iff intro: div_less_bound)
  have wk: "week d f = Inr w"
    using f by (auto simp: week_def l dy w_def Let_def sdiv_nonneg)
  define C where "C = civil_day (dt_year d) 1 1"
  have "C + b - 1 = C + (f - C) mod 7" by (simp only: b_def first_weekday_def C_def)
  then have "(C + b - 1) mod 7 = (C + (f - C)) mod 7" by (simp only: mod_add_right_eq)
  then have m: "(civil_day (dt_year d) 1 1 + b - 1) mod 7 = f" using f by (simp add: C_def)
  have "5 \<le> b \<Longrightarrow> (doy - b) div 7 < 52" using \<open>doy \<le> 366\<close> by (intro div_less_bound) simp_all
  then have "0 \<le> w \<and> w \<le> 53" using q unfolding w_def by (cases "doy < b"; cases "b \<le> 4") simp_all
  then show ?thesis
    unfolding doy_def [symmetric] Let_def using wk b m w_def by blast
qed

theorem week_returns_witness: "\<exists>w. week (fields_of_utc 0) 1 = Inr w \<and> 0 \<le> w \<and> w \<le> 53"
proof -
  have "greg_date utc_zero = (1582, 10, 15)" by code_simp
  then have "valid_date (dt_year (fields_of_utc 0)) (dt_month (fields_of_utc 0)) (dt_day (fields_of_utc 0))"
    "dt_year (fields_of_utc 0) = 1582"
    by (simp_all add: fields_of_utc_def valid_date_def month_days_def)
  then show ?thesis using week_returns [of "fields_of_utc 0" 1] by auto
qed

subsection \<open>Where the class fails\<close>

text \<open>
  Before the reform the time is negative, and the truncating division of \<^verbatim>\<open>Timespan\<close> gives
  negative parts: noon of the 14th of October 1582 has the hour -12.
\<close>

lemma hours_before_reform:
  "dt_of_utc (- 432000000000) 0 = Inr \<lparr>dt_utcTime = - 432000000000, dt_year = 1582, dt_month = 10, dt_day = 14,
     dt_hour = -12, dt_minute = 0, dt_second = 0, dt_millisecond = 0, dt_microsecond = 0\<rparr>"
proof -
  let ?u = "- 432000000000 :: int"
  have a: "fl (of_int ?u) = of_int ?u" by (rule fl_int) simp
  have b: "fl (of_int ?u / 864000000000) = - 1 / 2" using fl.rnd_dyadic [of "-1" 1] by simp
  have c: "fl (- 1 / 2 + 4598321 / 2) = 2299160" using fl_int [of 2299160] by simp
  have f: "fl (2299160 - 3442237 / 2) = of_int 578041 + of_int (2 ^ 31) / 2 ^ 32"
    using fl.rnd_dyadic [of "1156083" 1] by simp
  have d: "greg_date 578041 = (1582, 10, 14)" by code_simp
  obtain h mi s ms us where g:
    "computeGregorian 2299160 (uninitialised ?u) = Inr ((uninitialised ?u)\<lparr>dt_year := 1582, dt_month := 10, dt_day := 14,
       dt_hour := h, dt_minute := mi, dt_second := s, dt_millisecond := ms, dt_microsecond := us\<rparr>)" and
    h: "h \<le> 23" "h = 24 * 2 ^ 31 div b32 \<or> h = 24 * 2 ^ 31 div b32 + 1 \<and> 60 * (24 * 2 ^ 31 mod b32) div b32 = 59"
    by (rule computeGregorian_exact [OF f _ _ _ _ d]) simp_all
  have v: "?u sdiv 10 = - 43200000000" by (simp add: signed_divide_int_def)
  have s: "span_hours (- 43200000000) = -12" "span_minutes (- 43200000000) = 0" "span_seconds (- 43200000000) = 0"
    "span_milliseconds (- 43200000000) = 0" "span_microseconds (- 43200000000) = 0"
    by (simp_all add: span_hours_def span_minutes_def span_seconds_def span_milliseconds_def span_microseconds_def
        span_units signed_divide_int_def signed_modulo_int_def to_int32_def)
  have "julianDay (uninitialised ?u) = 2299160"
    unfolding julianDay_def toJulianDay_utc_def uninitialised_def using a b c by simp
  then have "recompute (uninitialised ?u) = computeDaytime ((uninitialised ?u)\<lparr>dt_year := 1582, dt_month := 10, dt_day := 14,
       dt_hour := h, dt_minute := mi, dt_second := s, dt_millisecond := ms, dt_microsecond := us\<rparr>)"
    by (simp add: recompute_def g)
  then show ?thesis
    by (simp add: dt_of_utc_def chk64_def computeDaytime_def Let_def v s uninitialised_def to_short_def)
qed

text \<open>
  Ten microseconds before midnight of Monday the 29th of February 2016 the Julian day rounds up
  to the next day, and \<^verbatim>\<open>dayOfWeek\<close>, which has no correction, gives Tuesday.
\<close>

lemma weekday_rounds_up:
  "dayOfWeek (fields_of_utc 136760831999999990) = 2" "civil_day 2016 2 29 mod 7 = 1"
  "greg_date (136760831999999990 div utc_day + utc_zero) = (2016, 2, 29)"
proof -
  show "civil_day 2016 2 29 mod 7 = 1" by (simp add: civil_day_def leap_days_def month_days_def upto.simps)
  show "greg_date (136760831999999990 div utc_day + utc_zero) = (2016, 2, 29)" by code_simp
  have a: "fl 136760831999999990 = 136760831999999984"
  proof -
    have "rne (136760831999999990 / 2 powi (56 - 52)) = 8547551999999999"
      by (rule rne_unique) simp
    then show ?thesis by (subst fl_binade [of 56]) simp_all
  qed
  define q :: rat where "q = fl (136760831999999984 / 864000000000)"
  have q: "\<bar>q - 136760831999999984 / 864000000000\<bar> \<le> 136760831999999984 / 864000000000 / 2 ^ 53"
    unfolding q_def using fl_error [of "136760831999999984 / 864000000000"] by simp
  then have q': "q \<le> 158288" "158288 - 1 / 2 ^ 33 < q" unfolding abs_le_iff by simp_all
  have "fl (q + 4598321 / 2) = 4914897 / 2"
  proof -
    have b: "2 powi 21 \<le> \<bar>q + 4598321 / 2\<bar>" "\<bar>q + 4598321 / 2\<bar> < 2 powi (21 + 1)" using q' by simp_all
    have "rne ((q + 4598321 / 2) / 2 powi (21 - 52)) = 4914897 * 2 ^ 30"
      by (rule rne_unique) (use q' in \<open>simp add: power_int_minus abs_less_iff\<close>)
    then show ?thesis using fl_binade [OF b] by simp
  qed
  then have j: "toJulianDay_utc 136760831999999990 = 4914897 / 2" by (simp add: toJulianDay_utc_def a q_def)
  have k: "fl (4914897 / 2 + 3 / 2) = 2457450" using fl_int [of 2457450] by simp
  show "dayOfWeek (fields_of_utc 136760831999999990) = 2"
    unfolding dayOfWeek_def julianDay_def fields_of_utc_time j k by (simp add: signed_modulo_int_def)
qed

subsection \<open>Spans and stopwatches\<close>

lemma smod_bounds:
  assumes "0 < k"
  shows "- k < x smod k" "x smod k < (k :: int)" "0 \<le> x \<Longrightarrow> 0 \<le> x smod k" "x \<le> 0 \<Longrightarrow> x smod k \<le> 0"
proof -
  define m where "m = \<bar>x\<bar> mod k"
  have m: "0 \<le> m" "m < k" using assms by (simp_all add: m_def)
  have "x smod k = sgn x * m" using assms by (simp add: signed_modulo_int_def m_def)
  then show "- k < x smod k" "x smod k < k" "0 \<le> x \<Longrightarrow> 0 \<le> x smod k" "x \<le> 0 \<Longrightarrow> x smod k \<le> 0"
    using m by (auto simp: sgn_if)
qed

lemma sdiv_uminus: "(- x) sdiv k = - (x sdiv (k :: int))"
  by (simp add: signed_divide_int_def)

lemma sdiv_small:
  assumes "0 < k" "\<bar>x\<bar> < k * n"
  shows "\<bar>x sdiv k\<bar> < (n :: int)"
proof -
  have "\<bar>x\<bar> div k < n" using assms by (intro div_less_bound) (simp_all add: mult.commute)
  moreover have "0 \<le> \<bar>x\<bar> div k" using assms by (simp add: pos_imp_zdiv_nonneg_iff)
  ultimately show ?thesis using assms(1) by (auto simp: signed_divide_int_def abs_mult sgn_if)
qed

lemma sdiv_sdiv:
  assumes "0 < k" "0 < n"
  shows "x sdiv k sdiv n = x sdiv (k * n :: int)"
proof -
  have p: "y sdiv k sdiv n = y sdiv (k * n)" if "0 \<le> y" for y
    using assms that by (simp add: sdiv_nonneg zdiv_zmult2_eq pos_imp_zdiv_nonneg_iff)
  show ?thesis using p [of x] p [of "- x"] by (cases "0 \<le> x") (simp_all add: sdiv_uminus)
qed

text \<open>
  A span is the sum of its parts: constructed from its days, hours, minutes, seconds and
  microseconds it is the same span, whatever its sign, for all spans a \<^verbatim>\<open>TimeDiff\<close> can hold.
\<close>
theorem span_is_its_parts:
  assumes "- (2 ^ 63) \<le> sp" "sp < 2 ^ 63"
  shows "span_of_parts (span_days sp) (span_hours sp) (span_minutes sp) (span_seconds sp) (span_useconds sp) = Inr sp"
proof -
  have b: "\<bar>sp\<bar> < DAYS * 2 ^ 31" using assms by (auto simp: span_units abs_if)
  have d: "span_days sp = sp sdiv DAYS"
    using sdiv_small [OF _ b] by (simp add: span_days_def to_int32_small abs_less_iff span_units)
  have t: "to_int32 (x smod k) = x smod k" if "0 < k" "k \<le> 1000000" for x k
    using smod_bounds(1,2) [OF that(1), of x] that(2) by (intro to_int32_small) simp_all
  have f: "span_hours sp = sp sdiv HOURS smod 24" "span_minutes sp = sp sdiv MINUTES smod 60"
    "span_seconds sp = sp sdiv SECONDS smod 60" "span_useconds sp = sp smod 1000000"
    unfolding span_hours_def span_minutes_def span_seconds_def span_useconds_def by (rule t; simp)+
  have c: "sp sdiv HOURS sdiv 24 = sp sdiv DAYS" "sp sdiv MINUTES sdiv 60 = sp sdiv HOURS"
    "sp sdiv SECONDS sdiv 60 = sp sdiv MINUTES"
    using sdiv_sdiv [of HOURS 24 sp] sdiv_sdiv [of MINUTES 60 sp] sdiv_sdiv [of SECONDS 60 sp]
    by (simp_all add: span_units)
  have e: "sp sdiv DAYS * 24 + span_hours sp = sp sdiv HOURS" "sp sdiv HOURS * 60 + span_minutes sp = sp sdiv MINUTES"
    "sp sdiv MINUTES * 60 + span_seconds sp = sp sdiv SECONDS" "sp sdiv SECONDS * SECONDS + span_useconds sp = sp"
    unfolding f c [symmetric] by (simp_all only: sdiv_mult_smod_eq) (simp add: span_units sdiv_mult_smod_eq)
  have "0 < DAYS" by (simp add: span_units)
  note m = smod_bounds [OF this, of sp]
  have "- (2 ^ 63) \<le> sp sdiv DAYS * DAYS" "sp sdiv DAYS * DAYS < 2 ^ 63"
    using m assms minus_smod_eq_sdiv_mult [of sp DAYS] by (cases "0 \<le> sp"; simp add: span_units)+
  then have k: "chk64 (sp sdiv DAYS * DAYS) = Inr (sp sdiv DAYS * DAYS)" by (simp add: chk64_def)
  define q h mi s us where "q = sp sdiv DAYS" and "h = span_hours sp" and "mi = span_minutes sp"
    and "s = span_seconds sp" and "us = span_useconds sp"
  have "us + s * SECONDS + mi * MINUTES + h * HOURS + q * DAYS = sp"
    using e unfolding q_def [symmetric] h_def [symmetric] mi_def [symmetric] s_def [symmetric] us_def [symmetric]
    by (simp add: span_units)
  then show ?thesis
    using assms unfolding span_of_parts_def d k bind_r_simps q_def h_def mi_def s_def us_def by (simp add: chk64_def)
qed

theorem span_is_its_parts_witness:
  "span_of_parts (span_days (-90061000001)) (span_hours (-90061000001)) (span_minutes (-90061000001))
     (span_seconds (-90061000001)) (span_useconds (-90061000001)) = Inr (-90061000001)"
  by (rule span_is_its_parts) simp_all

text \<open>A stopwatch accumulates the time between its starts and stops.\<close>

lemma stopwatch_accumulates:
  assumes "\<not> sw_running w" "0 \<le> sw_elapsed w" "0 \<le> t1" "t1 \<le> t2" "sw_elapsed w + t2 < 2 ^ 63"
  shows "stopwatch_stop t2 (stopwatch_start t1 w) = Inr (w\<lparr>sw_start := t1, sw_elapsed := sw_elapsed w + (t2 - t1)\<rparr>)"
    "stopwatch_elapsed t2 (stopwatch_start t1 w) = Inr (sw_elapsed w + (t2 - t1))"
    "stopwatch_start t2 (stopwatch_start t1 w) = stopwatch_start t1 w"
  using assms by (simp_all add: stopwatch_start_def stopwatch_stop_def stopwatch_elapsed_def chk64_def)

end
