(* ===== verification/Numeric.thy ===== *)
theory Numeric
  imports Text_Util
begin

text \<open>
  Integer formatting: \<^verbatim>\<open>src/base/src/numeric.cpp\<close>. Every overload prints into a buffer of 64
  characters with \<^verbatim>\<open>sprintf\<close> and appends the buffer to the string. The overloads for
  \<^verbatim>\<open>int\<close>, \<^verbatim>\<open>long\<close>, \<^verbatim>\<open>std::int64_t\<close> and their unsigned variants differ only in the width of
  the value; the hexadecimal ones print the value modulo \<open>2 ^ w\<close>, with \<open>w\<close> the width.
\<close>

text \<open>The conversions \<^verbatim>\<open>%d\<close> and \<^verbatim>\<open>%X\<close> of \<^verbatim>\<open>sprintf\<close>.\<close>

definition dec_text :: "int \<Rightarrow> string" where
  "dec_text v = (if v < 0 then CHR ''-'' # itostr (nat (- v)) else itostr (nat v))"

definition hex_digit :: "nat \<Rightarrow> char" where
  "hex_digit d = (if d < 10 then digit_char d else char_of (55 + d))"

fun hex_text :: "nat \<Rightarrow> string" where
  "hex_text n = (if n < 16 then [hex_digit n] else hex_text (n div 16) @ [hex_digit (n mod 16)])"

declare hex_text.simps [simp del]

text \<open>The flag \<open>0\<close> puts the padding between the sign and the digits.\<close>

definition zero_padded :: "int \<Rightarrow> nat \<Rightarrow> string" where
  "zero_padded v w =
     (let ds = itostr (nat \<bar>v\<bar>)
      in if v < 0 then CHR ''-'' # replicate (w - 1 - length ds) CHR ''0'' @ ds
         else replicate (w - length ds) CHR ''0'' @ ds)"

definition format_int :: "string \<Rightarrow> int \<Rightarrow> string" where
  "format_int str v = str @ dec_text v"

definition format_width :: "string \<Rightarrow> int \<Rightarrow> int \<Rightarrow> string result" where
  "format_width str v width =
     assert_r (0 < width \<and> width < 64)
       (Inr (str @ replicate (nat width - length (dec_text v)) CHR '' '' @ dec_text v))"

definition format0 :: "string \<Rightarrow> int \<Rightarrow> int \<Rightarrow> string result" where
  "format0 str v width =
     assert_r (0 < width \<and> width < 64) (Inr (str @ zero_padded v (nat width)))"

definition formatHex :: "nat \<Rightarrow> string \<Rightarrow> int \<Rightarrow> string" where
  "formatHex w str v = str @ hex_text (nat (v mod 2 ^ w))"

definition formatHex_width :: "nat \<Rightarrow> string \<Rightarrow> int \<Rightarrow> int \<Rightarrow> string result" where
  "formatHex_width w str v width =
     assert_r (0 < width \<and> width < 64)
       (let ds = hex_text (nat (v mod 2 ^ w))
        in Inr (str @ replicate (nat width - length ds) CHR ''0'' @ ds))"

subsection \<open>Lengths\<close>

lemma length_itostr: "0 < k \<Longrightarrow> n < 10 ^ k \<Longrightarrow> length (itostr n) \<le> k"
proof (induction n arbitrary: k rule: itostr.induct)
  case (1 n)
  show ?case
  proof (cases "n < 10")
    case False
    then obtain j where k: "k = Suc j" "0 < j" using 1(3) 1(2) by (cases k; cases "k - 1") auto
    then have "n div 10 < 10 ^ j" using 1(3) by (simp add: less_mult_imp_div_less)
    then have "length (itostr (n div 10)) \<le> j" using 1(1) False k(2) by simp
    then show ?thesis using False k by (simp add: itostr.simps [of n])
  qed (use 1(2) in \<open>simp add: itostr.simps [of n]\<close>)
qed

lemma length_hex_text: "0 < k \<Longrightarrow> n < 16 ^ k \<Longrightarrow> length (hex_text n) \<le> k"
proof (induction n arbitrary: k rule: hex_text.induct)
  case (1 n)
  show ?case
  proof (cases "n < 16")
    case False
    then obtain j where k: "k = Suc j" "0 < j" using 1(3) 1(2) by (cases k; cases "k - 1") auto
    then have "n div 16 < 16 ^ j" using 1(3) by (simp add: less_mult_imp_div_less)
    then have "length (hex_text (n div 16)) \<le> j" using 1(1) False k(2) by simp
    then show ?thesis using False k by (simp add: hex_text.simps [of n])
  qed (use 1(2) in \<open>simp add: hex_text.simps [of n]\<close>)
qed

lemma dec_text_length:
  assumes "\<bar>v\<bar> < 2 ^ 64"
  shows "length (dec_text v) \<le> 21"
proof -
  have "nat \<bar>v\<bar> < 10 ^ 20" using assms by (simp add: nat_less_iff)
  then show ?thesis using length_itostr [of 20 "nat \<bar>v\<bar>"] by (auto simp: dec_text_def)
qed

lemma hex_length:
  assumes "w \<le> 64"
  shows "length (hex_text (nat (v mod 2 ^ w))) \<le> 16"
proof -
  have "v mod 2 ^ w < 2 ^ w" by simp
  also have "(2 :: int) ^ w \<le> 2 ^ 64" using assms by (intro power_increasing) auto
  finally have "nat (v mod 2 ^ w) < 16 ^ 16" by (simp add: nat_less_iff)
  then show ?thesis by (intro length_hex_text) simp_all
qed

lemma zero_padded_length:
  assumes "\<bar>v\<bar> < 2 ^ 64"
  shows "length (zero_padded v w) \<le> max w 21"
proof -
  have "nat \<bar>v\<bar> < 10 ^ 20" using assms by (simp add: nat_less_iff)
  then show ?thesis using length_itostr [of 20 "nat \<bar>v\<bar>"] by (auto simp: zero_padded_def Let_def)
qed

lemma format_width_fits:
  assumes "\<bar>v\<bar> < 2 ^ 64" and "format_width str v width = Inr out"
  shows "\<exists>txt. out = str @ txt \<and> length txt < 64"
  using assms dec_text_length [OF assms(1)]
  by (intro exI [of _ "drop (length str) out"]) (auto simp: format_width_def result_convs)

lemma format0_fits:
  assumes "\<bar>v\<bar> < 2 ^ 64" and "format0 str v width = Inr out"
  shows "\<exists>txt. out = str @ txt \<and> length txt < 64"
  using assms zero_padded_length [OF assms(1), of "nat width"]
  by (intro exI [of _ "drop (length str) out"]) (auto simp: format0_def result_convs)

lemma formatHex_width_fits:
  assumes "w \<le> 64" and "formatHex_width w str v width = Inr out"
  shows "\<exists>txt. out = str @ txt \<and> length txt < 64"
  using assms hex_length [OF assms(1), of v]
  by (intro exI [of _ "drop (length str) out"]) (auto simp: formatHex_width_def result_convs Let_def)

subsection \<open>Reading a number back\<close>

lemma dec_value_zeros [simp]: "dec_value (replicate n CHR ''0'' @ s) = dec_value s"
  by (induction n) (simp_all add: dec_value_def digit_val_def)

lemma zero_padded_digits:
  assumes "0 \<le> v"
  shows "list_all is_digit (zero_padded v w)" "dec_value (zero_padded v w) = nat v"
  using assms itostr_digits [of "nat v"]
  by (auto simp: zero_padded_def Let_def list_all_iff is_digit_def)

lemma zero_padded_width:
  assumes "0 \<le> v" "v < 10 ^ w" "0 < w"
  shows "length (zero_padded v w) = w"
proof -
  have "nat v < 10 ^ w" using assms by (simp add: nat_less_iff)
  then show ?thesis using length_itostr [of w "nat v"] assms by (simp add: zero_padded_def Let_def)
qed

end
