(* ===== verification/Date_Format.thy ===== *)
theory Date_Format
  imports Date_Fields Numeric String_Util
begin

text \<open>
  Dates as text: \<^verbatim>\<open>DateTimeFormat\<close>, \<^verbatim>\<open>DateTimeFormatter\<close> and \<^verbatim>\<open>DateTimeParser\<close> of
  \<^verbatim>\<open>src/base/src/datetime.cpp\<close>. The iterators over a format or a text are the characters left;
  the \<^verbatim>\<open>int\<close> a number is collected in overflows to \<open>Undefined\<close> (\<open>chk32\<close>). An index outside the
  arrays of names is \<open>Undefined\<close>.
\<close>

subsection \<open>DateTimeFormat\<close>

definition ISO8601_FORMAT :: string where "ISO8601_FORMAT = ''%Y-%m-%dT%H:%M:%S%z''"
definition ISO8601_FRAC_FORMAT :: string where "ISO8601_FRAC_FORMAT = ''%Y-%m-%dT%H:%M:%s%z''"
definition RFC822_FORMAT :: string where "RFC822_FORMAT = ''%w, %e %b %y %H:%M:%S %Z''"
definition RFC1123_FORMAT :: string where "RFC1123_FORMAT = ''%w, %e %b %Y %H:%M:%S %Z''"
definition HTTP_FORMAT :: string where "HTTP_FORMAT = ''%w, %d %b %Y %H:%M:%S %Z''"
definition RFC850_FORMAT :: string where "RFC850_FORMAT = ''%W, %e-%b-%y %H:%M:%S %Z''"
definition RFC1036_FORMAT :: string where "RFC1036_FORMAT = ''%W, %e %b %y %H:%M:%S %Z''"
definition ASCTIME_FORMAT :: string where "ASCTIME_FORMAT = ''%w %b %f %H:%M:%S %Y''"
definition SORTABLE_FORMAT :: string where "SORTABLE_FORMAT = ''%Y-%m-%d %H:%M:%S''"

definition WEEKDAY_NAMES :: "string list" where
  "WEEKDAY_NAMES = [''Sunday'', ''Monday'', ''Tuesday'', ''Wednesday'', ''Thursday'', ''Friday'', ''Saturday'']"

definition MONTH_NAMES :: "string list" where
  "MONTH_NAMES = [''January'', ''February'', ''March'', ''April'', ''May'', ''June'', ''July'',
     ''August'', ''September'', ''October'', ''November'', ''December'']"

definition array_get :: "'a list \<Rightarrow> int \<Rightarrow> 'a result" where
  "array_get xs i = (if 0 \<le> i \<and> i < int (length xs) then Inr (xs ! nat i) else Inl Undefined)"

subsection \<open>DateTimeFormatter\<close>

definition fmt_UTC :: int where "fmt_UTC = 0xFFFF"

text \<open>The common body of \<^verbatim>\<open>tzdISO\<close> and \<^verbatim>\<open>tzdRFC\<close>, which differ in the separator and the text of UTC.\<close>

definition tzd_text :: "string \<Rightarrow> string \<Rightarrow> string \<Rightarrow> int \<Rightarrow> string result" where
  "tzd_text sep utc str tzd =
     (if tzd \<noteq> fmt_UTC then
        (if 0 \<le> tzd then
           bind_r (format0 (str @ ''+'') (tzd sdiv 3600) 2) (\<lambda>str1.
             format0 (str1 @ sep) (tzd smod 3600 sdiv 60) 2)
         else if tzd = - (2 ^ 31) then Inl Undefined
         else bind_r (format0 (str @ ''-'') (- tzd sdiv 3600) 2) (\<lambda>str1.
             format0 (str1 @ sep) (- tzd smod 3600 sdiv 60) 2))
      else Inr (str @ utc))"

definition tzdISO :: "string \<Rightarrow> int \<Rightarrow> string result" where
  "tzdISO = tzd_text '':'' ''Z''"

definition tzdRFC :: "string \<Rightarrow> int \<Rightarrow> string result" where
  "tzdRFC = tzd_text '''' ''GMT''"

definition fmt_field :: "date_time \<Rightarrow> int \<Rightarrow> char \<Rightarrow> string \<Rightarrow> string result" where
  "fmt_field d tzd c str =
     (if c = CHR ''w'' then bind_r (array_get WEEKDAY_NAMES (dayOfWeek d)) (\<lambda>n. Inr (str @ take 3 n))
      else if c = CHR ''W'' then bind_r (array_get WEEKDAY_NAMES (dayOfWeek d)) (\<lambda>n. Inr (str @ n))
      else if c = CHR ''b'' then bind_r (array_get MONTH_NAMES (dt_month d - 1)) (\<lambda>n. Inr (str @ take 3 n))
      else if c = CHR ''B'' then bind_r (array_get MONTH_NAMES (dt_month d - 1)) (\<lambda>n. Inr (str @ n))
      else if c = CHR ''d'' then format0 str (dt_day d) 2
      else if c = CHR ''e'' then Inr (format_int str (dt_day d))
      else if c = CHR ''f'' then format_width str (dt_day d) 2
      else if c = CHR ''m'' then format0 str (dt_month d) 2
      else if c = CHR ''n'' then Inr (format_int str (dt_month d))
      else if c = CHR ''o'' then format_width str (dt_month d) 2
      else if c = CHR ''y'' then format0 str (dt_year d smod 100) 2
      else if c = CHR ''Y'' then format0 str (dt_year d) 4
      else if c = CHR ''H'' then format0 str (dt_hour d) 2
      else if c = CHR ''h'' then format0 str (hourAMPM d) 2
      else if c = CHR ''a'' then Inr (str @ (if isAM d then ''am'' else ''pm''))
      else if c = CHR ''A'' then Inr (str @ (if isAM d then ''AM'' else ''PM''))
      else if c = CHR ''M'' then format0 str (dt_minute d) 2
      else if c = CHR ''S'' then format0 str (dt_second d) 2
      else if c = CHR ''s'' then bind_r (format0 str (dt_second d) 2) (\<lambda>str1.
        format0 (str1 @ ''.'') (dt_millisecond d * 1000 + dt_microsecond d) 6)
      else if c = CHR ''i'' then format0 str (dt_millisecond d) 3
      else if c = CHR ''c'' then Inr (format_int str (dt_millisecond d sdiv 100))
      else if c = CHR ''F'' then format0 str (dt_millisecond d * 1000 + dt_microsecond d) 6
      else if c = CHR ''z'' then tzdISO str tzd
      else if c = CHR ''Z'' then tzdRFC str tzd
      else Inr (str @ [c]))"

text \<open>The loop of both \<^verbatim>\<open>append\<close> functions over the characters of the format.\<close>

fun fmt_loop :: "(char \<Rightarrow> string \<Rightarrow> string result) \<Rightarrow> string \<Rightarrow> string \<Rightarrow> string result" where
  "fmt_loop field str [] = Inr str"
| "fmt_loop field str (c # cs) =
     (if c = CHR ''%'' then
        (case cs of [] \<Rightarrow> Inr str | f # rest \<Rightarrow> bind_r (field f str) (\<lambda>str'. fmt_loop field str' rest))
      else fmt_loop field (str @ [c]) cs)"

definition fmt_append :: "string \<Rightarrow> date_time \<Rightarrow> string \<Rightarrow> int \<Rightarrow> string result" where
  "fmt_append str d fmt tzd = fmt_loop (fmt_field d tzd) str fmt"

definition fmt_format :: "date_time \<Rightarrow> string \<Rightarrow> int \<Rightarrow> string result" where
  "fmt_format d fmt tzd = fmt_append '''' d fmt tzd"

definition fmt_format_timestamp :: "int \<Rightarrow> string \<Rightarrow> int \<Rightarrow> string result" where
  "fmt_format_timestamp ts fmt tzd = bind_r (dt_of_timestamp ts) (\<lambda>d. fmt_format d fmt tzd)"

definition fmt_span_field :: "int \<Rightarrow> char \<Rightarrow> string \<Rightarrow> string result" where
  "fmt_span_field sp c str =
     (if c = CHR ''d'' then Inr (format_int str (span_days sp))
      else if c = CHR ''H'' then format0 str (span_hours sp) 2
      else if c = CHR ''h'' then Inr (format_int str (span_totalHours sp))
      else if c = CHR ''M'' then format0 str (span_minutes sp) 2
      else if c = CHR ''m'' then Inr (format_int str (span_totalMinutes sp))
      else if c = CHR ''S'' then format0 str (span_seconds sp) 2
      else if c = CHR ''s'' then Inr (format_int str (span_totalSeconds sp))
      else if c = CHR ''i'' then format0 str (span_milliseconds sp) 3
      else if c = CHR ''c'' then Inr (format_int str (span_milliseconds sp sdiv 100))
      else if c = CHR ''F'' then format0 str (span_milliseconds sp * 1000 + span_microseconds sp) 6
      else Inr (str @ [c]))"

definition fmt_append_span :: "string \<Rightarrow> int \<Rightarrow> string \<Rightarrow> string result" where
  "fmt_append_span str sp fmt = fmt_loop (fmt_span_field sp) str fmt"

subsection \<open>DateTimeParser\<close>

definition is_alpha :: "char \<Rightarrow> bool" where
  "is_alpha c \<longleftrightarrow> is_upper c \<or> is_lower c"

definition is_punct :: "char \<Rightarrow> bool" where
  "is_punct c \<longleftrightarrow> 33 \<le> (of_char c :: nat) \<and> (of_char c :: nat) \<le> 126 \<and> \<not> is_alnum c"

definition chk32 :: "int \<Rightarrow> int result" where
  "chk32 x = (if - (2 ^ 31) \<le> x \<and> x < 2 ^ 31 then Inr x else Inl Undefined)"

definition SKIP_JUNK :: "string \<Rightarrow> string" where
  "SKIP_JUNK s = dropWhile (\<lambda>c. \<not> is_digit c) s"

definition SKIP_DIGITS :: "string \<Rightarrow> string" where
  "SKIP_DIGITS s = dropWhile is_digit s"

text \<open>One digit: \<^verbatim>\<open>var = var * 10 + ((*it++) - '0')\<close>\<close>

definition push_digit :: "int \<Rightarrow> char \<Rightarrow> int result" where
  "push_digit var c = bind_r (chk32 (var * 10)) (\<lambda>v. chk32 (v + int (digit_val c)))"

fun PARSE_NUMBER :: "int \<Rightarrow> string \<Rightarrow> (int \<times> string) result" where
  "PARSE_NUMBER var [] = Inr (var, [])"
| "PARSE_NUMBER var (c # s) =
     (if is_digit c then bind_r (push_digit var c) (\<lambda>v. PARSE_NUMBER v s) else Inr (var, c # s))"

fun PARSE_NUMBER_N :: "nat \<Rightarrow> int \<Rightarrow> string \<Rightarrow> (int \<times> string) result" where
  "PARSE_NUMBER_N (Suc n) var (c # s) =
     (if is_digit c then bind_r (push_digit var c) (\<lambda>v. PARSE_NUMBER_N n v s) else Inr (var, c # s))"
| "PARSE_NUMBER_N _ var s = Inr (var, s)"

fun pad_zeros :: "nat \<Rightarrow> int \<Rightarrow> int result" where
  "pad_zeros 0 var = Inr var"
| "pad_zeros (Suc n) var = bind_r (chk32 (var * 10)) (pad_zeros n)"

fun PARSE_FRACTIONAL_N :: "nat \<Rightarrow> int \<Rightarrow> string \<Rightarrow> (int \<times> string) result" where
  "PARSE_FRACTIONAL_N 0 var s = Inr (var, s)"
| "PARSE_FRACTIONAL_N (Suc n) var s =
     (case s of
        c # s' \<Rightarrow>
          if is_digit c then bind_r (push_digit var c) (\<lambda>v. PARSE_FRACTIONAL_N n v s')
          else bind_r (pad_zeros (Suc n) var) (\<lambda>v. Inr (v, s))
      | [] \<Rightarrow> bind_r (pad_zeros (Suc n) var) (\<lambda>v. Inr (v, s)))"

text \<open>The zone designators.\<close>

definition zones :: "(string \<times> int) list" where
  "zones = [(''Z'', 0), (''UT'', 0), (''GMT'', 0), (''BST'', 1 * 3600), (''IST'', 1 * 3600), (''WET'', 0),
     (''WEST'', 1 * 3600), (''CET'', 1 * 3600), (''CEST'', 2 * 3600), (''EET'', 2 * 3600), (''EEST'', 3 * 3600),
     (''MSK'', 3 * 3600), (''MSD'', 4 * 3600), (''NST'', -3 * 3600 - 1800), (''NDT'', -2 * 3600 - 1800),
     (''AST'', -4 * 3600), (''ADT'', -3 * 3600), (''EST'', -5 * 3600), (''EDT'', -4 * 3600), (''CST'', -6 * 3600),
     (''CDT'', -5 * 3600), (''MST'', -7 * 3600), (''MDT'', -6 * 3600), (''PST'', -8 * 3600), (''PDT'', -7 * 3600),
     (''AKST'', -9 * 3600), (''AKDT'', -8 * 3600), (''HST'', -10 * 3600), (''AEST'', 10 * 3600), (''AEDT'', 11 * 3600),
     (''ACST'', 9 * 3600 + 1800), (''ACDT'', 10 * 3600 + 1800), (''AWST'', 8 * 3600), (''AWDT'', 9 * 3600)]"

text \<open>The designator: one to four letters.\<close>

definition zone_designator :: "string \<Rightarrow> string \<times> string" where
  "zone_designator s = (let n = length (takeWhile is_alpha (take 4 s)) in (take n s, drop n s))"

definition parse_offset :: "int \<Rightarrow> string \<Rightarrow> (int \<times> string) result" where
  "parse_offset tzd s =
     (case s of
        c # s1 \<Rightarrow>
          if c = CHR ''+'' \<or> c = CHR ''-'' then
            bind_r (PARSE_NUMBER_N 2 0 s1) (\<lambda>(hours, s2).
            bind_r (PARSE_NUMBER_N 2 0 (if s2 \<noteq> [] \<and> hd s2 = CHR '':'' then tl s2 else s2)) (\<lambda>(minutes, s3).
              Inr (tzd + (if c = CHR ''+'' then 1 else -1) * (hours * 3600 + minutes * 60), s3)))
          else Inr (tzd, s)
      | [] \<Rightarrow> Inr (tzd, s))"

definition parseTZD :: "string \<Rightarrow> (int \<times> string) result" where
  "parseTZD s =
     (let s1 = dropWhile is_space s
      in if s1 \<noteq> [] \<and> is_alpha (hd s1) then
           (let (designator, s2) = zone_designator s1
            in parse_offset (case map_of zones designator of Some t \<Rightarrow> t | None \<Rightarrow> 0) s2)
         else parse_offset 0 s1)"

text \<open>The capitalised word of \<^verbatim>\<open>parseMonth\<close> and \<^verbatim>\<open>parseDayOfWeek\<close>, and the first name it is a prefix of.\<close>

fun capitalise :: "string \<Rightarrow> string" where
  "capitalise [] = []"
| "capitalise (c # s) = toupper_c c # toLower s"

fun name_index :: "string list \<Rightarrow> string \<Rightarrow> int \<Rightarrow> int result" where
  "name_index [] w i = Inl RuntimeError"
| "name_index (n # ns) w i = (if take (length w) n = w then Inr i else name_index ns w (i + 1))"

definition parse_name :: "string list \<Rightarrow> int \<Rightarrow> string \<Rightarrow> (int \<times> string) result" where
  "parse_name names base s =
     (let s1 = dropWhile (\<lambda>c. is_space c \<or> is_punct c) s;
          w = capitalise (takeWhile is_alpha s1)
      in if length w < 3 then Inl RuntimeError
         else bind_r (name_index names w base) (\<lambda>i. Inr (i, dropWhile is_alpha s1)))"

definition parseMonth :: "string \<Rightarrow> (int \<times> string) result" where
  "parseMonth s = parse_name MONTH_NAMES 1 s"

definition parseDayOfWeek :: "string \<Rightarrow> (int \<times> string) result" where
  "parseDayOfWeek s = parse_name WEEKDAY_NAMES 0 s"

definition parseAMPM :: "string \<Rightarrow> int \<Rightarrow> (int \<times> string) result" where
  "parseAMPM s hour =
     (let s1 = dropWhile (\<lambda>c. is_space c \<or> is_punct c) s;
          ampm = toUpper (takeWhile is_alpha s1);
          s2 = dropWhile is_alpha s1
      in if ampm = ''AM'' then Inr (if hour = 12 then 0 else hour, s2)
         else if ampm = ''PM'' then Inr (if hour < 12 then hour + 12 else hour, s2)
         else Inl RuntimeError)"

text \<open>The variables of \<^verbatim>\<open>parse\<close>.\<close>

record parsed =
  ps_year :: int
  ps_month :: int
  ps_day :: int
  ps_hour :: int
  ps_minute :: int
  ps_second :: int
  ps_millis :: int
  ps_micros :: int
  ps_tzd :: int

definition ps_init :: parsed where
  "ps_init = \<lparr>ps_year = 0, ps_month = 0, ps_day = 0, ps_hour = 0, ps_minute = 0, ps_second = 0,
     ps_millis = 0, ps_micros = 0, ps_tzd = 0\<rparr>"

definition parse_fraction :: "parsed \<Rightarrow> string \<Rightarrow> (parsed \<times> string) result" where
  "parse_fraction p s =
     bind_r (PARSE_FRACTIONAL_N 3 (ps_millis p) s) (\<lambda>(ms, s1).
     bind_r (PARSE_FRACTIONAL_N 3 (ps_micros p) s1) (\<lambda>(us, s2).
       Inr (p\<lparr>ps_millis := ms, ps_micros := us\<rparr>, SKIP_DIGITS s2)))"

definition century :: "int \<Rightarrow> int result" where
  "century y = chk32 (if 69 \<le> y then y + 1900 else y + 2000)"

definition parse_field :: "char \<Rightarrow> parsed \<Rightarrow> string \<Rightarrow> (parsed \<times> string) result" where
  "parse_field c p s =
     (if c \<in> {CHR ''w'', CHR ''W''} then Inr (p, dropWhile is_alpha (dropWhile is_space s))
      else if c \<in> {CHR ''b'', CHR ''B''} then
        bind_r (parseMonth s) (\<lambda>(v, s1). Inr (p\<lparr>ps_month := v\<rparr>, s1))
      else if c \<in> {CHR ''d'', CHR ''e'', CHR ''f''} then
        bind_r (PARSE_NUMBER_N 2 (ps_day p) (SKIP_JUNK s)) (\<lambda>(v, s1). Inr (p\<lparr>ps_day := v\<rparr>, s1))
      else if c \<in> {CHR ''m'', CHR ''n'', CHR ''o''} then
        bind_r (PARSE_NUMBER_N 2 (ps_month p) (SKIP_JUNK s)) (\<lambda>(v, s1). Inr (p\<lparr>ps_month := v\<rparr>, s1))
      else if c = CHR ''y'' then
        bind_r (PARSE_NUMBER_N 2 (ps_year p) (SKIP_JUNK s)) (\<lambda>(v, s1).
        bind_r (century v) (\<lambda>y. Inr (p\<lparr>ps_year := y\<rparr>, s1)))
      else if c = CHR ''Y'' then
        bind_r (PARSE_NUMBER_N 4 (ps_year p) (SKIP_JUNK s)) (\<lambda>(v, s1). Inr (p\<lparr>ps_year := v\<rparr>, s1))
      else if c = CHR ''r'' then
        bind_r (PARSE_NUMBER (ps_year p) (SKIP_JUNK s)) (\<lambda>(v, s1).
        bind_r (if v < 1000 then century v else Inr v) (\<lambda>y. Inr (p\<lparr>ps_year := y\<rparr>, s1)))
      else if c \<in> {CHR ''H'', CHR ''h''} then
        bind_r (PARSE_NUMBER_N 2 (ps_hour p) (SKIP_JUNK s)) (\<lambda>(v, s1). Inr (p\<lparr>ps_hour := v\<rparr>, s1))
      else if c \<in> {CHR ''a'', CHR ''A''} then
        bind_r (parseAMPM s (ps_hour p)) (\<lambda>(v, s1). Inr (p\<lparr>ps_hour := v\<rparr>, s1))
      else if c = CHR ''M'' then
        bind_r (PARSE_NUMBER_N 2 (ps_minute p) (SKIP_JUNK s)) (\<lambda>(v, s1). Inr (p\<lparr>ps_minute := v\<rparr>, s1))
      else if c = CHR ''S'' then
        bind_r (PARSE_NUMBER_N 2 (ps_second p) (SKIP_JUNK s)) (\<lambda>(v, s1). Inr (p\<lparr>ps_second := v\<rparr>, s1))
      else if c = CHR ''s'' then
        bind_r (PARSE_NUMBER_N 2 (ps_second p) (SKIP_JUNK s)) (\<lambda>(v, s1).
          let p1 = p\<lparr>ps_second := v\<rparr>
          in if s1 \<noteq> [] \<and> (hd s1 = CHR ''.'' \<or> hd s1 = CHR '','') then parse_fraction p1 (tl s1)
             else Inr (p1, s1))
      else if c = CHR ''i'' then
        bind_r (PARSE_NUMBER_N 3 (ps_millis p) (SKIP_JUNK s)) (\<lambda>(v, s1). Inr (p\<lparr>ps_millis := v\<rparr>, s1))
      else if c = CHR ''c'' then
        bind_r (PARSE_NUMBER_N 1 (ps_millis p) (SKIP_JUNK s)) (\<lambda>(v, s1).
        bind_r (chk32 (v * 100)) (\<lambda>v1. Inr (p\<lparr>ps_millis := v1\<rparr>, s1)))
      else if c = CHR ''F'' then parse_fraction p (SKIP_JUNK s)
      else if c \<in> {CHR ''z'', CHR ''Z''} then
        bind_r (parseTZD s) (\<lambda>(v, s1). Inr (p\<lparr>ps_tzd := v\<rparr>, s1))
      else Inr (p, s))"

text \<open>
  The loop of \<^verbatim>\<open>parse\<close>: it ends with the format or the text; other characters of the format are
  skipped without looking at the text.
\<close>

fun parse_loop :: "string \<Rightarrow> parsed \<Rightarrow> string \<Rightarrow> parsed result" where
  "parse_loop [] p s = Inr p"
| "parse_loop (c # cs) p s =
     (if s = [] then Inr p
      else if c = CHR ''%'' then
        (case cs of [] \<Rightarrow> Inr p | f # rest \<Rightarrow> bind_r (parse_field f p s) (\<lambda>(p1, s1). parse_loop rest p1 s1))
      else parse_loop cs p s)"

text \<open>\<^verbatim>\<open>parse\<close> into an existing object and offset.\<close>

definition parse_into :: "string \<Rightarrow> string \<Rightarrow> date_time \<Rightarrow> (date_time \<times> int) result" where
  "parse_into fmt str d =
     bind_r (parse_loop fmt ps_init str) (\<lambda>p.
       let month = (if ps_month p = 0 then 1 else ps_month p);
           day = (if ps_day p = 0 then 1 else ps_day p)
       in if isValid (ps_year p) month day (ps_hour p) (ps_minute p) (ps_second p) (ps_millis p) (ps_micros p)
          then bind_r (dt_assign d (ps_year p) month day (ps_hour p) (ps_minute p) (ps_second p)
                         (ps_millis p) (ps_micros p)) (\<lambda>d1. Inr (d1, ps_tzd p))
          else Inl RuntimeError)"

text \<open>\<^verbatim>\<open>tryParse\<close>: the flag, and the object and offset, which keep their values on failure.\<close>

definition tryParse_fmt :: "string \<Rightarrow> string \<Rightarrow> date_time \<times> int \<Rightarrow> (bool \<times> date_time \<times> int) result" where
  "tryParse_fmt fmt str old =
     (case parse_into fmt str (fst old) of
        Inr r \<Rightarrow> Inr (True, r)
      | Inl e \<Rightarrow> if catchable e then Inr (False, old) else Inl e)"

definition find_char :: "char \<Rightarrow> string \<Rightarrow> nat option" where
  "find_char c s = (let n = length (takeWhile (\<lambda>x. x \<noteq> c) s) in if n < length s then Some n else None)"

definition tryParse :: "string \<Rightarrow> date_time \<times> int \<Rightarrow> (bool \<times> date_time \<times> int) result" where
  "tryParse str old =
     (if length str < 4 then Inr (False, old)
      else if str ! 3 = CHR '','' then tryParse_fmt ''%w, %e %b %r %H:%M:%S %Z'' str old
      else if str ! 3 = CHR '' '' then tryParse_fmt ASCTIME_FORMAT str old
      else if (case find_char CHR '','' str of Some n \<Rightarrow> n < 10 | None \<Rightarrow> False) then
        tryParse_fmt ''%W, %e %b %r %H:%M:%S %Z'' str old
      else if is_digit (str ! 0) then
        (if find_char CHR '' '' str \<noteq> None \<or> length str = 10 then tryParse_fmt SORTABLE_FORMAT str old
         else if find_char CHR ''.'' str \<noteq> None \<or> find_char CHR '','' str \<noteq> None then
           tryParse_fmt ISO8601_FRAC_FORMAT str old
         else tryParse_fmt ISO8601_FORMAT str old)
      else Inr (False, old))"

definition parse_any :: "string \<Rightarrow> date_time \<times> int \<Rightarrow> (date_time \<times> int) result" where
  "parse_any str old =
     bind_r (tryParse str old) (\<lambda>(ok, r). if ok then Inr r else Inl RuntimeError)"

end
