(* ===== verification/Date_Text.thy ===== *)
theory Date_Text
  imports Date_Format
begin

text \<open>
  What \<^verbatim>\<open>DateTimeFormatter\<close> prints \<^verbatim>\<open>DateTimeParser\<close> reads back. The lemmas follow the fields of a
  format: a number printed with leading zeros is read whole by \<open>PARSE_NUMBER_N\<close>, the separators
  are skipped, and the zone designator gives its offset.
\<close>

subsection \<open>Numbers\<close>

text \<open>The value a number takes when the digits \<open>s\<close> follow.\<close>

definition digits_value :: "int \<Rightarrow> string \<Rightarrow> int" where
  "digits_value v s = foldl (\<lambda>acc c. 10 * acc + int (digit_val c)) v s"

lemma digits_value_simps [simp]:
  "digits_value v [] = v"
  "digits_value v (c # s) = digits_value (10 * v + int (digit_val c)) s"
  by (simp_all add: digits_value_def)

lemma digits_value_append [simp]: "digits_value v (s @ t) = digits_value (digits_value v s) t"
  by (simp add: digits_value_def)

lemma digits_value_dec: "digits_value 0 s = int (dec_value s)"
proof -
  have "digits_value (int n) s = int (foldl (\<lambda>acc c. 10 * acc + digit_val c) n s)" for n
  proof (induction s arbitrary: n)
    case (Cons c s)
    show ?case using Cons [of "10 * n + digit_val c"] by simp
  qed simp
  from this [of 0] show ?thesis by (simp add: dec_value_def)
qed

lemma digits_value_ge: "0 \<le> v \<Longrightarrow> v \<le> digits_value v s"
proof (induction s arbitrary: v)
  case (Cons c s)
  have "v \<le> 10 * v + int (digit_val c)" using Cons.prems by simp
  also have "\<dots> \<le> digits_value (10 * v + int (digit_val c)) s" using Cons.prems by (intro Cons.IH) simp
  finally show ?case by simp
qed simp

lemma push_digit_small:
  assumes "0 \<le> v" "10 * v + int (digit_val c) < 2 ^ 31"
  shows "push_digit v c = Inr (10 * v + int (digit_val c))"
  using assms by (simp add: push_digit_def chk32_def mult.commute)

text \<open>At most \<open>n\<close> digits are read, and they are read whole unless the text goes on with a digit.\<close>

lemma PARSE_NUMBER_N_digits:
  assumes "list_all is_digit ds" "length ds \<le> n" "0 \<le> v" "digits_value v ds < 2 ^ 31"
    "length ds = n \<or> s = [] \<or> \<not> is_digit (hd s)"
  shows "PARSE_NUMBER_N n v (ds @ s) = Inr (digits_value v ds, s)"
  using assms
proof (induction ds arbitrary: n v)
  case Nil
  then show ?case by (cases n; cases s) simp_all
next
  case (Cons c ds)
  obtain k where n: "n = Suc k" using Cons.prems by (cases n) simp_all
  have v: "0 \<le> 10 * v + int (digit_val c)" using Cons.prems by simp
  have "push_digit v c = Inr (10 * v + int (digit_val c))"
    using Cons.prems digits_value_ge [OF v, of ds] by (intro push_digit_small) simp_all
  then show ?case using Cons.IH [of k "10 * v + int (digit_val c)"] Cons.prems v n by simp
qed

lemma PARSE_NUMBER_digits:
  assumes "list_all is_digit ds" "0 \<le> v" "digits_value v ds < 2 ^ 31" "s = [] \<or> \<not> is_digit (hd s)"
  shows "PARSE_NUMBER v (ds @ s) = Inr (digits_value v ds, s)"
  using assms
proof (induction ds arbitrary: v)
  case Nil
  then show ?case by (cases s) simp_all
next
  case (Cons c ds)
  have v: "0 \<le> 10 * v + int (digit_val c)" using Cons.prems by simp
  have "push_digit v c = Inr (10 * v + int (digit_val c))"
    using Cons.prems digits_value_ge [OF v, of ds] by (intro push_digit_small) simp_all
  then show ?case using Cons.IH [of "10 * v + int (digit_val c)"] Cons.prems v by simp
qed

lemma PARSE_FRACTIONAL_N_digits:
  assumes "list_all is_digit ds" "0 \<le> v" "digits_value v ds < 2 ^ 31"
  shows "PARSE_FRACTIONAL_N (length ds) v (ds @ s) = Inr (digits_value v ds, s)"
  using assms
proof (induction ds arbitrary: v)
  case (Cons c ds)
  have v: "0 \<le> 10 * v + int (digit_val c)" using Cons.prems by simp
  have "push_digit v c = Inr (10 * v + int (digit_val c))"
    using Cons.prems digits_value_ge [OF v, of ds] by (intro push_digit_small) simp_all
  then show ?case using Cons.IH [of "10 * v + int (digit_val c)"] Cons.prems v by simp
qed simp

lemma digits_value_shift: "digits_value v s = v * 10 ^ length s + digits_value 0 s"
proof (induction s arbitrary: v)
  case (Cons c s)
  show ?case using Cons [of "10 * v + int (digit_val c)"] Cons [of "int (digit_val c)"] by (simp add: algebra_simps)
qed simp

lemma digits_value_bound: "list_all is_digit s \<Longrightarrow> digits_value 0 s < 10 ^ length s"
proof (induction s)
  case (Cons c s)
  have "int (digit_val c) \<le> 9" using Cons.prems by (auto simp: digit_val_def is_digit_def)
  then have "int (digit_val c) * 10 ^ length s \<le> 9 * 10 ^ length s" by (intro mult_right_mono) simp_all
  moreover have "digits_value 0 s < 10 ^ length s" using Cons by simp
  moreover have "digits_value 0 (c # s) = int (digit_val c) * 10 ^ length s + digits_value 0 s"
    using digits_value_shift [of "int (digit_val c)" s] by simp
  ultimately show ?case unfolding length_Cons power_Suc by linarith
qed simp

lemma unique_digits:
  assumes "a * k + b = c * k + d" "0 \<le> b" "b < k" "0 \<le> d" "d < (k :: int)"
  shows "a = c" "b = d"
proof -
  have "(a * k + b) div k = a" "(c * k + d) div k = c" using assms(2-5) by simp_all
  then show "a = c" using assms(1) by simp
  then show "b = d" using assms(1) by simp
qed

text \<open>A number with leading zeros: digits, as many as asked for.\<close>

lemma padded:
  assumes "0 \<le> v" "v < 10 ^ k" "0 < k"
  shows "list_all is_digit (zero_padded v k)" "length (zero_padded v k) = k" "digits_value 0 (zero_padded v k) = v"
  using assms zero_padded_digits [of v k] zero_padded_width [of v k] by (simp_all add: digits_value_dec)

lemma PARSE_NUMBER_N_padded:
  assumes "0 \<le> v" "v < 10 ^ k" "0 < k" "k \<le> 9"
  shows "PARSE_NUMBER_N k 0 (zero_padded v k @ s) = Inr (v, s)"
proof -
  have "(10 :: int) ^ k \<le> 10 ^ 9" using assms by (intro power_increasing) simp_all
  then have "v < 2 ^ 31" using assms by simp
  then show ?thesis using assms PARSE_NUMBER_N_digits [of "zero_padded v k" k 0 s] by (simp add: padded)
qed

lemma SKIP_JUNK_padded:
  assumes "0 \<le> v" "v < 10 ^ k" "0 < k"
  shows "SKIP_JUNK (zero_padded v k @ s) = zero_padded v k @ s"
  using padded [OF assms] assms(3) by (cases "zero_padded v k") (simp_all add: SKIP_JUNK_def)

lemma SKIP_JUNK_skip [simp]:
  "\<not> is_digit c \<Longrightarrow> SKIP_JUNK (c # s) = SKIP_JUNK s"
  by (simp add: SKIP_JUNK_def)

lemma padded_Cons:
  assumes "0 \<le> v" "v < 10 ^ k" "0 < k"
  obtains c ds where "zero_padded v k = c # ds" "is_digit c"
  using padded [OF assms] assms(3) by (cases "zero_padded v k") auto

text \<open>The six digits of the microseconds are the three of \<open>ms\<close> and the three of \<open>us\<close>.\<close>

lemma parse_fraction_padded:
  assumes "0 \<le> ms" "ms \<le> 999" "0 \<le> us" "us \<le> 999" "ps_millis p = 0" "ps_micros p = 0" "s = [] \<or> \<not> is_digit (hd s)"
  shows "parse_fraction p (zero_padded (ms * 1000 + us) 6 @ s) = Inr (p\<lparr>ps_millis := ms, ps_micros := us\<rparr>, s)"
proof -
  define ds a b where "ds = zero_padded (ms * 1000 + us) 6" and "a = take 3 ds" and "b = drop 3 ds"
  have "0 \<le> ms * 1000 + us" "ms * 1000 + us < 10 ^ 6" "0 < (6 :: nat)" using assms by simp_all
  note P = padded [OF this, folded ds_def]
  have ab: "ds = a @ b" "length a = 3" "length b = 3" "list_all is_digit a" "list_all is_digit b"
    using P by (auto simp: a_def b_def list_all_iff dest: in_set_takeD in_set_dropD)
  have "digits_value 0 b < 1000" "0 \<le> digits_value 0 b"
    using digits_value_bound [OF ab(5)] digits_value_ge [of 0 b] by (simp_all add: ab(3))
  moreover have "digits_value 0 a * 1000 + digits_value 0 b = ms * 1000 + us"
    using P(3) digits_value_shift [of "digits_value 0 a" b] by (simp add: ab)
  ultimately have v: "digits_value 0 a = ms" "digits_value 0 b = us"
    using assms(3,4) unique_digits [of "digits_value 0 a" 1000 "digits_value 0 b" ms us] by simp_all
  have "PARSE_FRACTIONAL_N 3 0 (a @ b @ s) = Inr (ms, b @ s)" "PARSE_FRACTIONAL_N 3 0 (b @ s) = Inr (us, s)"
    using PARSE_FRACTIONAL_N_digits [of a 0 "b @ s"] PARSE_FRACTIONAL_N_digits [of b 0 s] ab v assms by simp_all
  moreover have "SKIP_DIGITS s = s" using assms(7) by (cases s) (simp_all add: SKIP_DIGITS_def)
  ultimately show ?thesis using assms ab(1) by (simp add: parse_fraction_def ds_def [symmetric])
qed

subsection \<open>Zones\<close>

definition zone_offset :: "int \<Rightarrow> int" where
  "zone_offset tzd = (if tzd = fmt_UTC then 0 else tzd)"

definition whole_minutes :: "int \<Rightarrow> bool" where
  "whole_minutes tzd \<longleftrightarrow> tzd = fmt_UTC \<or> - 360000 < tzd \<and> tzd < 360000 \<and> 60 dvd tzd"

definition zone_text :: "string \<Rightarrow> string \<Rightarrow> int \<Rightarrow> string" where
  "zone_text sep utc tzd =
     (if tzd = fmt_UTC then utc
      else (if 0 \<le> tzd then CHR ''+'' else CHR ''-'') #
        zero_padded (\<bar>tzd\<bar> div 3600) 2 @ sep @ zero_padded (\<bar>tzd\<bar> mod 3600 div 60) 2)"

lemma tzd_text_eq:
  assumes "whole_minutes tzd"
  shows "tzd_text sep utc str tzd = Inr (str @ zone_text sep utc tzd)"
proof (cases "tzd = fmt_UTC")
  case False
  then have "- 360000 < tzd" "tzd < 360000" using assms by (simp_all add: whole_minutes_def)
  then show ?thesis
  proof (cases "0 \<le> tzd")
    case True
    then show ?thesis using False by (simp add: tzd_text_def zone_text_def format0_def sdiv_nonneg smod_nonneg)
  next
    case neg: False
    define t where "t = - tzd"
    have "0 < t" "tzd = - t" using neg by (simp_all add: t_def)
    then have "- tzd sdiv 3600 = \<bar>tzd\<bar> div 3600" "- tzd smod 3600 sdiv 60 = \<bar>tzd\<bar> mod 3600 div 60"
      by (simp_all only: minus_minus abs_minus_cancel) (simp_all add: sdiv_nonneg smod_nonneg)
    then show ?thesis using False neg \<open>- 360000 < tzd\<close> by (simp only: tzd_text_def zone_text_def format0_def) simp
  qed
qed (simp add: tzd_text_def zone_text_def)

lemma zone_text_Cons: "zone_text sep ''Z'' tzd \<noteq> []" "\<not> is_digit (hd (zone_text sep ''Z'' tzd))"
  by (simp_all add: zone_text_def is_digit_def)

lemma parse_offset_text:
  assumes z: "whole_minutes tzd" "tzd \<noteq> fmt_UTC" and sep: "sep = '''' \<or> sep = '':''"
  shows "parseTZD (zone_text sep utc tzd) = Inr (tzd, [])"
proof -
  define h m where "h = \<bar>tzd\<bar> div 3600" and "m = \<bar>tzd\<bar> mod 3600 div 60"
  obtain j where j: "tzd = 60 * j" "- 6000 < j" "j < 6000"
    using z by (auto simp: whole_minutes_def elim!: dvdE)
  obtain k where k: "\<bar>tzd\<bar> = 60 * k" "0 \<le> k" "k < 6000"
    by (rule that [of "\<bar>j\<bar>"]) (use j in \<open>simp_all add: abs_mult\<close>)
  have hm: "h = k div 60" "m = k mod 60"
    unfolding h_def m_def k(1) using zdiv_zmult2_eq [of 60 "60 * k" 60] mod_mult_mult1 [of 60 k 60] by simp_all
  then have b: "0 \<le> h" "h < 10 ^ 2" "0 \<le> m" "m < 10 ^ 2"
    using k div_less_bound [of k 60 100] by (simp_all add: pos_imp_zdiv_nonneg_iff)
  have e: "h * 3600 + m * 60 = \<bar>tzd\<bar>" using mult_div_mod_eq [of 60 k] unfolding k(1) hm by linarith
  have n: "PARSE_NUMBER_N 2 0 (zero_padded h 2 @ s) = Inr (h, s)" "PARSE_NUMBER_N 2 0 (zero_padded m 2) = Inr (m, [])" for s
    using PARSE_NUMBER_N_padded [of h 2 s] PARSE_NUMBER_N_padded [of m 2 "[]"] b by simp_all
  obtain c ds where c: "zero_padded m 2 = c # ds" "is_digit c" using padded_Cons [of m 2] b by auto
  have c': "c \<noteq> CHR '':''" using c(2) by (auto simp: is_digit_def)
  have p: "parse_offset 0 (x # zero_padded h 2 @ sep @ zero_padded m 2) =
      Inr ((if x = CHR ''+'' then 1 else -1) * (h * 3600 + m * 60), [])" if "x = CHR ''+'' \<or> x = CHR ''-''" for x
    using that sep n c c' by (auto simp: parse_offset_def)
  have "parseTZD (zone_text sep utc tzd) = parse_offset 0 (zone_text sep utc tzd)"
    using z by (simp add: parseTZD_def zone_text_def is_space_def is_alpha_def is_upper_def is_lower_def)
  then show ?thesis using z e p [of "CHR ''+''"] p [of "CHR ''-''"] 
    by (simp add: zone_text_def h_def [symmetric] m_def [symmetric])
qed

lemma parse_designator: "parseTZD ''Z'' = Inr (0, [])" "parseTZD ''GMT'' = Inr (0, [])"
  by code_simp+

lemma parseTZD_text:
  assumes "whole_minutes tzd"
  shows "parseTZD (zone_text '':'' ''Z'' tzd) = Inr (zone_offset tzd, [])"
    "parseTZD (zone_text '''' ''GMT'' tzd) = Inr (zone_offset tzd, [])"
proof -
  show "parseTZD (zone_text '':'' ''Z'' tzd) = Inr (zone_offset tzd, [])"
    using assms parse_offset_text [of tzd "'':''" "''Z''"]
    by (cases "tzd = fmt_UTC") (simp_all add: parse_designator(1) zone_text_def zone_offset_def)
  show "parseTZD (zone_text '''' ''GMT'' tzd) = Inr (zone_offset tzd, [])"
    using assms parse_offset_text [of tzd "''''" "''GMT''"]
    by (cases "tzd = fmt_UTC") (simp_all add: parse_designator(2) zone_text_def zone_offset_def)
qed

subsection \<open>Fields\<close>

lemma parse_loop_field:
  "s \<noteq> [] \<Longrightarrow> parse_field f p s = Inr (p1, s1) \<Longrightarrow> parse_loop (CHR ''%'' # f # rest) p s = parse_loop rest p1 s1"
  by simp

lemma parse_loop_literal: "c \<noteq> CHR ''%'' \<Longrightarrow> s \<noteq> [] \<Longrightarrow> parse_loop (c # rest) p s = parse_loop rest p s"
  by simp

declare parse_loop.simps(2) [simp del]

text \<open>The text of a number field: anything without digits, and the padded number.\<close>

lemma SKIP_JUNK_number:
  assumes "0 \<le> v" "v < 10 ^ k" "0 < k" "list_all (\<lambda>c. \<not> is_digit c) t"
  shows "SKIP_JUNK (t @ zero_padded v k @ s) = zero_padded v k @ s"
  using assms(4) by (induction t) (simp_all add: SKIP_JUNK_padded [OF assms(1-3)])

lemma number_field:
  assumes "0 \<le> v" "v < 10 ^ 2" "list_all (\<lambda>c. \<not> is_digit c) t"
  shows "ps_day p = 0 \<Longrightarrow> f \<in> {CHR ''d'', CHR ''e'', CHR ''f''} \<Longrightarrow>
      parse_field f p (t @ zero_padded v 2 @ s) = Inr (p\<lparr>ps_day := v\<rparr>, s)"
    "ps_month p = 0 \<Longrightarrow> parse_field CHR ''m'' p (t @ zero_padded v 2 @ s) = Inr (p\<lparr>ps_month := v\<rparr>, s)"
    "ps_hour p = 0 \<Longrightarrow> parse_field CHR ''H'' p (t @ zero_padded v 2 @ s) = Inr (p\<lparr>ps_hour := v\<rparr>, s)"
    "ps_minute p = 0 \<Longrightarrow> parse_field CHR ''M'' p (t @ zero_padded v 2 @ s) = Inr (p\<lparr>ps_minute := v\<rparr>, s)"
    "ps_second p = 0 \<Longrightarrow> parse_field CHR ''S'' p (t @ zero_padded v 2 @ s) = Inr (p\<lparr>ps_second := v\<rparr>, s)"
  using SKIP_JUNK_number [OF assms(1,2) _ assms(3), of s] PARSE_NUMBER_N_padded [OF assms(1,2), of s]
  by (auto simp: parse_field_def)

lemma seconds_field:
  assumes "0 \<le> v" "v < 10 ^ 2" "list_all (\<lambda>c. \<not> is_digit c) t"
    "0 \<le> ms" "ms \<le> 999" "0 \<le> us" "us \<le> 999" "s = [] \<or> \<not> is_digit (hd s)"
    "ps_second p = 0" "ps_millis p = 0" "ps_micros p = 0"
  shows "parse_field CHR ''s'' p (t @ zero_padded v 2 @ CHR ''.'' # zero_padded (ms * 1000 + us) 6 @ s) =
      Inr (p\<lparr>ps_second := v, ps_millis := ms, ps_micros := us\<rparr>, s)"
  using SKIP_JUNK_number [OF assms(1,2) _ assms(3)] PARSE_NUMBER_N_padded [OF assms(1,2)]
    parse_fraction_padded [OF assms(4-7), of "p\<lparr>ps_second := v\<rparr>" s] assms(8-)
  by (simp add: parse_field_def)

lemma year_field:
  assumes "0 \<le> v" "v < 10 ^ 4" "list_all (\<lambda>c. \<not> is_digit c) t" "ps_year p = 0"
  shows "parse_field CHR ''Y'' p (t @ zero_padded v 4 @ s) = Inr (p\<lparr>ps_year := v\<rparr>, s)"
    "1000 \<le> v \<Longrightarrow> s = [] \<or> \<not> is_digit (hd s) \<Longrightarrow>
       parse_field CHR ''r'' p (t @ zero_padded v 4 @ s) = Inr (p\<lparr>ps_year := v\<rparr>, s)"
  using SKIP_JUNK_number [OF assms(1,2) _ assms(3), of s] PARSE_NUMBER_N_padded [OF assms(1,2), of s]
    PARSE_NUMBER_digits [of "zero_padded v 4" 0 s] padded [OF assms(1,2)] assms
  by (simp_all add: parse_field_def)

lemma zone_field:
  assumes "whole_minutes tzd"
  shows "parse_field CHR ''z'' p (zone_text '':'' ''Z'' tzd) = Inr (p\<lparr>ps_tzd := zone_offset tzd\<rparr>, [])"
    "parse_field CHR ''Z'' p (zone_text '''' ''GMT'' tzd) = Inr (p\<lparr>ps_tzd := zone_offset tzd\<rparr>, [])"
  using parseTZD_text [OF assms] by (simp_all add: parse_field_def)

subsection \<open>ISO 8601\<close>

lemma ps_init_parts [simp]:
  "ps_year ps_init = 0" "ps_month ps_init = 0" "ps_day ps_init = 0" "ps_hour ps_init = 0" "ps_minute ps_init = 0"
  "ps_second ps_init = 0" "ps_millis ps_init = 0" "ps_micros ps_init = 0"
  by (simp_all add: ps_init_def)

lemma wf_bounds:
  assumes "wf_date_time d"
  shows "1582 \<le> dt_year d" "dt_year d < 10 ^ 4" "1 \<le> dt_month d" "dt_month d \<le> 12" "dt_month d < 10 ^ 2"
    "0 \<le> dt_day d" "1 \<le> dt_day d" "dt_day d < 10 ^ 2"
    "0 \<le> dt_hour d" "dt_hour d < 10 ^ 2" "0 \<le> dt_minute d" "dt_minute d < 10 ^ 2" "0 \<le> dt_second d" "dt_second d < 10 ^ 2"
    "0 \<le> dt_millisecond d" "dt_millisecond d \<le> 999" "0 \<le> dt_microsecond d" "dt_microsecond d \<le> 999"
  using wf_isValid [OF assms] wf_year [OF assms] valid_dateD [of "dt_year d" "dt_month d" "dt_day d"]
  by (simp_all add: isValid_iff)

lemma parse_into_fields:
  assumes d: "wf_date_time d" and "10 dvd dt_utcTime d"
    and p: "parse_loop fmt ps_init s = Inr \<lparr>ps_year = dt_year d, ps_month = dt_month d, ps_day = dt_day d,
      ps_hour = dt_hour d, ps_minute = dt_minute d, ps_second = dt_second d,
      ps_millis = dt_millisecond d, ps_micros = dt_microsecond d, ps_tzd = z\<rparr>"
  shows "parse_into fmt s old = Inr (d, z)"
proof -
  note v = wf_isValid [OF d] and b = wf_bounds [OF d]
  have f: "fields_of_utc (dt_utcTime d) = d" using d by (simp add: wf_date_time_def)
  have u: "utc_of_fields (dt_year d) (dt_month d) (dt_day d) (dt_hour d) (dt_minute d) (dt_second d)
      (dt_millisecond d) (dt_microsecond d) = dt_utcTime d"
    using utc_of_fields_of_utc(1) [OF f] assms(2) by simp
  have "dt_assign old (dt_year d) (dt_month d) (dt_day d) (dt_hour d) (dt_minute d) (dt_second d)
      (dt_millisecond d) (dt_microsecond d) = dt_make (dt_year d) (dt_month d) (dt_day d) (dt_hour d) (dt_minute d) (dt_second d)
      (dt_millisecond d) (dt_microsecond d)"
    by (cases old) (simp add: dt_assign_def dt_make_def)
  also have "\<dots> = Inr d" unfolding dt_make_exact [OF v] u by simp
  finally have a: "dt_assign old (dt_year d) (dt_month d) (dt_day d) (dt_hour d) (dt_minute d) (dt_second d)
      (dt_millisecond d) (dt_microsecond d) = Inr d" .
  have "dt_month d \<noteq> 0" "dt_day d \<noteq> 0" using b by simp_all
  then show ?thesis by (simp add: parse_into_def p v a)
qed

definition iso_text :: "date_time \<Rightarrow> int \<Rightarrow> string" where
  "iso_text d tzd = zero_padded (dt_year d) 4 @ ''-'' @ zero_padded (dt_month d) 2 @ ''-'' @ zero_padded (dt_day d) 2 @
     ''T'' @ zero_padded (dt_hour d) 2 @ '':'' @ zero_padded (dt_minute d) 2 @ '':'' @ zero_padded (dt_second d) 2 @
     ''.'' @ zero_padded (dt_millisecond d * 1000 + dt_microsecond d) 6 @ zone_text '':'' ''Z'' tzd"

lemma format_iso:
  assumes "whole_minutes tzd"
  shows "fmt_format d ISO8601_FRAC_FORMAT tzd = Inr (iso_text d tzd)"
  by (simp add: fmt_format_def fmt_append_def ISO8601_FRAC_FORMAT_def fmt_field_def format0_def tzdISO_def
      tzd_text_eq [OF assms] iso_text_def)

lemma parse_iso:
  assumes d: "wf_date_time d" and z: "whole_minutes tzd"
  shows "parse_loop ISO8601_FRAC_FORMAT ps_init (iso_text d tzd) =
    Inr \<lparr>ps_year = dt_year d, ps_month = dt_month d, ps_day = dt_day d, ps_hour = dt_hour d, ps_minute = dt_minute d,
      ps_second = dt_second d, ps_millis = dt_millisecond d, ps_micros = dt_microsecond d, ps_tzd = zone_offset tzd\<rparr>"
proof -
  note b = wf_bounds [OF d]
  have y: "zero_padded (dt_year d) 4 \<noteq> []" using padded(2) [of "dt_year d" 4] b by auto
  have f: "ps_year p = 0 \<Longrightarrow> parse_field CHR ''Y'' p (zero_padded (dt_year d) 4 @ s) = Inr (p\<lparr>ps_year := dt_year d\<rparr>, s)"
    "ps_month p = 0 \<Longrightarrow> parse_field CHR ''m'' p (CHR ''-'' # zero_padded (dt_month d) 2 @ s) = Inr (p\<lparr>ps_month := dt_month d\<rparr>, s)"
    "ps_day p = 0 \<Longrightarrow> parse_field CHR ''d'' p (CHR ''-'' # zero_padded (dt_day d) 2 @ s) = Inr (p\<lparr>ps_day := dt_day d\<rparr>, s)"
    "ps_hour p = 0 \<Longrightarrow> parse_field CHR ''H'' p (CHR ''T'' # zero_padded (dt_hour d) 2 @ s) = Inr (p\<lparr>ps_hour := dt_hour d\<rparr>, s)"
    "ps_minute p = 0 \<Longrightarrow> parse_field CHR ''M'' p (CHR '':'' # zero_padded (dt_minute d) 2 @ s) = Inr (p\<lparr>ps_minute := dt_minute d\<rparr>, s)"
    "ps_second p = 0 \<Longrightarrow> ps_millis p = 0 \<Longrightarrow> ps_micros p = 0 \<Longrightarrow> s = [] \<or> \<not> is_digit (hd s) \<Longrightarrow>
       parse_field CHR ''s'' p (CHR '':'' # zero_padded (dt_second d) 2 @ CHR ''.'' # zero_padded (dt_millisecond d * 1000 + dt_microsecond d) 6 @ s) =
       Inr (p\<lparr>ps_second := dt_second d, ps_millis := dt_millisecond d, ps_micros := dt_microsecond d\<rparr>, s)"
    for p s
    using year_field(1) [of "dt_year d" "[]"] number_field(1) [of "dt_day d" "''-''"] number_field(2) [of "dt_month d" "''-''"]
      number_field(3) [of "dt_hour d" "''T''"] number_field(4) [of "dt_minute d" "'':''"] seconds_field [of "dt_second d" "'':''"] b
    by (simp_all add: is_digit_def)
  show ?thesis
    by (simp add: iso_text_def ISO8601_FRAC_FORMAT_def parse_loop.simps(2) y f zone_text_Cons zone_field [OF z])
qed

lemma find_char_None: "find_char c s = None \<longleftrightarrow> c \<notin> set s"
proof -
  have "length (takeWhile (\<lambda>x. x \<noteq> c) s) < length s \<longleftrightarrow> c \<in> set s"
    by (induction s) auto
  then show ?thesis by (simp add: find_char_def Let_def)
qed

lemma padded_set:
  assumes "0 \<le> v" "c \<in> set (zero_padded v k)"
  shows "is_digit c"
  using zero_padded_digits(1) [OF assms(1), of k] assms(2) by (simp add: list_all_iff)

lemma padded_nth:
  assumes "0 \<le> v" "v < 10 ^ k" "0 < k" "i < k"
  shows "is_digit ((zero_padded v k @ s) ! i)"
  using padded [OF assms(1-3)] assms(4) by (simp add: nth_append list_all_length)

lemma iso_text_chars:
  assumes "wf_date_time d" "c \<in> set (iso_text d tzd)"
  shows "is_digit c \<or> c \<in> set ''-T:.+Z''"
  using assms(2) wf_bounds [OF assms(1)]
  by (auto simp: iso_text_def zone_text_def split: if_splits dest: padded_set [rotated])

lemma iso_text_roundtrip:
  assumes "wf_date_time d" "10 dvd dt_utcTime d" "whole_minutes tzd"
  shows "\<exists>txt. fmt_format d ISO8601_FRAC_FORMAT tzd = Inr txt \<and> tryParse txt old = Inr (True, d, zone_offset tzd)"
proof -
  note b = wf_bounds [OF assms(1)]
  have p: "parse_into ISO8601_FRAC_FORMAT (iso_text d tzd) old' = Inr (d, zone_offset tzd)" for old'
    using assms(1,2) parse_iso [OF assms(1,3)] by (rule parse_into_fields)
  have n: "is_digit (iso_text d tzd ! 3)" "is_digit (iso_text d tzd ! 0)"
    unfolding iso_text_def using b by (intro padded_nth; simp)+
  have l: "10 < length (iso_text d tzd)"
    using padded(2) [of "dt_year d" 4] padded(2) [of "dt_month d" 2] padded(2) [of "dt_day d" 2] b by (simp add: iso_text_def)
  have c: "CHR '','' \<notin> set (iso_text d tzd)" "CHR '' '' \<notin> set (iso_text d tzd)"
    using iso_text_chars [OF assms(1), of "CHR '',''" tzd] iso_text_chars [OF assms(1), of "CHR '' ''" tzd]
    by (auto simp: is_digit_def)
  have f: "find_char CHR '','' (iso_text d tzd) = None" "find_char CHR '' '' (iso_text d tzd) = None"
    "find_char CHR ''.'' (iso_text d tzd) \<noteq> None"
    unfolding find_char_None using c by (simp_all add: iso_text_def)
  have "iso_text d tzd ! 3 \<noteq> CHR '',''" "iso_text d tzd ! 3 \<noteq> CHR '' ''" using n(1) by (auto simp: is_digit_def)
  then have "tryParse (iso_text d tzd) old = Inr (True, d, zone_offset tzd)"
    using n(2) l f by (simp add: tryParse_def tryParse_fmt_def p)
  then show ?thesis using format_iso [OF assms(3)] by blast
qed

text \<open>
  C35 (roundtrip). What the formatter prints in \<^verbatim>\<open>ISO8601_FRAC_FORMAT\<close> is a text the parser recognises by
  itself: \<^verbatim>\<open>tryParse\<close> without a format gives the date back, to the microsecond, and the offset of
  the zone, whatever the date and the variables held before; for every date between 1582 and
  9999 and every zone of whole minutes below 100 hours.
\<close>
theorem iso_date_roundtrip:
  assumes "wf_date_time d" "10 dvd dt_utcTime d" "whole_minutes tzd"
  shows "\<exists>txt. fmt_format d ISO8601_FRAC_FORMAT tzd = Inr txt \<and> tryParse txt old = Inr (True, d, zone_offset tzd)"
  using assms by (rule iso_text_roundtrip)

lemma reform_wf: "wf_date_time (fields_of_utc 0)"
  using recompute_wf(2) [of "uninitialised 0"] by (simp add: uninitialised_def)

theorem iso_date_roundtrip_witness:
  "\<exists>txt. fmt_format (fields_of_utc 0) ISO8601_FRAC_FORMAT (-12600) = Inr txt \<and>
     tryParse txt (fields_of_utc 0, 7) = Inr (True, fields_of_utc 0, zone_offset (-12600))"
  using iso_date_roundtrip [of "fields_of_utc 0" "-12600" "(fields_of_utc 0, 7)"] reform_wf by (simp add: whole_minutes_def)

subsection \<open>HTTP\<close>

lemma dayOfWeek_bounds:
  assumes "0 \<le> dt_utcTime d"
  shows "0 \<le> dayOfWeek d" "dayOfWeek d < 7"
proof -
  have nn: "0 \<le> fl x" if "0 \<le> x" for x
  proof -
    have "\<bar>x\<bar> / 2 ^ 53 \<le> x" using that by simp
    then have "\<bar>fl x - x\<bar> \<le> x" using fl_error [of x] by (rule order_trans [rotated])
    then show ?thesis by (simp add: abs_le_iff)
  qed
  have "0 \<le> fl (julianDay d + 3 / 2)"
    unfolding julianDay_def toJulianDay_utc_def using assms by (intro nn add_nonneg_nonneg divide_nonneg_nonneg) simp_all
  then have "0 \<le> \<lfloor>fl (julianDay d + 3 / 2)\<rfloor>" by simp
  then show "0 \<le> dayOfWeek d" "dayOfWeek d < 7" by (simp_all add: dayOfWeek_def smod_nonneg)
qed

lemma weekday_text:
  assumes "0 \<le> n" "n < 7"
  shows "\<exists>a b c. array_get WEEKDAY_NAMES n = Inr (WEEKDAY_NAMES ! nat n) \<and> take 3 (WEEKDAY_NAMES ! nat n) = [a, b, c] \<and>
    is_alpha a \<and> is_alpha b \<and> is_alpha c \<and> \<not> is_space a"
proof -
  have "n = 0 \<or> n = 1 \<or> n = 2 \<or> n = 3 \<or> n = 4 \<or> n = 5 \<or> n = 6" using assms by presburger
  then show ?thesis
    by (elim disjE) (simp_all add: array_get_def WEEKDAY_NAMES_def is_alpha_def is_upper_def is_lower_def is_space_def)
qed

lemma month_text:
  assumes "1 \<le> m" "m \<le> 12"
  shows "array_get MONTH_NAMES (m - 1) = Inr (MONTH_NAMES ! nat (m - 1))"
    "parseMonth (CHR '' '' # take 3 (MONTH_NAMES ! nat (m - 1)) @ CHR '' '' # s) = Inr (m, CHR '' '' # s)"
proof -
  have c: "m = 1 \<or> m = 2 \<or> m = 3 \<or> m = 4 \<or> m = 5 \<or> m = 6 \<or> m = 7 \<or> m = 8 \<or> m = 9 \<or> m = 10 \<or> m = 11 \<or> m = 12"
    using assms by presburger
  show "array_get MONTH_NAMES (m - 1) = Inr (MONTH_NAMES ! nat (m - 1))"
    using assms by (simp add: array_get_def MONTH_NAMES_def nat_less_iff)
  show "parseMonth (CHR '' '' # take 3 (MONTH_NAMES ! nat (m - 1)) @ CHR '' '' # s) = Inr (m, CHR '' '' # s)"
    using c by (elim disjE) (simp_all add: parseMonth_def parse_name_def MONTH_NAMES_def Let_def is_alpha_def is_upper_def is_lower_def
        is_space_def is_punct_def is_alnum_def is_digit_def toupper_c_def tolower_c_def)
qed

lemma parseTZD_space: "parseTZD (CHR '' '' # s) = parseTZD s"
  by (simp add: parseTZD_def is_space_def)

definition http_text :: "date_time \<Rightarrow> int \<Rightarrow> string" where
  "http_text d tzd = take 3 (WEEKDAY_NAMES ! nat (dayOfWeek d)) @ '', '' @ zero_padded (dt_day d) 2 @
     '' '' @ take 3 (MONTH_NAMES ! nat (dt_month d - 1)) @ '' '' @ zero_padded (dt_year d) 4 @
     '' '' @ zero_padded (dt_hour d) 2 @ '':'' @ zero_padded (dt_minute d) 2 @ '':'' @ zero_padded (dt_second d) 2 @
     '' '' @ zone_text '''' ''GMT'' tzd"

lemma format_http:
  assumes d: "wf_date_time d" and z: "whole_minutes tzd"
  shows "fmt_format d HTTP_FORMAT tzd = Inr (http_text d tzd)"
proof -
  have "0 \<le> dt_utcTime d" using d by (simp add: wf_date_time_def)
  note w = dayOfWeek_bounds [OF this] and b = wf_bounds [OF d]
  have "array_get WEEKDAY_NAMES (dayOfWeek d) = Inr (WEEKDAY_NAMES ! nat (dayOfWeek d))"
    using weekday_text [OF w] by blast
  moreover have "array_get MONTH_NAMES (dt_month d - 1) = Inr (MONTH_NAMES ! nat (dt_month d - 1))"
    using b by (intro month_text(1))
  ultimately show ?thesis
    by (simp add: fmt_format_def fmt_append_def HTTP_FORMAT_def fmt_field_def format0_def tzdRFC_def
        tzd_text_eq [OF z] http_text_def)
qed

lemma parse_http:
  assumes d: "wf_date_time d" and z: "whole_minutes tzd" and ms: "dt_millisecond d = 0" "dt_microsecond d = 0"
  shows "parse_loop ''%w, %e %b %r %H:%M:%S %Z'' ps_init (http_text d tzd) =
    Inr \<lparr>ps_year = dt_year d, ps_month = dt_month d, ps_day = dt_day d, ps_hour = dt_hour d, ps_minute = dt_minute d,
      ps_second = dt_second d, ps_millis = dt_millisecond d, ps_micros = dt_microsecond d, ps_tzd = zone_offset tzd\<rparr>"
    "http_text d tzd ! 3 = CHR '',''" "4 \<le> length (http_text d tzd)"
proof -
  have "0 \<le> dt_utcTime d" using d by (simp add: wf_date_time_def)
  note w = dayOfWeek_bounds [OF this] and b = wf_bounds [OF d]
  obtain x1 x2 x3 where x: "take 3 (WEEKDAY_NAMES ! nat (dayOfWeek d)) = [x1, x2, x3]"
    "is_alpha x1" "is_alpha x2" "is_alpha x3" "\<not> is_space x1"
    using weekday_text [OF w] by blast
  show "http_text d tzd ! 3 = CHR '',''" "4 \<le> length (http_text d tzd)" by (simp_all add: http_text_def x)
  have na: "\<not> is_alpha CHR '',''" by (simp add: is_alpha_def is_upper_def is_lower_def)
  have g: "parse_field CHR ''w'' p (x1 # x2 # x3 # CHR '','' # s) = Inr (p, CHR '','' # s)"
    "parse_field CHR ''b'' p (CHR '' '' # take 3 (MONTH_NAMES ! nat (dt_month d - 1)) @ CHR '' '' # s) = Inr (p\<lparr>ps_month := dt_month d\<rparr>, CHR '' '' # s)"
    "parse_field CHR ''Z'' p (CHR '' '' # zone_text '''' ''GMT'' tzd) = Inr (p\<lparr>ps_tzd := zone_offset tzd\<rparr>, [])"
    for p s
    using month_text(2) [of "dt_month d" s] parseTZD_text(2) [OF z] parseTZD_space b x na by (simp_all add: parse_field_def)
  have f: "ps_day p = 0 \<Longrightarrow> parse_field CHR ''e'' p (CHR '','' # CHR '' '' # zero_padded (dt_day d) 2 @ s) = Inr (p\<lparr>ps_day := dt_day d\<rparr>, s)"
    "ps_year p = 0 \<Longrightarrow> s = [] \<or> \<not> is_digit (hd s) \<Longrightarrow>
       parse_field CHR ''r'' p (CHR '' '' # zero_padded (dt_year d) 4 @ s) = Inr (p\<lparr>ps_year := dt_year d\<rparr>, s)"
    "ps_hour p = 0 \<Longrightarrow> parse_field CHR ''H'' p (CHR '' '' # zero_padded (dt_hour d) 2 @ s) = Inr (p\<lparr>ps_hour := dt_hour d\<rparr>, s)"
    "ps_minute p = 0 \<Longrightarrow> parse_field CHR ''M'' p (CHR '':'' # zero_padded (dt_minute d) 2 @ s) = Inr (p\<lparr>ps_minute := dt_minute d\<rparr>, s)"
    "ps_second p = 0 \<Longrightarrow> parse_field CHR ''S'' p (CHR '':'' # zero_padded (dt_second d) 2 @ s) = Inr (p\<lparr>ps_second := dt_second d\<rparr>, s)"
    for p s
    using number_field(1) [of "dt_day d" "'', ''"] year_field(2) [of "dt_year d" "'' ''"]
      number_field(3) [of "dt_hour d" "'' ''"] number_field(4) [of "dt_minute d" "'':''"] number_field(5) [of "dt_second d" "'':''"]
      b by (simp_all add: is_digit_def)
  show "parse_loop ''%w, %e %b %r %H:%M:%S %Z'' ps_init (http_text d tzd) =
    Inr \<lparr>ps_year = dt_year d, ps_month = dt_month d, ps_day = dt_day d, ps_hour = dt_hour d, ps_minute = dt_minute d,
      ps_second = dt_second d, ps_millis = dt_millisecond d, ps_micros = dt_microsecond d, ps_tzd = zone_offset tzd\<rparr>"
    unfolding http_text_def x(1)
    by (simp add: parse_loop.simps(2) f g ms is_digit_def)
qed

text \<open>
  C36 (roundtrip). A date in \<^verbatim>\<open>HTTP_FORMAT\<close>, with the names of the day and the month, is recognised by
  \<^verbatim>\<open>tryParse\<close> as well and gives the date and the offset back, for every date of whole seconds
  between 1582 and 9999.
\<close>
theorem http_date_roundtrip:
  assumes "wf_date_time d" "10000000 dvd dt_utcTime d" "whole_minutes tzd"
  shows "\<exists>txt. fmt_format d HTTP_FORMAT tzd = Inr txt \<and> tryParse txt old = Inr (True, d, zone_offset tzd)"
proof -
  have f: "fields_of_utc (dt_utcTime d) = d" using assms(1) by (simp add: wf_date_time_def)
  obtain k where k: "dt_utcTime d = 10000000 * k" using assms(2) by (elim dvdE)
  have ms: "dt_millisecond d = 0" "dt_microsecond d = 0"
    using fields_of_utc_parts(4,5) [of "dt_utcTime d"] f unfolding k
    using div_mult_mult1 [of 10000 "1000 * k" 1] div_mult_mult1 [of 10 "1000000 * k" 1] by simp_all
  note p = parse_http [OF assms(1,3) ms]
  have "10 dvd dt_utcTime d" using k by simp
  then have "parse_into ''%w, %e %b %r %H:%M:%S %Z'' (http_text d tzd) old' = Inr (d, zone_offset tzd)" for old'
    using p(1) by (rule parse_into_fields [OF assms(1)])
  then have "tryParse (http_text d tzd) old = Inr (True, d, zone_offset tzd)"
    using p(2,3) by (simp add: tryParse_def tryParse_fmt_def)
  then show ?thesis using format_http [OF assms(1,3)] by blast
qed

theorem http_date_roundtrip_witness:
  "\<exists>txt. fmt_format (fields_of_utc 0) HTTP_FORMAT fmt_UTC = Inr txt \<and>
     tryParse txt (fields_of_utc 0, 7) = Inr (True, fields_of_utc 0, zone_offset fmt_UTC)"
  using http_date_roundtrip [of "fields_of_utc 0" fmt_UTC "(fields_of_utc 0, 7)"] reform_wf by (simp add: whole_minutes_def)

subsection \<open>Where the parser fails\<close>

text \<open>Years before 1000 with \<^verbatim>\<open>%Y\<close> have four digits, but \<^verbatim>\<open>%r\<close> takes them for years of a century.\<close>

lemma small_years_move:
  "parse_field CHR ''r'' ps_init ''0999'' = Inr (ps_init\<lparr>ps_year := 2899\<rparr>, [])"
  "parse_field CHR ''r'' ps_init ''0068'' = Inr (ps_init\<lparr>ps_year := 2068\<rparr>, [])"
  by code_simp+

text \<open>The digits of the year are not bounded: eleven of them overflow the \<^verbatim>\<open>int\<close>.\<close>

lemma year_overflow: "tryParse ''Sun, 1 Jan 99999999999 00:00:00 GMT'' old = Inl Undefined"
proof -
  have "parse_loop ''%w, %e %b %r %H:%M:%S %Z'' ps_init ''Sun, 1 Jan 99999999999 00:00:00 GMT'' = Inl Undefined" by code_simp
  then show ?thesis by (simp add: tryParse_def tryParse_fmt_def parse_into_def)
qed

text \<open>Literal characters of a format are not looked for in the text.\<close>

lemma literals_ignored: "parse_loop ''%Y-%m-%d'' ps_init ''2016!02?29'' = parse_loop ''%Y-%m-%d'' ps_init ''2016-02-29''"
  by code_simp

text \<open>A letter that is not a zone is read as UTC.\<close>

lemma unknown_zone_is_utc: "parseTZD ''XYZ'' = Inr (0, [])"
  by code_simp

end
