(* ===== verification/Local_Date.thy ===== *)
theory Local_Date
  imports Date_Text
begin

text \<open>
  \<^verbatim>\<open>LocalDateTime\<close> of \<^verbatim>\<open>src/base/src/datetime.cpp\<close>: a wall-clock \<^verbatim>\<open>DateTime\<close> and its offset to UTC.
  What the C library knows of the time zone is a parameter, the record \<open>time_zone\<close>: the negated
  global \<^verbatim>\<open>timezone\<close>, the flag \<^verbatim>\<open>tm_isdst\<close> that \<^verbatim>\<open>localtime_r\<close> gives for a time (\<open>None\<close> when
  it fails) and the one \<^verbatim>\<open>mktime\<close> leaves for broken-down time.
\<close>

record time_zone =
  zn_offset :: int
  zn_localtime :: "int \<Rightarrow> int option"
  zn_mktime :: "int \<times> int \<times> int \<times> int \<times> int \<times> int \<Rightarrow> int \<times> int"

record local_date_time =
  ldt_dateTime :: date_time
  ldt_tzd :: int

subsection \<open>Timezone\<close>

definition tz_utcOffset :: "time_zone \<Rightarrow> int" where
  "tz_utcOffset z = zn_offset z"

definition tz_dst :: "time_zone \<Rightarrow> int \<Rightarrow> int result" where
  "tz_dst z now = (case zn_localtime z now of None \<Rightarrow> Inl RuntimeError | Some f \<Rightarrow> Inr (if f = 1 then 3600 else 0))"

definition tz_isDst :: "time_zone \<Rightarrow> int \<Rightarrow> bool result" where
  "tz_isDst z ts = (case zn_localtime z (ts_epochTime ts) of None \<Rightarrow> Inl RuntimeError | Some f \<Rightarrow> Inr (0 < f))"

definition tz_tzd :: "time_zone \<Rightarrow> int \<Rightarrow> int result" where
  "tz_tzd z now = bind_r (tz_dst z now) (\<lambda>d. chk32 (tz_utcOffset z + d))"

subsection \<open>LocalDateTime\<close>

definition adjustForTzd :: "local_date_time \<Rightarrow> local_date_time result" where
  "adjustForTzd l = bind_r (dt_plus_assign (ldt_dateTime l) (ldt_tzd l * SECONDS)) (\<lambda>d. Inr (l\<lparr>ldt_dateTime := d\<rparr>))"

definition dstOffset :: "time_zone \<Rightarrow> date_time \<Rightarrow> int \<times> int" where
  "dstOffset z d =
     (let (local, isdst) = zn_mktime z (dt_year d - 1900, dt_month d - 1, dt_day d, dt_hour d, dt_minute d, dt_second d)
      in (local, if isdst = 1 then 3600 else 0))"

definition determineTzd :: "time_zone \<Rightarrow> bool \<Rightarrow> date_time \<Rightarrow> local_date_time result" where
  "determineTzd z adjust d =
     (if adjust then
        bind_r (dt_timestamp d) (\<lambda>ts.
          (case zn_localtime z (ts_epochTime ts) of
             None \<Rightarrow> Inl RuntimeError
           | Some f \<Rightarrow> bind_r (chk32 (tz_utcOffset z + (if f = 1 then 3600 else 0))) (\<lambda>tzd.
               adjustForTzd \<lparr>ldt_dateTime = d, ldt_tzd = tzd\<rparr>)))
      else bind_r (chk32 (tz_utcOffset z + snd (dstOffset z d))) (\<lambda>tzd.
        Inr \<lparr>ldt_dateTime = d, ldt_tzd = tzd\<rparr>))"

text \<open>The constructors; \<open>now\<close> is the timestamp of the clock.\<close>

definition ldt_now :: "time_zone \<Rightarrow> int \<Rightarrow> local_date_time result" where
  "ldt_now z now = bind_r (dt_of_timestamp now) (determineTzd z True)"

definition ldt_make :: "time_zone \<Rightarrow> int \<Rightarrow> int \<Rightarrow> int \<Rightarrow> int \<Rightarrow> int \<Rightarrow> int \<Rightarrow> int \<Rightarrow> int \<Rightarrow> local_date_time result" where
  "ldt_make z y m d h mi s ms us = bind_r (dt_make y m d h mi s ms us) (determineTzd z False)"

definition ldt_make_tzd :: "int \<Rightarrow> int \<Rightarrow> int \<Rightarrow> int \<Rightarrow> int \<Rightarrow> int \<Rightarrow> int \<Rightarrow> int \<Rightarrow> int \<Rightarrow> local_date_time result" where
  "ldt_make_tzd tzd y m d h mi s ms us =
     bind_r (dt_make y m d h mi s ms us) (\<lambda>dt. Inr \<lparr>ldt_dateTime = dt, ldt_tzd = tzd\<rparr>)"

definition ldt_of_julian :: "time_zone \<Rightarrow> rat \<Rightarrow> local_date_time result" where
  "ldt_of_julian z j = bind_r (dt_of_julian j) (determineTzd z True)"

definition ldt_of_julian_tzd :: "int \<Rightarrow> rat \<Rightarrow> local_date_time result" where
  "ldt_of_julian_tzd tzd j = bind_r (dt_of_julian j) (\<lambda>d. adjustForTzd \<lparr>ldt_dateTime = d, ldt_tzd = tzd\<rparr>)"

definition ldt_of_dt :: "time_zone \<Rightarrow> date_time \<Rightarrow> local_date_time result" where
  "ldt_of_dt z d = determineTzd z True d"

definition ldt_of_dt_tzd :: "int \<Rightarrow> date_time \<Rightarrow> bool \<Rightarrow> local_date_time result" where
  "ldt_of_dt_tzd tzd d adjust =
     (let l = \<lparr>ldt_dateTime = d, ldt_tzd = tzd\<rparr> in if adjust then adjustForTzd l else Inr l)"

definition ldt_of_utc :: "int \<Rightarrow> int \<Rightarrow> int \<Rightarrow> local_date_time result" where
  "ldt_of_utc utc diff tzd = bind_r (dt_of_utc utc diff) (\<lambda>d. adjustForTzd \<lparr>ldt_dateTime = d, ldt_tzd = tzd\<rparr>)"

text \<open>Assignments.\<close>

definition ldt_timestamp :: "local_date_time \<Rightarrow> int result" where
  "ldt_timestamp l = fromUtcTime (dt_utcTime (ldt_dateTime l))"

definition ldt_assign_timestamp :: "time_zone \<Rightarrow> local_date_time \<Rightarrow> int \<Rightarrow> local_date_time result" where
  "ldt_assign_timestamp z l ts =
     bind_r (ldt_timestamp l) (\<lambda>mine.
       if ts \<noteq> mine then bind_r (dt_assign_timestamp (ldt_dateTime l) ts) (determineTzd z True) else Inr l)"

definition ldt_assign_julian :: "time_zone \<Rightarrow> local_date_time \<Rightarrow> rat \<Rightarrow> local_date_time result" where
  "ldt_assign_julian z l j = bind_r (dt_assign_julian (ldt_dateTime l) j) (determineTzd z True)"

definition ldt_assign :: "time_zone \<Rightarrow> local_date_time \<Rightarrow> int \<Rightarrow> int \<Rightarrow> int \<Rightarrow> int \<Rightarrow> int \<Rightarrow> int \<Rightarrow> int \<Rightarrow> int \<Rightarrow> local_date_time result" where
  "ldt_assign z l y m d h mi s ms us = bind_r (dt_assign (ldt_dateTime l) y m d h mi s ms us) (determineTzd z False)"

definition ldt_assign_tzd :: "local_date_time \<Rightarrow> int \<Rightarrow> int \<Rightarrow> int \<Rightarrow> int \<Rightarrow> int \<Rightarrow> int \<Rightarrow> int \<Rightarrow> int \<Rightarrow> int \<Rightarrow> local_date_time result" where
  "ldt_assign_tzd l tzd y m d h mi s ms us =
     bind_r (dt_assign (ldt_dateTime l) y m d h mi s ms us) (\<lambda>dt. Inr \<lparr>ldt_dateTime = dt, ldt_tzd = tzd\<rparr>)"

definition ldt_assign_julian_tzd :: "local_date_time \<Rightarrow> int \<Rightarrow> rat \<Rightarrow> local_date_time result" where
  "ldt_assign_julian_tzd l tzd j =
     bind_r (dt_assign_julian (ldt_dateTime l) j) (\<lambda>d. adjustForTzd \<lparr>ldt_dateTime = d, ldt_tzd = tzd\<rparr>)"

text \<open>UTC, the comparisons and the arithmetic.\<close>

definition ldt_utcTime :: "local_date_time \<Rightarrow> int result" where
  "ldt_utcTime l = chk64 (dt_utcTime (ldt_dateTime l) - ldt_tzd l * 10000000)"

definition ldt_utc :: "local_date_time \<Rightarrow> date_time result" where
  "ldt_utc l = dt_of_utc (dt_utcTime (ldt_dateTime l)) (- ldt_tzd l * SECONDS)"

definition ldt_eq :: "local_date_time \<Rightarrow> local_date_time \<Rightarrow> bool result" where
  "ldt_eq a b = bind_r (ldt_utcTime a) (\<lambda>x. bind_r (ldt_utcTime b) (\<lambda>y. Inr (x = y)))"

definition ldt_less :: "local_date_time \<Rightarrow> local_date_time \<Rightarrow> bool result" where
  "ldt_less a b = bind_r (ldt_utcTime a) (\<lambda>x. bind_r (ldt_utcTime b) (\<lambda>y. Inr (x < y)))"

definition ldt_less_eq :: "local_date_time \<Rightarrow> local_date_time \<Rightarrow> bool result" where
  "ldt_less_eq a b = bind_r (ldt_utcTime a) (\<lambda>x. bind_r (ldt_utcTime b) (\<lambda>y. Inr (x \<le> y)))"

definition ldt_plus :: "time_zone \<Rightarrow> local_date_time \<Rightarrow> int \<Rightarrow> local_date_time result" where
  "ldt_plus z l sp = bind_r (ldt_utcTime l) (\<lambda>u. bind_r (dt_of_utc u sp) (ldt_of_dt z))"

definition ldt_minus :: "time_zone \<Rightarrow> local_date_time \<Rightarrow> int \<Rightarrow> local_date_time result" where
  "ldt_minus z l sp =
     bind_r (ldt_utcTime l) (\<lambda>u. bind_r (chk64 (- sp)) (\<lambda>n. bind_r (dt_of_utc u n) (ldt_of_dt z)))"

definition ldt_difference :: "local_date_time \<Rightarrow> local_date_time \<Rightarrow> int result" where
  "ldt_difference a b =
     bind_r (ldt_utcTime a) (\<lambda>x. bind_r (ldt_utcTime b) (\<lambda>y. bind_r (chk64 (x - y)) (\<lambda>v. Inr (v sdiv 10))))"


definition fmt_append_local :: "string \<Rightarrow> local_date_time \<Rightarrow> string \<Rightarrow> string result" where
  "fmt_append_local str l fmt = bind_r (ldt_utc l) (\<lambda>d. fmt_append str d fmt (ldt_tzd l))"

subsection \<open>The offset of a time\<close>

text \<open>The local time of a UTC time: the offset the zone has at that time, added to it.\<close>

definition offset_at :: "time_zone \<Rightarrow> int \<Rightarrow> int" where
  "offset_at z utc =
     zn_offset z + (if zn_localtime z ((utc - utc_epoch) sdiv 10 sdiv resolution) = Some 1 then 3600 else 0)"

text \<open>A zone whose offset is of whole minutes, and whose \<^verbatim>\<open>localtime_r\<close> succeeds.\<close>

definition zone_ok :: "time_zone \<Rightarrow> bool" where
  "zone_ok z \<longleftrightarrow> 60 dvd zn_offset z \<and> \<bar>zn_offset z\<bar> \<le> 86400 \<and> (\<forall>t. zn_localtime z t \<noteq> None)"

lemma offset_at:
  assumes "zone_ok z"
  shows "60 dvd offset_at z u" "- 86400 \<le> offset_at z u" "offset_at z u \<le> 90000" "chk32 (offset_at z u) = Inr (offset_at z u)"
    "whole_minutes (offset_at z u)" "zone_offset (offset_at z u) = offset_at z u"
proof -
  define o' where "o' = offset_at z u"
  have o: "o' = zn_offset z \<or> o' = zn_offset z + 3600" by (simp add: o'_def offset_at_def)
  have d: "60 dvd o'" using o assms by (auto simp: zone_ok_def intro!: dvd_add)
  have b: "- 86400 \<le> o'" "o' \<le> 90000" using o assms by (auto simp: zone_ok_def abs_le_iff)
  have "o' \<noteq> fmt_UTC" using d by (auto simp: fmt_UTC_def)
  then show "60 dvd offset_at z u" "- 86400 \<le> offset_at z u" "offset_at z u \<le> 90000" "chk32 (offset_at z u) = Inr (offset_at z u)"
    "whole_minutes (offset_at z u)" "zone_offset (offset_at z u) = offset_at z u"
    using d b unfolding o'_def [symmetric] by (simp_all add: chk32_def whole_minutes_def zone_offset_def)
qed

lemma ldt_of_dt_exact:
  assumes d: "wf_date_time d" and z: "zone_ok z" and tzd_def: "tzd = offset_at z (dt_utcTime d)"
    and e_def: "e = fields_of_utc (dt_utcTime d + 10000000 * tzd)"
    and r: "0 \<le> dt_utcTime d + 10000000 * tzd" "dt_utcTime d + 10000000 * tzd < utc_limit"
  shows "ldt_of_dt z d = Inr \<lparr>ldt_dateTime = e, ldt_tzd = tzd\<rparr>" "wf_date_time e"
    "ldt_utcTime \<lparr>ldt_dateTime = e, ldt_tzd = tzd\<rparr> = Inr (dt_utcTime d)"
    "ldt_utc \<lparr>ldt_dateTime = e, ldt_tzd = tzd\<rparr> = Inr d"
    "makeUTC e tzd = Inr d"
proof -
  have u: "0 \<le> dt_utcTime d" "dt_utcTime d < utc_limit" "fields_of_utc (dt_utcTime d) = d"
    using d by (simp_all add: wf_date_time_def)
  note o = offset_at [OF z, of "dt_utcTime d", folded tzd_def]
  have k: "\<bar>tzd * SECONDS\<bar> < 2 ^ 58" using o by (simp add: span_units abs_less_iff)
  have x: "10 * (tzd * SECONDS) = 10000000 * tzd" "10 * (- tzd * SECONDS) = - (10000000 * tzd)" by (simp_all add: span_units)
  note s = shift_exact [OF d k, unfolded x, OF r, folded e_def]
  show e: "wf_date_time e" by (rule s)
  have ts: "dt_timestamp d = Inr ((dt_utcTime d - utc_epoch) sdiv 10)"
    using u by (simp add: dt_timestamp_def fromUtcTime_def chk64_def utc_epoch_def push_bit_eq_mult)
  obtain f where f: "zn_localtime z ((dt_utcTime d - utc_epoch) sdiv 10 sdiv resolution) = Some f"
    using z by (auto simp: zone_ok_def)
  have "chk32 (tz_utcOffset z + (if f = 1 then 3600 else 0)) = Inr tzd"
    using o(4) f by (simp add: tzd_def offset_at_def tz_utcOffset_def)
  then show "ldt_of_dt z d = Inr \<lparr>ldt_dateTime = e, ldt_tzd = tzd\<rparr>"
    using ts f s by (simp add: ldt_of_dt_def determineTzd_def ts_epochTime_def adjustForTzd_def)
  have eu: "dt_utcTime e = dt_utcTime d + 10000000 * tzd" by (simp add: e_def)
  show "ldt_utcTime \<lparr>ldt_dateTime = e, ldt_tzd = tzd\<rparr> = Inr (dt_utcTime d)"
    using u by (simp add: ldt_utcTime_def eu chk64_def)
  have "0 \<le> dt_utcTime e + 10 * (- tzd * SECONDS)" "dt_utcTime e + 10 * (- tzd * SECONDS) < utc_limit"
    using u by (simp_all add: eu span_units)
  note t = shift_exact [OF e _ this]
  have k': "\<bar>- tzd * SECONDS\<bar> < 2 ^ 58" using k by simp
  have inv: "fields_of_utc (dt_utcTime e + 10 * (- tzd * SECONDS)) = d"
    using u by (simp add: eu span_units)
  show "makeUTC e tzd = Inr d" using t(3) [OF k'] unfolding makeUTC_def inv by simp
  show "ldt_utc \<lparr>ldt_dateTime = e, ldt_tzd = tzd\<rparr> = Inr d"
    using t(2) [OF k'] unfolding inv by (simp add: ldt_utc_def dt_plus_def)
qed

subsection \<open>Properties\<close>




text \<open>
  The arithmetic goes through UTC, so a span across a change of the clocks is not shortened or
  lengthened: the difference of the local times is the span.
\<close>

lemma local_plus_exact:
  assumes "wf_date_time d" "wf_date_time e" "zone_ok z" "dt_utcTime e = dt_utcTime d + 10 * sp"
    and "0 \<le> dt_utcTime d + 10000000 * offset_at z (dt_utcTime d)" "dt_utcTime d + 10000000 * offset_at z (dt_utcTime d) < utc_limit"
    and "0 \<le> dt_utcTime e + 10000000 * offset_at z (dt_utcTime e)" "dt_utcTime e + 10000000 * offset_at z (dt_utcTime e) < utc_limit"
  shows "\<exists>l m. ldt_of_dt z d = Inr l \<and> ldt_plus z l sp = Inr m \<and> ldt_minus z l (- sp) = Inr m \<and>
    ldt_utc m = Inr e \<and> ldt_difference m l = Inr sp \<and> ldt_less l m = Inr (0 < sp)"
proof -
  note l = ldt_of_dt_exact [OF assms(1,3) refl refl assms(5,6)]
  note m = ldt_of_dt_exact [OF assms(2,3) refl refl assms(7,8)]
  have b: "0 \<le> dt_utcTime d" "dt_utcTime d < utc_limit" "0 \<le> dt_utcTime e" "dt_utcTime e < utc_limit" "fields_of_utc (dt_utcTime e) = e"
    using assms(1,2) by (simp_all add: wf_date_time_def)
  have c: "chk64 (dt_utcTime e - dt_utcTime d) = Inr (10 * sp)" "chk64 sp = Inr sp"
    using b(1-4) assms(4) by (simp_all add: chk64_def)
  have s: "10 * sp sdiv 10 = sp" using sdiv_exact [of 10 sp] by (simp add: mult.commute)
  have k: "\<bar>sp\<bar> < 2 ^ 58" using b(1-4) assms(4) by (simp add: abs_less_iff)
  have r: "0 \<le> dt_utcTime d + 10 * sp" "dt_utcTime d + 10 * sp < utc_limit" using b assms(4) by simp_all
  have p: "dt_of_utc (dt_utcTime d) sp = Inr e"
    using shift_exact(2) [OF assms(1) k r] b(5) assms(4) by (simp add: dt_plus_def)
  show ?thesis using l(1,3) m p c s assms(4)
    by (auto simp: ldt_plus_def ldt_minus_def ldt_difference_def ldt_less_def)
qed

subsection \<open>Where the class fails\<close>

text \<open>
  Assigning a timestamp does nothing when it is the number the wall clock has as a UTC time,
  although the instant is another one as soon as the offset is not zero.
\<close>

lemma assign_keeps_other_instant:
  assumes "wf_date_time d" "10 dvd dt_utcTime d" "zone_ok z" "offset_at z (dt_utcTime d) \<noteq> 0"
    and "0 \<le> dt_utcTime d + 10000000 * offset_at z (dt_utcTime d)" "dt_utcTime d + 10000000 * offset_at z (dt_utcTime d) < utc_limit"
  shows "\<exists>l ts u. ldt_of_dt z d = Inr l \<and> ldt_assign_timestamp z l ts = Inr l \<and>
    ldt_utcTime l = Inr (dt_utcTime d) \<and> ts_utcTime ts = Inr u \<and> u \<noteq> dt_utcTime d"
proof -
  define u where "u = dt_utcTime d + 10000000 * offset_at z (dt_utcTime d)"
  note l = ldt_of_dt_exact [OF assms(1,3) refl refl assms(5,6), folded u_def]
  have e: "utc_epoch = 122192928000000000" by (simp add: utc_epoch_def push_bit_eq_mult)
  obtain k where k: "dt_utcTime d = 10 * k" using assms(2) by (elim dvdE)
  have u: "u - utc_epoch = (k + 1000000 * offset_at z (dt_utcTime d) - 12219292800000000) * 10" by (simp add: u_def k e)
  have b: "chk64 (u - utc_epoch) = Inr (u - utc_epoch)" "chk64 u = Inr u"
    using assms(5,6) by (simp_all add: chk64_def e u_def)
  define ts where "ts = (u - utc_epoch) sdiv 10"
  have ts: "ts * 10 = u - utc_epoch" unfolding ts_def u by (simp only: sdiv_exact)
  have "fromUtcTime u = Inr ts" by (simp add: fromUtcTime_def b ts_def)
  then show ?thesis using l assms(4) ts b
    by (auto simp: ldt_assign_timestamp_def ldt_timestamp_def ts_utcTime_def u_def)
qed

text \<open>\<^verbatim>\<open>append\<close> prints the UTC fields with the local offset: the text is another instant.\<close>

lemma append_is_another_instant:
  assumes "wf_date_time d" "10 dvd dt_utcTime d" "zone_ok z"
    and "0 \<le> dt_utcTime d + 10000000 * offset_at z (dt_utcTime d)" "dt_utcTime d + 10000000 * offset_at z (dt_utcTime d) < utc_limit"
  shows "\<exists>l txt. ldt_of_dt z d = Inr l \<and> fmt_append_local [] l ISO8601_FRAC_FORMAT = Inr txt \<and>
    tryParse txt old = Inr (True, d, offset_at z (dt_utcTime d))"
proof -
  note l = ldt_of_dt_exact [OF assms(1,3) refl refl assms(4,5)]
  note o = offset_at [OF assms(3), of "dt_utcTime d"]
  show ?thesis using iso_text_roundtrip [OF assms(1,2) o(5), of old] o(6) l
    by (auto simp: fmt_append_local_def fmt_format_def)
qed

end
