(* ===== verification/Packet_Stream.thy ===== *)
theory Packet_Stream
  imports Stateful
begin

text \<open>
  Packet streams: \<^verbatim>\<open>src/base/src/packetstream.cpp\<close>. A \<^verbatim>\<open>PacketStream\<close> connects sources, a chain of
  processors ordered by number, and the receivers of its signal \<^verbatim>\<open>emitter\<close>.

  Adapters are numbers. What their code does is a parameter (\<open>adapters\<close>): whether a processor
  accepts a packet, what it emits for one and whether it throws afterwards, what a source emits
  from within its \<^verbatim>\<open>start\<close>, and what the receivers of the stream do with a packet: calls on the
  stream, and whether they throw. They share a state \<open>'w\<close> of their own. The signals of the
  adapters hold the slots of one stream here, all of one priority; \<open>Signal_Slot\<close> models signals in
  full. Calls come from one thread. Locking \<^verbatim>\<open>_procMutex\<close>, a \<^verbatim>\<open>std::mutex\<close>, again is \<open>Undefined\<close>.
  An adapter is owned when the stream deletes it with its reference (\<^verbatim>\<open>freePointer\<close>). Deletions are
  logged; deleting an adapter again, and a packet sent to a deleted processor, is \<open>Undefined\<close>.
\<close>

subsection \<open>Packets, states and adapters\<close>

record stream_packet =
  pkt_data :: "u8 list"
  pkt_flags :: u32

definition has_flag :: "u32 \<Rightarrow> u32 \<Rightarrow> bool" where
  "has_flag flags f \<longleftrightarrow> flags AND f = f"

definition NoModify :: u32 where "NoModify = 1"
definition Final :: u32 where "Final = 2"

datatype stream_state = SNone | SLocked | SActive | SPaused | SStopping | SStopped | SClosed | SError

primrec state_no :: "stream_state \<Rightarrow> state_id" where
  "state_no SNone = 0"
| "state_no SLocked = 1"
| "state_no SActive = 2"
| "state_no SPaused = 3"
| "state_no SStopping = 4"
| "state_no SStopped = 5"
| "state_no SClosed = 6"
| "state_no SError = 7"

record adapter_ref =
  ar_ptr :: nat
  ar_owned :: bool
  ar_order :: int
  ar_syncState :: bool

text \<open>The slots of the signal of an adapter: the \<^verbatim>\<open>process\<close> of a processor, and \<^verbatim>\<open>emit\<close> and \<^verbatim>\<open>process\<close> of the stream.\<close>

datatype target = ToProcessor nat | ToEmit | ToProcess

text \<open>What can be seen of a stream, in order.\<close>

datatype stream_event =
    Output stream_packet
  | StateChange nat state_id
  | ErrorSignal
  | CloseSignal
  | SourceStarted nat
  | SourceStopped nat
  | Deleted nat

record packet_stream =
  st_state :: state_id
  st_sources :: "adapter_ref list"
  st_processors :: "adapter_ref list"
  st_states :: "state_id list"
  st_autoStart :: bool
  st_closeOnError :: bool
  st_error :: bool
  st_procMutex :: bool
  st_wires :: "nat \<Rightarrow> target list"
  st_log :: "stream_event list"

definition new_stream :: packet_stream where
  "new_stream = \<lparr>st_state = 0, st_sources = [], st_processors = [], st_states = [], st_autoStart = False,
     st_closeOnError = True, st_error = False, st_procMutex = False, st_wires = (\<lambda>_. []), st_log = []\<rparr>"

definition add_log :: "stream_event list \<Rightarrow> packet_stream \<Rightarrow> packet_stream" where
  "add_log es s = s\<lparr>st_log := st_log s @ es\<rparr>"

subsection \<open>The state\<close>

text \<open>\<^verbatim>\<open>onStateChange\<close> queues the new state for the adapters.\<close>

definition stream_onStateChange :: "state_id \<Rightarrow> state_id \<Rightarrow> packet_stream \<Rightarrow> packet_stream" where
  "stream_onStateChange new old s = s\<lparr>st_states := st_states s @ [new]\<rparr>"

definition stream_setState :: "stream_state \<Rightarrow> packet_stream \<Rightarrow> packet_stream" where
  "stream_setState st s =
     snd (setState st_state (\<lambda>i s. s\<lparr>st_state := i\<rparr>) stream_onStateChange (\<lambda>_ _ s. s) (state_no st) s)"

definition in_state :: "packet_stream \<Rightarrow> stream_state \<Rightarrow> bool" where
  "in_state s st \<longleftrightarrow> stateEquals (st_state s) (state_no st)"

interpretation stream_stateful: stateful st_state "\<lambda>i s. s\<lparr>st_state := i\<rparr>" stream_onStateChange "\<lambda>_ _ s. s"
  by unfold_locales (simp_all add: stream_onStateChange_def)

definition stream_active :: "packet_stream \<Rightarrow> bool" where
  "stream_active s \<longleftrightarrow> in_state s SActive"

definition stream_closed :: "packet_stream \<Rightarrow> bool" where
  "stream_closed s \<longleftrightarrow> in_state s SClosed \<or> in_state s SError"

definition stream_stopped :: "packet_stream \<Rightarrow> bool" where
  "stream_stopped s \<longleftrightarrow> in_state s SStopping \<or> in_state s SStopped"

definition stream_locked :: "packet_stream \<Rightarrow> bool" where
  "stream_locked s \<longleftrightarrow> in_state s SLocked"

definition stream_lock :: "packet_stream \<Rightarrow> bool \<times> packet_stream" where
  "stream_lock s = (if \<not> in_state s SNone then (False, s) else (True, stream_setState SLocked s))"

definition stream_pause :: "packet_stream \<Rightarrow> packet_stream" where
  "stream_pause s = stream_setState SPaused s"

definition stream_resume :: "packet_stream \<Rightarrow> packet_stream" where
  "stream_resume s = (if \<not> in_state s SPaused then s else stream_setState SActive s)"

subsection \<open>Attaching and detaching\<close>

definition wire_attach :: "target \<Rightarrow> target list \<Rightarrow> target list" where
  "wire_attach t ts = remove1 t ts @ [t]"

definition wire_detach :: "target \<Rightarrow> target list \<Rightarrow> target list" where
  "wire_detach t ts = remove1 t ts"

definition rewire :: "(target \<Rightarrow> target list \<Rightarrow> target list) \<Rightarrow> nat \<Rightarrow> target \<Rightarrow> (nat \<Rightarrow> target list) \<Rightarrow> nat \<Rightarrow> target list" where
  "rewire f a t w = w(a := f t (w a))"

text \<open>The loop over the processors in \<^verbatim>\<open>setup\<close> and \<^verbatim>\<open>teardown\<close>, with the variable \<^verbatim>\<open>lastProc\<close>.\<close>

fun wire_chain :: "(target \<Rightarrow> target list \<Rightarrow> target list) \<Rightarrow> nat option \<Rightarrow> adapter_ref list \<Rightarrow>
    (nat \<Rightarrow> target list) \<Rightarrow> nat \<Rightarrow> target list" where
  "wire_chain f prev [] w = (case prev of None \<Rightarrow> w | Some l \<Rightarrow> rewire f l ToEmit w)"
| "wire_chain f prev (r # rs) w =
     wire_chain f (Some (ar_ptr r)) rs
       (case prev of None \<Rightarrow> w | Some l \<Rightarrow> rewire f l (ToProcessor (ar_ptr r)) w)"

definition wire_all :: "(target \<Rightarrow> target list \<Rightarrow> target list) \<Rightarrow> packet_stream \<Rightarrow> packet_stream" where
  "wire_all f s =
     s\<lparr>st_wires := fold (\<lambda>r. rewire f (ar_ptr r) ToProcess) (st_sources s)
                     (wire_chain f None (st_processors s) (st_wires s))\<rparr>"

definition stream_setup :: "packet_stream \<Rightarrow> packet_stream" where
  "stream_setup = wire_all wire_attach"

definition stream_teardown :: "packet_stream \<Rightarrow> packet_stream" where
  "stream_teardown = wire_all wire_detach"

definition assertCanModify :: "packet_stream \<Rightarrow> 'a result \<Rightarrow> 'a result" where
  "assertCanModify s k =
     (if in_state s SLocked \<or> in_state s SStopping \<or> in_state s SActive then Inl AssertFail else k)"

text \<open>Destroying references deletes the adapters they own.\<close>

definition deletions :: "stream_event list \<Rightarrow> nat list" where
  "deletions es = concat (map (\<lambda>e. case e of Deleted a \<Rightarrow> [a] | _ \<Rightarrow> []) es)"

fun drop_refs :: "adapter_ref list \<Rightarrow> packet_stream \<Rightarrow> packet_stream result" where
  "drop_refs [] s = Inr s"
| "drop_refs (r # rs) s =
     (if \<not> ar_owned r then drop_refs rs s
      else if ar_ptr r \<in> set (deletions (st_log s)) then Inl Undefined
      else drop_refs rs (add_log [Deleted (ar_ptr r)] s))"

text \<open>\<^verbatim>\<open>std::sort\<close> with \<^verbatim>\<open>compareOrder\<close>; adapters of one order keep their places.\<close>

definition sort_refs :: "adapter_ref list \<Rightarrow> adapter_ref list" where
  "sort_refs = sort_key ar_order"

definition attach_ref :: "adapter_ref \<Rightarrow> packet_stream \<Rightarrow> packet_stream result" where
  "attach_ref r s = assertCanModify s (Inr (s\<lparr>st_processors := sort_refs (st_processors s @ [r])\<rparr>))"

definition attach_processor :: "nat \<Rightarrow> int \<Rightarrow> bool \<Rightarrow> packet_stream \<Rightarrow> packet_stream result" where
  "attach_processor proc order freePointer s =
     assert_r (-1 \<le> order \<and> order \<le> 101)
       (assertCanModify s
         (Inr (s\<lparr>st_processors := sort_refs (st_processors s @
            [\<lparr>ar_ptr = proc, ar_owned = freePointer,
              ar_order = (if order = -1 then int (length (st_processors s)) else order), ar_syncState = False\<rparr>])\<rparr>)))"

definition attachSource :: "nat \<Rightarrow> bool \<Rightarrow> bool \<Rightarrow> packet_stream \<Rightarrow> packet_stream result" where
  "attachSource source freePointer syncState s =
     assertCanModify s
       (Inr (s\<lparr>st_sources := sort_refs (st_sources s @
          [\<lparr>ar_ptr = source, ar_owned = freePointer, ar_order = 0, ar_syncState = syncState\<rparr>])\<rparr>))"

text \<open>The first reference to an adapter, and the others.\<close>

fun erase_ref :: "nat \<Rightarrow> adapter_ref list \<Rightarrow> (adapter_ref \<times> adapter_ref list) option" where
  "erase_ref a [] = None"
| "erase_ref a (r # rs) = (if ar_ptr r = a then Some (r, rs) else map_option (apsnd ((#) r)) (erase_ref a rs))"

definition detachSource :: "nat \<Rightarrow> packet_stream \<Rightarrow> (bool \<times> packet_stream) result" where
  "detachSource source s =
     assertCanModify s
       (case erase_ref source (st_sources s) of
          Some (r, rs) \<Rightarrow>
            bind_r (drop_refs [r] (s\<lparr>st_sources := rs, st_wires := rewire wire_detach source ToProcess (st_wires s)\<rparr>))
              (\<lambda>s1. Inr (True, s1))
        | None \<Rightarrow> Inr (False, s))"

text \<open>The overload for signals disconnects the source and leaves it in the list.\<close>

definition detachSource_signal :: "nat \<Rightarrow> packet_stream \<Rightarrow> (bool \<times> packet_stream) result" where
  "detachSource_signal source s =
     assertCanModify s
       (if source \<in> ar_ptr ` set (st_sources s)
        then Inr (True, s\<lparr>st_wires := rewire wire_detach source ToProcess (st_wires s)\<rparr>)
        else Inr (False, s))"

definition detach_processor :: "nat \<Rightarrow> packet_stream \<Rightarrow> (bool \<times> packet_stream) result" where
  "detach_processor proc s =
     assertCanModify s
       (case erase_ref proc (st_processors s) of
          Some (r, rs) \<Rightarrow> bind_r (drop_refs [r] (s\<lparr>st_processors := rs\<rparr>)) (\<lambda>s1. Inr (True, s1))
        | None \<Rightarrow> Inr (False, s))"

definition set_autoStart :: "bool \<Rightarrow> packet_stream \<Rightarrow> packet_stream result" where
  "set_autoStart flag s = assertCanModify s (Inr (s\<lparr>st_autoStart := flag\<rparr>))"

definition set_closeOnError :: "bool \<Rightarrow> packet_stream \<Rightarrow> packet_stream result" where
  "set_closeOnError flag s = assertCanModify s (Inr (s\<lparr>st_closeOnError := flag\<rparr>))"

subsection \<open>Starting, stopping and closing\<close>

text \<open>
  What the code of the adapters and of the receivers does; a source is started and stopped with the
  stream only when it is a \<^verbatim>\<open>basic::Startable\<close>.
\<close>

datatype stream_action = Start | Stop | Pause | Resume | Close | Write stream_packet

record 'w adapters =
  ad_accepts :: "nat \<Rightarrow> stream_packet \<Rightarrow> bool"
  ad_process :: "nat \<Rightarrow> stream_packet \<Rightarrow> 'w \<Rightarrow> stream_packet list \<times> bool \<times> 'w"
  ad_startable :: "nat \<Rightarrow> bool"
  ad_started :: "nat \<Rightarrow> 'w \<Rightarrow> stream_packet list \<times> 'w"
  ad_receive :: "stream_packet \<Rightarrow> 'w \<Rightarrow> stream_action list \<times> bool \<times> 'w"

text \<open>Taking and releasing \<^verbatim>\<open>_procMutex\<close>.\<close>

definition lock_proc :: "packet_stream \<Rightarrow> packet_stream result" where
  "lock_proc s = (if st_procMutex s then Inl Undefined else Inr (s\<lparr>st_procMutex := True\<rparr>))"

definition unlock_proc :: "packet_stream \<Rightarrow> packet_stream" where
  "unlock_proc s = s\<lparr>st_procMutex := False\<rparr>"

definition stream_adapters :: "packet_stream \<Rightarrow> adapter_ref list" where
  "stream_adapters s = st_sources s @ st_processors s"

text \<open>The loop of \<^verbatim>\<open>synchronizeStates\<close>.\<close>

fun sync_loop :: "state_id list \<Rightarrow> packet_stream \<Rightarrow> packet_stream" where
  "sync_loop [] s = s"
| "sync_loop (st # sts) s =
     sync_loop sts (add_log (map (\<lambda>r. StateChange (ar_ptr r) st) (stream_adapters s)) (s\<lparr>st_states := sts\<rparr>))"

definition synchronizeStates :: "packet_stream \<Rightarrow> packet_stream" where
  "synchronizeStates s = sync_loop (st_states s) s"

fun stopSources :: "'w adapters \<Rightarrow> adapter_ref list \<Rightarrow> packet_stream \<Rightarrow> packet_stream result" where
  "stopSources env [] s = Inr s"
| "stopSources env (r # rs) s =
     (if ar_syncState r
      then assert_r (ad_startable env (ar_ptr r)) (stopSources env rs (add_log [SourceStopped (ar_ptr r)] s))
      else stopSources env rs s)"

definition stream_stop :: "'w adapters \<Rightarrow> packet_stream \<Rightarrow> packet_stream result" where
  "stream_stop env s =
     (if in_state s SStopped \<or> in_state s SStopping \<or> in_state s SClosed then Inr s
      else bind_r (lock_proc (stream_setState SStopped (stream_setState SStopping s))) (\<lambda>s1.
           bind_r (stopSources env (st_sources s1) s1) (\<lambda>s2. Inr (unlock_proc s2))))"

definition stream_close :: "'w adapters \<Rightarrow> packet_stream \<Rightarrow> packet_stream result" where
  "stream_close env s =
     (if in_state s SNone \<or> in_state s SClosed then Inr s
      else bind_r (if \<not> in_state s SStopped \<and> \<not> in_state s SStopping then stream_stop env s else Inr s) (\<lambda>s1.
           bind_r (lock_proc (stream_setState SClosed s1)) (\<lambda>s2.
             Inr (add_log [CloseSignal] (unlock_proc (synchronizeStates (stream_teardown s2)))))))"

definition stream_reset :: "packet_stream \<Rightarrow> packet_stream result" where
  "stream_reset s =
     assert_r (in_state s SNone \<or> in_state s SClosed)
       (drop_refs (stream_adapters s) (s\<lparr>st_sources := [], st_processors := []\<rparr>))"

definition destroy_stream :: "'w adapters \<Rightarrow> packet_stream \<Rightarrow> packet_stream result" where
  "destroy_stream env s =
     bind_r (stream_close env s) (\<lambda>s1.
     bind_r (stream_reset s1) (\<lambda>s2.
       assert_r (in_state s2 SNone \<or> in_state s2 SClosed \<or> in_state s2 SError)
         (assert_r (st_sources s2 = [] \<and> st_processors s2 = []) (Inr s2))))"

definition handleException :: "'w adapters \<Rightarrow> packet_stream \<Rightarrow> packet_stream result" where
  "handleException env s =
     (let s1 = add_log [ErrorSignal] ((stream_setState SError s)\<lparr>st_error := True\<rparr>)
      in if st_closeOnError s1 then stream_close env s1 else Inr s1)"

subsection \<open>Packets through the stream\<close>

text \<open>
  Signals call the functions of the stream and of the adapters from within each other. Each
  function below takes what it calls back through a signal as its argument \<open>rec\<close>; \<open>run\<close> closes the
  recursion, up to a depth, with \<open>Diverges\<close> below it. A result with the flag \<open>True\<close> is an exception.
\<close>

datatype stream_call = Process stream_packet | RunProcessor nat stream_packet | StartStream

type_synonym 'w config = "packet_stream \<times> 'w"
type_synonym 'w runner = "stream_call \<Rightarrow> 'w config \<Rightarrow> (bool \<times> 'w config) result"

text \<open>A loop that an exception ends.\<close>

fun each :: "('a \<Rightarrow> 'c \<Rightarrow> (bool \<times> 'c) result) \<Rightarrow> 'a list \<Rightarrow> 'c \<Rightarrow> (bool \<times> 'c) result" where
  "each f [] c = Inr (False, c)"
| "each f (x # xs) c = bind_r (f x c) (\<lambda>(threw, c1). if threw then Inr (True, c1) else each f xs c1)"

text \<open>The calls the receivers make on the stream.\<close>

definition run_action :: "'w runner \<Rightarrow> 'w adapters \<Rightarrow> stream_action \<Rightarrow> 'w config \<Rightarrow> (bool \<times> 'w config) result" where
  "run_action rec env x c =
     (case x of
        Start \<Rightarrow> rec StartStream c
      | Stop \<Rightarrow> bind_r (stream_stop env (fst c)) (\<lambda>s. Inr (False, s, snd c))
      | Pause \<Rightarrow> Inr (False, stream_pause (fst c), snd c)
      | Resume \<Rightarrow> Inr (False, stream_resume (fst c), snd c)
      | Close \<Rightarrow> bind_r (stream_close env (fst c)) (\<lambda>s. Inr (False, s, snd c))
      | Write p \<Rightarrow> rec (Process p) c)"

definition stream_emit :: "'w runner \<Rightarrow> 'w adapters \<Rightarrow> stream_packet \<Rightarrow> 'w config \<Rightarrow> (bool \<times> 'w config) result" where
  "stream_emit rec env p c =
     (if \<not> in_state (fst c) SActive then Inr (False, c)
      else
        (let (acts, throws, w1) = ad_receive env p (snd c)
         in bind_r (each (run_action rec env) acts (add_log [Output p] (fst c), w1)) (\<lambda>(threw, s2, w2).
              if threw \<or> throws then bind_r (handleException env s2) (\<lambda>s3. Inr (False, s3, w2))
              else Inr (False, s2, w2))))"

text \<open>A slot of the signal of adapter \<open>a\<close>; slots detached during the emission are skipped.\<close>

definition call_slot :: "'w runner \<Rightarrow> 'w adapters \<Rightarrow> nat \<Rightarrow> stream_packet \<Rightarrow> target \<Rightarrow> 'w config \<Rightarrow> (bool \<times> 'w config) result" where
  "call_slot rec env a p t c =
     (if t \<notin> set (st_wires (fst c) a) then Inr (False, c)
      else (case t of
              ToProcessor b \<Rightarrow>
                if b \<in> set (deletions (st_log (fst c))) then Inl Undefined else rec (RunProcessor b p) c
            | ToEmit \<Rightarrow> stream_emit rec env p c
            | ToProcess \<Rightarrow> rec (Process p) c))"

definition adapter_emit :: "'w runner \<Rightarrow> 'w adapters \<Rightarrow> nat \<Rightarrow> stream_packet \<Rightarrow> 'w config \<Rightarrow> (bool \<times> 'w config) result" where
  "adapter_emit rec env a p c = each (call_slot rec env a p) (st_wires (fst c) a) c"

definition run_processor :: "'w runner \<Rightarrow> 'w adapters \<Rightarrow> nat \<Rightarrow> stream_packet \<Rightarrow> 'w config \<Rightarrow> (bool \<times> 'w config) result" where
  "run_processor rec env a p c =
     (let (ps, throws, w1) = ad_process env a p (snd c)
      in bind_r (each (adapter_emit rec env a) ps (fst c, w1)) (\<lambda>(threw, c1). Inr (threw \<or> throws, c1)))"

definition start_source :: "'w runner \<Rightarrow> 'w adapters \<Rightarrow> adapter_ref \<Rightarrow> 'w config \<Rightarrow> (bool \<times> 'w config) result" where
  "start_source rec env r c =
     (if ar_syncState r
      then assert_r (ad_startable env (ar_ptr r))
        (let (ps, w1) = ad_started env (ar_ptr r) (snd c)
         in each (adapter_emit rec env (ar_ptr r)) ps (add_log [SourceStarted (ar_ptr r)] (fst c), w1))
      else Inr (False, c))"

definition stream_start :: "'w runner \<Rightarrow> 'w adapters \<Rightarrow> 'w config \<Rightarrow> (bool \<times> 'w config) result" where
  "stream_start rec env c =
     (if in_state (fst c) SActive then Inr (False, c)
      else
        bind_r (lock_proc (stream_setState SActive (stream_setup (fst c)))) (\<lambda>s1.
        bind_r (each (start_source rec env) (st_sources s1) (s1, snd c)) (\<lambda>(threw, s2, w2).
          Inr (threw, unlock_proc s2, w2))))"

text \<open>The \<^verbatim>\<open>try\<close> block of \<^verbatim>\<open>process\<close>: the processors, or the stream itself, and the final packet.\<close>

definition process_active :: "'w runner \<Rightarrow> 'w adapters \<Rightarrow> stream_packet \<Rightarrow> 'w config \<Rightarrow> (bool \<times> 'w config) result" where
  "process_active rec env p c =
     (if in_state (fst c) SActive \<and> \<not> has_flag (pkt_flags p) NoModify \<and> st_processors (fst c) \<noteq> []
      then
        (let firstProc = ar_ptr (hd (st_processors (fst c)))
         in bind_r (lock_proc (fst c)) (\<lambda>s1.
            let s2 = synchronizeStates s1
            in if in_state s2 SActive
               then bind_r (if ad_accepts env firstProc p then run_processor rec env firstProc p (s2, snd c)
                            else adapter_emit rec env firstProc p (s2, snd c)) (\<lambda>(threw, s3, w3).
                      Inr (threw, unlock_proc s3, w3))
               else stream_emit rec env p (unlock_proc s2, snd c)))
      else stream_emit rec env p c)"

definition process_final :: "'w adapters \<Rightarrow> stream_packet \<Rightarrow> 'w config \<Rightarrow> (bool \<times> 'w config) result" where
  "process_final env p c =
     (if in_state (fst c) SActive \<and> has_flag (pkt_flags p) Final
      then bind_r (stream_stop env (fst c)) (\<lambda>s. Inr (False, s, snd c))
      else Inr (False, c))"

definition stream_process :: "'w runner \<Rightarrow> 'w adapters \<Rightarrow> stream_packet \<Rightarrow> 'w config \<Rightarrow> (bool \<times> 'w config) result" where
  "stream_process rec env p c =
     bind_r
       (bind_r (if st_autoStart (fst c) \<and> in_state (fst c) SNone then stream_start rec env c else Inr (False, c))
         (\<lambda>(threw, c1). if threw then Inr (True, c1) else
           bind_r (process_active rec env p c1) (\<lambda>(threw, c2). if threw then Inr (True, c2) else process_final env p c2)))
       (\<lambda>(threw, c3).
         if threw then bind_r (handleException env (fst c3)) (\<lambda>s. Inr (False, s, snd c3)) else Inr (False, c3))"

primrec run :: "nat \<Rightarrow> 'w adapters \<Rightarrow> 'w runner" where
  "run 0 env k c = Inl Diverges"
| "run (Suc n) env k c =
     (case k of
        Process p \<Rightarrow> stream_process (run n env) env p c
      | RunProcessor a p \<Rightarrow> run_processor (run n env) env a p c
      | StartStream \<Rightarrow> stream_start (run n env) env c)"

text \<open>The operations of the public interface.\<close>

datatype stream_op =
    OpStart | OpStop | OpPause | OpResume | OpClose | OpReset | OpLock
  | OpWrite stream_packet
  | OpAttach nat int bool | OpDetach nat
  | OpAttachSource nat bool bool | OpDetachSource nat | OpDetachSignal nat
  | OpAutoStart bool | OpCloseOnError bool

fun do_op :: "nat \<Rightarrow> 'w adapters \<Rightarrow> stream_op \<Rightarrow> 'w config \<Rightarrow> (bool \<times> 'w config) result" where
  "do_op n env OpStart c = run n env StartStream c"
| "do_op n env (OpWrite p) c = run n env (Process p) c"
| "do_op n env OpStop (s, w) = bind_r (stream_stop env s) (\<lambda>s. Inr (False, s, w))"
| "do_op n env OpPause (s, w) = Inr (False, stream_pause s, w)"
| "do_op n env OpResume (s, w) = Inr (False, stream_resume s, w)"
| "do_op n env OpClose (s, w) = bind_r (stream_close env s) (\<lambda>s. Inr (False, s, w))"
| "do_op n env OpReset (s, w) = bind_r (stream_reset s) (\<lambda>s. Inr (False, s, w))"
| "do_op n env OpLock (s, w) = Inr (False, snd (stream_lock s), w)"
| "do_op n env (OpAttach a i owned) (s, w) = bind_r (attach_processor a i owned s) (\<lambda>s. Inr (False, s, w))"
| "do_op n env (OpDetach a) (s, w) = bind_r (detach_processor a s) (\<lambda>(_, s). Inr (False, s, w))"
| "do_op n env (OpAttachSource a owned sync) (s, w) = bind_r (attachSource a owned sync s) (\<lambda>s. Inr (False, s, w))"
| "do_op n env (OpDetachSource a) (s, w) = bind_r (detachSource a s) (\<lambda>(_, s). Inr (False, s, w))"
| "do_op n env (OpDetachSignal a) (s, w) = bind_r (detachSource_signal a s) (\<lambda>(_, s). Inr (False, s, w))"
| "do_op n env (OpAutoStart b) (s, w) = bind_r (set_autoStart b s) (\<lambda>s. Inr (False, s, w))"
| "do_op n env (OpCloseOnError b) (s, w) = bind_r (set_closeOnError b s) (\<lambda>s. Inr (False, s, w))"

end
