(* ===== verification/Stream_Flow.thy ===== *)
theory Stream_Flow
  imports Packet_Stream "HOL-Library.Multiset"
begin

text \<open>
  Properties of packet streams. The locale \<open>stream_steps\<close> proves once that what every elementary
  change of a stream keeps is kept by all its operations, whatever the adapters and receivers do;
  it is interpreted for the well-formedness of streams and for the adapters they hold and delete.
  The refinement shows that a stream is its chain of processors, and the last part what
  exceptions, late attachments and detachments do.
\<close>

subsection \<open>The state\<close>

lemma state_no_inj [simp]: "state_no a = state_no b \<longleftrightarrow> a = b"
  by (cases a; cases b) simp_all

lemma in_state_setState [simp]: "in_state (stream_setState a s) b \<longleftrightarrow> a = b"
  by (simp add: in_state_def stateEquals_def stream_setState_def stream_stateful.setState_state)

lemma setState_cases:
  "stream_setState st s = s \<or>
   stream_setState st s = s\<lparr>st_state := state_no st, st_states := st_states s @ [state_no st]\<rparr>"
  by (simp add: stream_setState_def setState_def beforeStateChange_def stream_onStateChange_def Let_def)

lemma setState_parts [simp]:
  "st_sources (stream_setState st s) = st_sources s" "st_processors (stream_setState st s) = st_processors s"
  "st_autoStart (stream_setState st s) = st_autoStart s" "st_closeOnError (stream_setState st s) = st_closeOnError s"
  "st_procMutex (stream_setState st s) = st_procMutex s" "st_wires (stream_setState st s) = st_wires s"
  "st_log (stream_setState st s) = st_log s" "st_error (stream_setState st s) = st_error s"
  using setState_cases [of st s] by (elim disjE; simp)+

lemma add_log_parts [simp]:
  "st_sources (add_log es s) = st_sources s" "st_processors (add_log es s) = st_processors s"
  "st_autoStart (add_log es s) = st_autoStart s" "st_closeOnError (add_log es s) = st_closeOnError s"
  "st_procMutex (add_log es s) = st_procMutex s" "st_wires (add_log es s) = st_wires s"
  "st_log (add_log es s) = st_log s @ es" "st_state (add_log es s) = st_state s" "st_states (add_log es s) = st_states s"
  "in_state (add_log es s) st = in_state s st"
  by (simp_all add: add_log_def in_state_def)

lemma deletions_simps [simp]:
  "deletions [] = []" "deletions (es @ fs) = deletions es @ deletions fs"
  "deletions (e # es) = (case e of Deleted a \<Rightarrow> [a] | _ \<Rightarrow> []) @ deletions es"
  "deletions (map (\<lambda>r. StateChange (g r) i) rs) = []" "deletions (map (\<lambda>r. SourceStopped (g r)) rs) = []"
  "deletions (map (\<lambda>r. Deleted (g r)) rs) = map g rs" "deletions (map Output ps) = []"
  by (simp_all add: deletions_def comp_def)

lemma in_state_update [simp]:
  "in_state (s\<lparr>st_procMutex := b\<rparr>) st = in_state s st" "in_state (s\<lparr>st_wires := ws\<rparr>) st = in_state s st"
  "in_state (s\<lparr>st_states := q\<rparr>) st = in_state s st" "in_state (s\<lparr>st_error := b\<rparr>) st = in_state s st"
  by (simp_all add: in_state_def)

lemma in_state_unique: "in_state s a \<Longrightarrow> in_state s b \<longleftrightarrow> a = b"
  by (auto simp: in_state_def stateEquals_def)

lemma sync_loop_parts [simp]:
  "st_procMutex (sync_loop q s) = st_procMutex s" "st_sources (sync_loop q s) = st_sources s"
  "st_processors (sync_loop q s) = st_processors s" "st_state (sync_loop q s) = st_state s" "st_wires (sync_loop q s) = st_wires s"
  "st_autoStart (sync_loop q s) = st_autoStart s" "st_closeOnError (sync_loop q s) = st_closeOnError s"
  "in_state (sync_loop q s) st = in_state s st"
  by (induction q s rule: sync_loop.induct) (simp_all add: in_state_def)

lemma stopSources_parts:
  "stopSources env rs s = Inr s' \<Longrightarrow> st_procMutex s' = st_procMutex s \<and> st_state s' = st_state s \<and> st_wires s' = st_wires s \<and>
     st_states s' = st_states s \<and> st_processors s' = st_processors s \<and> st_sources s' = st_sources s"
  by (induction env rs s rule: stopSources.induct) (auto simp: result_convs split: if_splits)

lemma unlock_parts [simp]:
  "st_procMutex (unlock_proc s) = False" "st_state (unlock_proc s) = st_state s" "st_wires (unlock_proc s) = st_wires s"
  "st_log (unlock_proc s) = st_log s" "st_processors (unlock_proc s) = st_processors s" "st_sources (unlock_proc s) = st_sources s"
  "in_state (unlock_proc s) st = in_state s st" "st_closeOnError (unlock_proc s) = st_closeOnError s"
  "st_autoStart (unlock_proc s) = st_autoStart s" "st_states (unlock_proc s) = st_states s"
  by (simp_all add: unlock_proc_def)

subsection \<open>What every operation keeps\<close>

lemma eachE:
  assumes "each f xs c = Inr (t, c')" "Q c" "\<And>x c t c'. Q c \<Longrightarrow> f x c = Inr (t, c') \<Longrightarrow> Q c'"
  shows "Q c'"
  using assms(1,2)
proof (induction xs arbitrary: c)
  case (Cons x xs)
  then show ?case using assms(3) by (auto simp: bind_r_eq_Inr split: if_splits)
qed simp

text \<open>The mutex, which every call gives back as it found it.\<close>

definition mutex_is :: "bool \<Rightarrow> packet_stream \<Rightarrow> bool" where
  "mutex_is m s \<longleftrightarrow> st_procMutex s = m"

lemma mutex_is_parts [simp]:
  "mutex_is m (stream_setState st s) = mutex_is m s" "mutex_is m (add_log es s) = mutex_is m s"
  "mutex_is False (unlock_proc s)"
  by (simp_all add: mutex_is_def)

locale stream_steps =
  fixes P :: "packet_stream \<Rightarrow> bool"
  assumes P_state: "P s \<Longrightarrow> P (stream_setState st s)"
    and P_log: "P s \<Longrightarrow> deletions es = [] \<Longrightarrow> P (add_log es s)"
    and P_error: "P s \<Longrightarrow> P (s\<lparr>st_error := b\<rparr>)"
    and P_mutex: "P s \<Longrightarrow> P (s\<lparr>st_procMutex := b\<rparr>)"
    and P_attach: "P s \<Longrightarrow> P (s\<lparr>st_wires := rewire wire_attach a t (st_wires s)\<rparr>)"
    and P_detach: "P s \<Longrightarrow> P (s\<lparr>st_wires := rewire wire_detach a t (st_wires s)\<rparr>)"
    and P_pop: "P s \<Longrightarrow> st_states s = i # q \<Longrightarrow> P (s\<lparr>st_states := q\<rparr>)"
begin

lemma P_sync: "P s \<Longrightarrow> st_states s = q \<Longrightarrow> P (sync_loop q s)"
proof (induction q s rule: sync_loop.induct)
  case (2 st sts s)
  then show ?case using P_pop P_log by simp
qed simp

lemma P_chain:
  assumes "f = wire_attach \<or> f = wire_detach"
  shows "P (s\<lparr>st_wires := ws\<rparr>) \<Longrightarrow> P (s\<lparr>st_wires := wire_chain f prev rs ws\<rparr>)"
proof (induction rs arbitrary: prev ws)
  case Nil
  then show ?case using assms P_attach [of "s\<lparr>st_wires := ws\<rparr>"] P_detach [of "s\<lparr>st_wires := ws\<rparr>"]
    by (cases prev) auto
next
  case (Cons r rs)
  have "P (s\<lparr>st_wires := (case prev of None \<Rightarrow> ws | Some l \<Rightarrow> rewire f l (ToProcessor (ar_ptr r)) ws)\<rparr>)"
    using Cons.prems assms P_attach [of "s\<lparr>st_wires := ws\<rparr>"] P_detach [of "s\<lparr>st_wires := ws\<rparr>"] by (cases prev) auto
  then show ?case using Cons.IH by simp
qed

lemma P_fold:
  assumes "f = wire_attach \<or> f = wire_detach"
  shows "P (s\<lparr>st_wires := ws\<rparr>) \<Longrightarrow> P (s\<lparr>st_wires := fold (\<lambda>r. rewire f (ar_ptr r) ToProcess) rs ws\<rparr>)"
proof (induction rs arbitrary: ws)
  case (Cons r rs)
  have "P (s\<lparr>st_wires := rewire f (ar_ptr r) ToProcess ws\<rparr>)"
    using Cons.prems assms P_attach [of "s\<lparr>st_wires := ws\<rparr>"] P_detach [of "s\<lparr>st_wires := ws\<rparr>"] by auto
  then show ?case using Cons.IH by simp
qed simp

lemma P_wire_all: "P s \<Longrightarrow> f = wire_attach \<or> f = wire_detach \<Longrightarrow> P (wire_all f s)"
  unfolding wire_all_def by (intro P_fold P_chain) simp_all

lemma P_stopSources: "P s \<Longrightarrow> stopSources env rs s = Inr s' \<Longrightarrow> P s'"
  by (induction env rs s rule: stopSources.induct) (auto simp: result_convs P_log split: if_splits)

lemma P_stop: "P s \<Longrightarrow> stream_stop env s = Inr s' \<Longrightarrow> P s' \<and> st_procMutex s' = st_procMutex s"
  by (auto simp: stream_stop_def lock_proc_def unlock_proc_def bind_r_eq_Inr P_state P_mutex split: if_splits
      dest: P_stopSources [rotated])

lemma P_finish: "P s \<Longrightarrow> P (unlock_proc (synchronizeStates (stream_teardown s)))"
  unfolding unlock_proc_def synchronizeStates_def stream_teardown_def
  by (intro P_mutex P_sync P_wire_all) simp_all

lemma P_closing:
  assumes "P s" "bind_r (lock_proc (stream_setState SClosed s))
    (\<lambda>s2. Inr (add_log [CloseSignal] (unlock_proc (synchronizeStates (stream_teardown s2))))) = Inr s'"
  shows "P s' \<and> st_procMutex s' = st_procMutex s"
  using assms by (auto simp: lock_proc_def intro!: P_log P_finish P_mutex P_state split: if_splits)

lemma P_close:
  assumes "P s" "stream_close env s = Inr s'"
  shows "P s' \<and> st_procMutex s' = st_procMutex s"
proof (cases "in_state s SNone \<or> in_state s SClosed")
  case False
  then obtain s1 where s1: "(if \<not> in_state s SStopped \<and> \<not> in_state s SStopping then stream_stop env s else Inr s) = Inr s1"
    "bind_r (lock_proc (stream_setState SClosed s1))
       (\<lambda>s2. Inr (add_log [CloseSignal] (unlock_proc (synchronizeStates (stream_teardown s2))))) = Inr s'"
    using assms(2) by (auto simp: stream_close_def bind_r_eq_Inr)
  have "P s1 \<and> st_procMutex s1 = st_procMutex s" using s1(1) P_stop [OF assms(1)] assms(1) by (auto split: if_splits)
  then show ?thesis using P_closing [OF _ s1(2)] by simp
qed (use assms in \<open>simp add: stream_close_def\<close>)

lemma P_exception: "P s \<Longrightarrow> handleException env s = Inr s' \<Longrightarrow> P s' \<and> st_procMutex s' = st_procMutex s"
  using P_close [of "add_log [ErrorSignal] ((stream_setState SError s)\<lparr>st_error := True\<rparr>)"]
  by (auto simp: handleException_def Let_def P_log P_error P_state split: if_splits)

text \<open>The predicate and the mutex together, for states and for results.\<close>

definition kept :: "bool \<Rightarrow> 'w config \<Rightarrow> bool" where
  "kept m c \<longleftrightarrow> P (fst c) \<and> mutex_is m (fst c)"

definition ok :: "bool \<Rightarrow> (bool \<times> 'w config) result \<Rightarrow> bool" where
  "ok m r \<longleftrightarrow> (\<forall>t c. r = Inr (t, c) \<longrightarrow> kept m c)"

definition keeps :: "('x \<Rightarrow> 'w config \<Rightarrow> (bool \<times> 'w config) result) \<Rightarrow> bool" where
  "keeps f \<longleftrightarrow> (\<forall>x m c. kept m c \<longrightarrow> ok m (f x c))"

lemma keepsI: "(\<And>x m c. kept m c \<Longrightarrow> ok m (f x c)) \<Longrightarrow> keeps f"
  unfolding keeps_def by blast

lemma keepsD: "keeps f \<Longrightarrow> kept m c \<Longrightarrow> ok m (f x c)"
  unfolding keeps_def by blast

lemma ok_Inl [simp]: "ok m (Inl e)"
  by (simp add: ok_def)

lemma ok_Inr [simp]: "ok m (Inr (t, c)) = kept m c"
  by (cases c) (simp add: ok_def)

lemma ok_bind: "ok m r \<Longrightarrow> (\<And>t c. kept m c \<Longrightarrow> ok m (f (t, c))) \<Longrightarrow> ok m (bind_r r f)"
  by (cases r) (auto simp: ok_def)

lemma ok_assert: "ok m r \<Longrightarrow> ok m (assert_r b r)"
  by (simp add: assert_r_def)

lemma kept_pair [simp]: "kept m (s, w) \<longleftrightarrow> P s \<and> mutex_is m s"
  by (simp add: kept_def)

lemma ok_stream:
  assumes "P s" "mutex_is m s" "\<And>s'. P s' \<Longrightarrow> mutex_is m s' \<Longrightarrow> ok m (f s')"
  shows "ok m (bind_r (stream_stop env s) f)" "ok m (bind_r (stream_close env s) f)" "ok m (bind_r (handleException env s) f)"
proof -
  show "ok m (bind_r (stream_stop env s) f)"
    using assms P_stop [of s env] by (cases "stream_stop env s") (simp_all add: mutex_is_def)
  show "ok m (bind_r (stream_close env s) f)"
    using assms P_close [of s env] by (cases "stream_close env s") (simp_all add: mutex_is_def)
  show "ok m (bind_r (handleException env s) f)"
    using assms P_exception [of s env] by (cases "handleException env s") (simp_all add: mutex_is_def)
qed

lemma ok_each: "keeps f \<Longrightarrow> kept m c \<Longrightarrow> ok m (each f xs c)"
proof (induction xs arbitrary: c)
  case (Cons x xs)
  then show ?case by (auto intro!: ok_bind keepsD [of f])
qed simp

lemma keeps_action:
  fixes rec :: "'w runner"
  assumes "keeps rec"
  shows "keeps (run_action rec env)"
proof (rule keepsI)
  fix x m and c :: "'w config"
  assume "kept m c"
  then show "ok m (run_action rec env x c)" using assms
    by (cases c; cases x)
      (simp_all add: run_action_def ok_stream keepsD stream_pause_def stream_resume_def P_state)
qed

lemma keeps_emit: "keeps rec \<Longrightarrow> kept m c \<Longrightarrow> ok m (stream_emit rec env p c)"
  by (cases c) (auto simp: stream_emit_def P_log intro!: ok_bind ok_each keeps_action ok_stream split: prod.split)

lemma keeps_slot: "keeps rec \<Longrightarrow> keeps (call_slot rec env a p)"
  by (rule keepsI) (auto simp: call_slot_def keepsD keeps_emit split: target.split)

lemma keeps_adapter: "keeps rec \<Longrightarrow> keeps (adapter_emit rec env a)"
  by (rule keepsI) (simp add: adapter_emit_def ok_each keeps_slot)

lemma keeps_processor: "keeps rec \<Longrightarrow> kept m c \<Longrightarrow> ok m (run_processor rec env a p c)"
  by (cases c) (auto simp: run_processor_def intro!: ok_bind ok_each keeps_adapter split: prod.split)

lemma keeps_source: "keeps rec \<Longrightarrow> keeps (start_source rec env)"
  by (rule keepsI) (auto simp: start_source_def kept_def P_log intro!: ok_assert ok_each keeps_adapter split: prod.split)

text \<open>Inside a locked region the mutex is held; leaving it frees the mutex.\<close>

lemma ok_locked:
  assumes "P s" "mutex_is m s" "P (s\<lparr>st_procMutex := True\<rparr>) \<Longrightarrow> mutex_is True (s\<lparr>st_procMutex := True\<rparr>) \<Longrightarrow> ok True (r (s\<lparr>st_procMutex := True\<rparr>))"
  shows "ok m (bind_r (lock_proc s) (\<lambda>s1. bind_r (r s1) (\<lambda>(threw, s2, w2). Inr (threw, unlock_proc s2, w2))))"
proof (cases "st_procMutex s")
  case False
  then have "m = False" using assms(2) by (simp add: mutex_is_def)
  moreover have "ok True (r (s\<lparr>st_procMutex := True\<rparr>))" using assms by (simp add: P_mutex mutex_is_def)
  ultimately show ?thesis using False
    by (cases "r (s\<lparr>st_procMutex := True\<rparr>)") (auto simp: lock_proc_def unlock_proc_def P_mutex mutex_is_def)
qed (simp add: lock_proc_def)

lemma keeps_start: "keeps rec \<Longrightarrow> kept m c \<Longrightarrow> ok m (stream_start rec env c)"
proof -
  assume k: "keeps rec" "kept m c"
  have "P (stream_setState SActive (stream_setup (fst c)))" "mutex_is m (stream_setState SActive (stream_setup (fst c)))"
    using k(2) by (simp_all add: kept_def P_state stream_setup_def P_wire_all) (simp add: mutex_is_def wire_all_def)
  then show ?thesis using k
    by (cases c) (auto simp: stream_start_def intro!: ok_locked ok_each keeps_source)
qed

lemma keeps_active: "keeps rec \<Longrightarrow> kept m c \<Longrightarrow> ok m (process_active rec env p c)"
proof (cases "in_state (fst c) SActive \<and> \<not> has_flag (pkt_flags p) NoModify \<and> st_processors (fst c) \<noteq> []")
  assume k: "keeps rec" "kept m c"
  case True
  let ?r = "\<lambda>s1. if ad_accepts env (ar_ptr (hd (st_processors (fst c)))) p
     then run_processor rec env (ar_ptr (hd (st_processors (fst c)))) p (synchronizeStates s1, snd c)
     else adapter_emit rec env (ar_ptr (hd (st_processors (fst c)))) p (synchronizeStates s1, snd c)"
  have "process_active rec env p c =
      bind_r (lock_proc (fst c)) (\<lambda>s1. bind_r (?r s1) (\<lambda>(threw, s2, w2). Inr (threw, unlock_proc s2, w2)))"
    using True by (auto simp: process_active_def lock_proc_def synchronizeStates_def Let_def intro!: arg_cong2 [where f = bind_r])
  moreover have "ok m (bind_r (lock_proc (fst c)) (\<lambda>s1. bind_r (?r s1) (\<lambda>(threw, s2, w2). Inr (threw, unlock_proc s2, w2))))"
    using k by (intro ok_locked) (auto simp: kept_def synchronizeStates_def P_sync mutex_is_def intro!: keeps_processor keepsD [OF keeps_adapter])
  ultimately show ?thesis by simp
next
  assume k: "keeps rec" "kept m c"
  case False
  show ?thesis unfolding process_active_def if_not_P [OF False] by (rule keeps_emit [OF k])
qed

lemma keeps_final: "kept m c \<Longrightarrow> ok m (process_final env p c)"
  by (cases c) (auto simp: process_final_def intro!: ok_stream)

lemma keeps_process: "keeps rec \<Longrightarrow> kept m c \<Longrightarrow> ok m (stream_process rec env p c)"
  unfolding stream_process_def
proof (intro ok_bind)
  assume k: "keeps rec" "kept m c"
  show "ok m (if st_autoStart (fst c) \<and> in_state (fst c) SNone then stream_start rec env c else Inr (False, c))"
    using k by (simp add: keeps_start)
  fix t and c1 :: "'a config"
  assume c1: "kept m c1"
  have "ok m (bind_r (process_active rec env p c1) (\<lambda>(threw, c2). if threw then Inr (True, c2) else process_final env p c2))"
    using k(1) c1 by (intro ok_bind [OF keeps_active]) (simp_all add: keeps_final)
  then show "ok m (case (t, c1) of (threw, c1) \<Rightarrow> if threw then Inr (True, c1) else
      bind_r (process_active rec env p c1) (\<lambda>(threw, c2). if threw then Inr (True, c2) else process_final env p c2))"
    using c1 by simp
  show "ok m (case (t, c1) of (threw, c3) \<Rightarrow>
      if threw then bind_r (handleException env (fst c3)) (\<lambda>s. Inr (False, s, snd c3)) else Inr (False, c3))"
    using c1 by (cases c1) (auto intro!: ok_stream)
qed

lemma keeps_run: "keeps (run n env)"
proof (induction n)
  case (Suc n)
  then show ?case
    by (auto simp: keeps_start keeps_processor keeps_process intro!: keepsI split: stream_call.split)
qed (simp add: keeps_def)

end

subsection \<open>Well-formed streams\<close>

text \<open>
  No adapter is connected twice to the same receiver, sources and processors are in order, and the
  states waiting for the adapters end in the present one.
\<close>

definition stream_ok :: "packet_stream \<Rightarrow> bool" where
  "stream_ok s \<longleftrightarrow> (\<forall>a. distinct (st_wires s a)) \<and> sorted (map ar_order (st_processors s)) \<and>
     sorted (map ar_order (st_sources s)) \<and> (st_states s \<noteq> [] \<longrightarrow> last (st_states s) = st_state s) \<and>
     st_state s \<in> range state_no"

lemma distinct_wire:
  "distinct ts \<Longrightarrow> distinct (wire_attach t ts)" "distinct ts \<Longrightarrow> distinct (wire_detach t ts)"
  by (auto simp: wire_attach_def wire_detach_def)

interpretation ok_steps: stream_steps stream_ok
proof
  fix s :: packet_stream and st
  assume s: "stream_ok s"
  show "stream_ok (stream_setState st s)" using setState_cases [of st s] s by (auto simp: stream_ok_def)
next
  fix s :: packet_stream and i q
  assume "stream_ok s" "st_states s = i # q"
  then show "stream_ok (s\<lparr>st_states := q\<rparr>)" by (auto simp: stream_ok_def split: if_splits)
qed (simp_all add: stream_ok_def rewire_def distinct_wire)

lemma erase_ref_Some:
  "erase_ref a rs = Some (r, rs') \<Longrightarrow> ar_ptr r = a \<and> (\<exists>xs ys. rs = xs @ r # ys \<and> rs' = xs @ ys)"
proof (induction rs arbitrary: rs')
  case (Cons q rs)
  show ?case
  proof (cases "ar_ptr q = a")
    case True
    then show ?thesis using Cons.prems by (auto intro: exI [of _ "[]"])
  next
    case False
    then obtain rs1 where "erase_ref a rs = Some (r, rs1)" "rs' = q # rs1" using Cons.prems by auto
    then show ?thesis using Cons.IH [of rs1] by (metis append_Cons)
  qed
qed simp

lemma drop_refs_eq:
  "drop_refs rs s = Inr s' \<longleftrightarrow>
     s' = add_log (map (\<lambda>r. Deleted (ar_ptr r)) (filter ar_owned rs)) s \<and> distinct (map ar_ptr (filter ar_owned rs)) \<and>
     set (map ar_ptr (filter ar_owned rs)) \<inter> set (deletions (st_log s)) = {}"
proof (induction rs s rule: drop_refs.induct)
  case (2 r rs s)
  then show ?case by (auto simp: add_log_def)
qed (auto simp: add_log_def)

lemma stream_ok_log [simp]: "stream_ok (add_log es s) = stream_ok s"
  by (simp add: stream_ok_def)

lemma do_op_ok:
  assumes "stream_ok s" "\<not> st_procMutex s" "do_op n env x (s, w) = Inr (t, s', w')"
  shows "stream_ok s' \<and> \<not> st_procMutex s'"
proof -
  have r: "stream_ok s' \<and> \<not> st_procMutex s'" if "run n env k (s, w) = Inr (t, s', w')" for k
    using ok_steps.keepsD [OF ok_steps.keeps_run [of n env], of False "(s, w)" k] that assms(1,2)
    by (simp add: ok_steps.kept_def mutex_is_def)
  show ?thesis
  proof (cases x)
    case (OpDetach a)
    have "sorted (map ar_order rs)" if "erase_ref a (st_processors s) = Some (r, rs)" for r rs
      using erase_ref_Some [OF that] assms(1) by (auto simp: stream_ok_def sorted_append)
    then show ?thesis using OpDetach assms
      by (auto simp: detach_processor_def assertCanModify_def result_convs drop_refs_eq simp del: drop_refs.simps
          split: if_splits option.splits) (auto simp: stream_ok_def)
  next
    case (OpDetachSource a)
    have "sorted (map ar_order rs)" if "erase_ref a (st_sources s) = Some (r, rs)" for r rs
      using erase_ref_Some [OF that] assms(1) by (auto simp: stream_ok_def sorted_append)
    then show ?thesis using OpDetachSource assms
      by (auto simp: detachSource_def assertCanModify_def result_convs drop_refs_eq simp del: drop_refs.simps
          split: if_splits option.splits) (auto simp: stream_ok_def rewire_def distinct_wire)
  next
    case OpStop
    then show ?thesis using assms ok_steps.P_stop [of s env] by (auto simp: bind_r_eq_Inr)
  next
    case OpClose
    then show ?thesis using assms ok_steps.P_close [of s env] by (auto simp: bind_r_eq_Inr)
  next
    case OpReset
    then show ?thesis using assms by (auto simp: stream_reset_def result_convs drop_refs_eq) (auto simp: stream_ok_def)
  qed (use assms r in \<open>auto simp: stream_pause_def stream_resume_def stream_lock_def attach_processor_def attachSource_def
      detachSource_signal_def set_autoStart_def set_closeOnError_def assertCanModify_def result_convs ok_steps.P_state
      split: if_splits\<close>, auto simp: stream_ok_def sort_refs_def rewire_def distinct_wire)
qed

fun do_ops :: "nat \<Rightarrow> 'w adapters \<Rightarrow> stream_op list \<Rightarrow> 'w config \<Rightarrow> 'w config result" where
  "do_ops n env [] c = Inr c"
| "do_ops n env (x # xs) c = bind_r (do_op n env x c) (\<lambda>(_, c1). do_ops n env xs c1)"

lemma do_ops_ok:
  "stream_ok (fst c) \<Longrightarrow> \<not> st_procMutex (fst c) \<Longrightarrow> do_ops n env xs c = Inr c' \<Longrightarrow> stream_ok (fst c') \<and> \<not> st_procMutex (fst c')"
proof (induction xs arbitrary: c)
  case (Cons x xs)
  obtain s w where c: "c = (s, w)" by (cases c)
  obtain t s1 w1 where "do_op n env x (s, w) = Inr (t, s1, w1)" "do_ops n env xs (s1, w1) = Inr c'"
    using Cons.prems by (auto simp: c bind_r_eq_Inr)
  then show ?case using Cons.IH [of "(s1, w1)"] Cons.prems do_op_ok [of s n env x w t s1 w1] by (simp add: c)
qed simp

lemma new_stream_ok: "stream_ok new_stream" "\<not> st_procMutex new_stream"
  by (auto simp: stream_ok_def new_stream_def intro!: image_eqI [where x = SNone])

lemma stopSources_startable:
  "(\<And>r. r \<in> set rs \<Longrightarrow> ar_syncState r \<Longrightarrow> ad_startable env (ar_ptr r)) \<Longrightarrow> \<exists>s'. stopSources env rs s = Inr s'"
  by (induction env rs s rule: stopSources.induct) (auto simp: result_convs)

lemma close_returns:
  assumes "\<not> st_procMutex s" "\<And>r. r \<in> set (st_sources s) \<Longrightarrow> ar_syncState r \<Longrightarrow> ad_startable env (ar_ptr r)"
  shows "\<exists>s'. stream_close env s = Inr s' \<and> (in_state s' SNone \<or> in_state s' SClosed) \<and> st_sources s' = st_sources s \<and>
    st_processors s' = st_processors s \<and> \<not> st_procMutex s'"
proof (cases "in_state s SNone \<or> in_state s SClosed")
  case False
  let ?st = "stream_setState SStopped (stream_setState SStopping s)\<lparr>st_procMutex := True\<rparr>"
  obtain s1 where s1: "stopSources env (st_sources s) ?st = Inr s1"
    using stopSources_startable [of "st_sources s" env] assms(2) by blast
  define s2 where "s2 = (if \<not> in_state s SStopped \<and> \<not> in_state s SStopping then unlock_proc s1 else s)"
  have s2: "(if \<not> in_state s SStopped \<and> \<not> in_state s SStopping then stream_stop env s else Inr s) = Inr s2"
    using False s1 assms(1) by (auto simp: s2_def stream_stop_def lock_proc_def)
  have p: "\<not> st_procMutex s2" "st_sources s2 = st_sources s" "st_processors s2 = st_processors s"
    using stopSources_parts [OF s1] assms(1) by (simp_all add: s2_def)
  show ?thesis using False s2 p
    by (auto simp: stream_close_def lock_proc_def synchronizeStates_def stream_teardown_def wire_all_def)
qed (use assms in \<open>auto simp: stream_close_def\<close>)

subsection \<open>Who deletes the adapters\<close>

text \<open>Packets, starting and stopping leave the lists of adapters alone and delete none.\<close>

definition same_adapters :: "adapter_ref list \<Rightarrow> adapter_ref list \<Rightarrow> nat list \<Rightarrow> packet_stream \<Rightarrow> bool" where
  "same_adapters A B D s \<longleftrightarrow> st_sources s = A \<and> st_processors s = B \<and> deletions (st_log s) = D"

interpretation same_steps: stream_steps "same_adapters A B D" for A B D
  by unfold_locales (simp_all add: same_adapters_def)

text \<open>The adapters an operation hands to the stream, and whether the stream is to delete them.\<close>

fun attached :: "stream_op \<Rightarrow> (nat \<times> bool) list" where
  "attached (OpAttach a i owned) = [(a, owned)]"
| "attached (OpAttachSource a owned sync) = [(a, owned)]"
| "attached _ = []"

text \<open>Every owned adapter that was handed over is either listed or deleted.\<close>

definition adapters_ok :: "(nat \<times> bool) list \<Rightarrow> packet_stream \<Rightarrow> bool" where
  "adapters_ok G s \<longleftrightarrow> distinct (map ar_ptr (stream_adapters s)) \<and>
     (\<forall>r \<in> set (stream_adapters s). (ar_ptr r, ar_owned r) \<in> set G) \<and>
     mset (deletions (st_log s)) + mset (map ar_ptr (filter ar_owned (stream_adapters s))) = mset (map fst (filter snd G))"

lemma adapters_same:
  "same_adapters (st_sources s) (st_processors s) (deletions (st_log s)) s' \<Longrightarrow> adapters_ok G s' = adapters_ok G s"
  by (simp add: same_adapters_def adapters_ok_def stream_adapters_def)

lemma adapters_ok_attach:
  assumes "adapters_ok G s" "distinct (map fst (G @ [(ar_ptr r, ar_owned r)]))"
    and "mset (stream_adapters s') = add_mset r (mset (stream_adapters s))" "st_log s' = st_log s"
  shows "adapters_ok (G @ [(ar_ptr r, ar_owned r)]) s'"
proof -
  have p: "set (stream_adapters s') = insert r (set (stream_adapters s))"
    using assms(3) by (metis set_mset_add_mset_insert set_mset_mset)
  have "mset (map ar_ptr (stream_adapters s')) = mset (ar_ptr r # map ar_ptr (stream_adapters s))"
    using assms(3) by simp
  then have "distinct (map ar_ptr (stream_adapters s')) \<longleftrightarrow> distinct (ar_ptr r # map ar_ptr (stream_adapters s))"
    by (rule mset_eq_imp_distinct_iff)
  moreover have "ar_ptr r \<notin> ar_ptr ` set (stream_adapters s)"
    using assms(1,2) by (force simp: adapters_ok_def)
  moreover have "mset (map ar_ptr (filter ar_owned (stream_adapters s'))) =
      mset (map ar_ptr (filter ar_owned (stream_adapters s))) + (if ar_owned r then {#ar_ptr r#} else {#})"
    using assms(3) by (simp add: mset_filter)
  ultimately show ?thesis using assms(1,4) p by (auto simp: adapters_ok_def)
qed

lemma adapters_ok_drop:
  assumes "adapters_ok G s" "mset (stream_adapters s) = mset rs + mset (stream_adapters s1)" "st_log s1 = st_log s"
    and "drop_refs rs s1 = Inr s'"
  shows "adapters_ok G s'"
proof -
  have s': "s' = add_log (map (\<lambda>r. Deleted (ar_ptr r)) (filter ar_owned rs)) s1" using assms(4) by (simp add: drop_refs_eq)
  have a: "stream_adapters s' = stream_adapters s1" by (simp add: s' stream_adapters_def)
  have "mset (stream_adapters s) = mset (rs @ stream_adapters s1)" using assms(2) by simp
  then have m: "mset (map ar_ptr (stream_adapters s)) = mset (map ar_ptr (rs @ stream_adapters s1))"
    and f: "mset (map ar_ptr (filter ar_owned (stream_adapters s))) = mset (map ar_ptr (filter ar_owned (rs @ stream_adapters s1)))"
    and st: "set (stream_adapters s) = set (rs @ stream_adapters s1)"
    by (metis mset_map, metis mset_filter mset_map, metis set_mset_mset)
  have "distinct (map ar_ptr (stream_adapters s1))"
    using assms(1) mset_eq_imp_distinct_iff [OF m] by (simp add: adapters_ok_def)
  then show ?thesis using assms(1,3) f st unfolding adapters_ok_def a by (simp add: s' ac_simps)
qed

text \<open>No listed adapter is deleted, so all of them can be deleted.\<close>

lemma adapters_alive:
  assumes "adapters_ok G s" "distinct (map fst G)" "r \<in> set (stream_adapters s)"
  shows "ar_ptr r \<notin> set (deletions (st_log s))"
proof
  assume d: "ar_ptr r \<in> set (deletions (st_log s))"
  have m: "mset (deletions (st_log s) @ map ar_ptr (filter ar_owned (stream_adapters s))) = mset (map fst (filter snd G))"
    using assms(1) by (simp add: adapters_ok_def)
  have "ar_ptr r \<in> set (map fst (filter snd G))" using d mset_eq_setD [OF m] by auto
  then have "(ar_ptr r, True) \<in> set G" by auto
  moreover have "(ar_ptr r, ar_owned r) \<in> set G" using assms(1,3) by (simp add: adapters_ok_def)
  ultimately have "ar_owned r" using assms(2) by (metis eq_key_imp_eq_value)
  moreover have "distinct (map fst (filter snd G))" using assms(2) by (rule distinct_map_filter)
  ultimately show False using d assms(3) mset_eq_imp_distinct_iff [OF m] by auto
qed

lemma adapters_destroyed:
  assumes "adapters_ok G s" "distinct (map fst G)" "stream_adapters s1 = []" "st_log s1 = st_log s"
  shows "\<exists>s'. drop_refs (stream_adapters s) s1 = Inr s' \<and> mset (deletions (st_log s')) = mset (map fst (filter snd G)) \<and>
    st_sources s' = st_sources s1 \<and> st_processors s' = st_processors s1 \<and> st_state s' = st_state s1"
proof -
  have "distinct (map ar_ptr (filter ar_owned (stream_adapters s)))"
    using assms(1) by (simp add: adapters_ok_def distinct_map_filter)
  moreover have "set (map ar_ptr (filter ar_owned (stream_adapters s))) \<inter> set (deletions (st_log s1)) = {}"
    using adapters_alive [OF assms(1,2)] assms(4) by auto
  ultimately show ?thesis using assms(1,4) by (auto simp: drop_refs_eq adapters_ok_def)
qed

lemma do_op_adapters:
  assumes "adapters_ok G s" "distinct (map fst (G @ attached x))" "do_op n env x (s, w) = Inr (t, s', w')"
  shows "adapters_ok (G @ attached x) s'"
proof -
  let ?same = "same_adapters (st_sources s) (st_processors s) (deletions (st_log s))"
  have s: "?same s" by (simp add: same_adapters_def)
  have r: "?same s'" if "run n env k (s, w) = Inr (t, s', w')" for k
    using same_steps.keepsD [OF same_steps.keeps_run [where n = n and env = env], where m = "st_procMutex s" and c = "(s, w)" and x = k] that s
    by (simp add: same_steps.kept_def mutex_is_def)
  have keep: "?same s' \<Longrightarrow> attached x = [] \<Longrightarrow> ?thesis" using adapters_same assms(1) by simp
  show ?thesis
  proof (cases x)
    case (OpAttach a i owned)
    let ?r = "\<lparr>ar_ptr = a, ar_owned = owned, ar_order = (if i = -1 then int (length (st_processors s)) else i), ar_syncState = False\<rparr>"
    show ?thesis using adapters_ok_attach [OF assms(1), of ?r s'] assms(2,3)
      by (auto simp: OpAttach attach_processor_def assertCanModify_def result_convs stream_adapters_def sort_refs_def
          split: if_splits)
  next
    case (OpAttachSource a owned sync)
    let ?r = "\<lparr>ar_ptr = a, ar_owned = owned, ar_order = 0, ar_syncState = sync\<rparr>"
    show ?thesis using adapters_ok_attach [OF assms(1), of ?r s'] assms(2,3)
      by (auto simp: OpAttachSource attachSource_def assertCanModify_def stream_adapters_def sort_refs_def split: if_splits)
  next
    case (OpDetach a)
    show ?thesis
    proof (cases "erase_ref a (st_processors s)")
      case (Some y)
      obtain q rs where e: "erase_ref a (st_processors s) = Some (q, rs)" using Some by (cases y) auto
      from erase_ref_Some [OF e] have "mset (st_processors s) = add_mset q (mset rs)" by auto
      then show ?thesis using adapters_ok_drop [OF assms(1), of "[q]" "s\<lparr>st_processors := rs\<rparr>" s'] assms(3) e
        by (auto simp: OpDetach detach_processor_def assertCanModify_def result_convs stream_adapters_def
            simp del: drop_refs.simps split: if_splits)
    qed (use assms keep s in \<open>auto simp: OpDetach detach_processor_def assertCanModify_def split: if_splits\<close>)
  next
    case (OpDetachSource a)
    show ?thesis
    proof (cases "erase_ref a (st_sources s)")
      case (Some y)
      obtain q rs where e: "erase_ref a (st_sources s) = Some (q, rs)" using Some by (cases y) auto
      from erase_ref_Some [OF e] have "mset (st_sources s) = add_mset q (mset rs)" by auto
      then show ?thesis
        using adapters_ok_drop [OF assms(1), of "[q]" "s\<lparr>st_sources := rs, st_wires := rewire wire_detach a ToProcess (st_wires s)\<rparr>" s']
          assms(3) e
        by (auto simp: OpDetachSource detachSource_def assertCanModify_def result_convs stream_adapters_def
            simp del: drop_refs.simps split: if_splits)
    qed (use assms keep s in \<open>auto simp: OpDetachSource detachSource_def assertCanModify_def split: if_splits\<close>)
  next
    case OpReset
    then show ?thesis using adapters_ok_drop [OF assms(1), of "stream_adapters s" "s\<lparr>st_sources := [], st_processors := []\<rparr>" s'] assms(3)
      by (auto simp: stream_reset_def result_convs stream_adapters_def)
  next
    case OpStop
    then show ?thesis using keep same_steps.P_stop [OF s, of env s'] assms(3) by (auto simp: bind_r_eq_Inr)
  next
    case OpClose
    then show ?thesis using keep same_steps.P_close [OF s, of env s'] assms(3) by (auto simp: bind_r_eq_Inr)
  qed (use assms(3) r keep s in \<open>auto simp: stream_pause_def stream_resume_def stream_lock_def detachSource_signal_def
      set_autoStart_def set_closeOnError_def assertCanModify_def same_steps.P_state split: if_splits\<close>,
      auto simp: same_adapters_def)
qed

lemma do_ops_adapters:
  "adapters_ok G (fst c) \<Longrightarrow> distinct (map fst (G @ concat (map attached xs))) \<Longrightarrow> do_ops n env xs c = Inr c' \<Longrightarrow>
   adapters_ok (G @ concat (map attached xs)) (fst c')"
proof (induction xs arbitrary: G c)
  case (Cons x xs)
  obtain s w where c: "c = (s, w)" by (cases c)
  obtain t s1 w1 where x: "do_op n env x (s, w) = Inr (t, s1, w1)" "do_ops n env xs (s1, w1) = Inr c'"
    using Cons.prems(3) by (auto simp: c bind_r_eq_Inr)
  have "distinct (map fst ((G @ attached x) @ concat (map attached xs)))" using Cons.prems(2) by simp
  then have "distinct (map fst (G @ attached x))" by (simp only: map_append distinct_append)
  then have "adapters_ok (G @ attached x) s1" using do_op_adapters [OF _ _ x(1), of G] Cons.prems(1) by (simp add: c)
  then show ?case using Cons.IH [of "G @ attached x" "(s1, w1)"] Cons.prems(2) x(2) by simp
qed simp

text \<open>
  C12 (invariant). A stream is given new adapters, each attached once, and taken through any sequence of
  operations that returns, while its adapters and receivers throw exceptions and write to, start,
  stop, pause, resume and close the stream from within. Then it is well formed, its mutex is free,
  and no adapter in its lists is deleted. If the sources to be started and stopped with it are
  startable, it can be destroyed: the assertions of the destructor hold, and then exactly the adapters it
  was to own have been deleted, each once, be it on detaching, on \<^verbatim>\<open>reset\<close> or at the end.
\<close>
theorem stream_invariant:
  assumes "do_ops n env xs (new_stream, w) = Inr (s, w')" "distinct (map fst (concat (map attached xs)))"
    and "\<And>r. r \<in> set (st_sources s) \<Longrightarrow> ar_syncState r \<Longrightarrow> ad_startable env (ar_ptr r)"
  shows "stream_ok s \<and> \<not> st_procMutex s \<and> (\<forall>r \<in> set (stream_adapters s). ar_ptr r \<notin> set (deletions (st_log s))) \<and>
    (\<exists>s'. destroy_stream env s = Inr s' \<and> st_sources s' = [] \<and> st_processors s' = [] \<and>
      mset (deletions (st_log s')) = mset (map fst (filter snd (concat (map attached xs)))))"
proof -
  let ?G = "concat (map attached xs)"
  have ok: "stream_ok s" "\<not> st_procMutex s" using do_ops_ok [OF _ _ assms(1)] new_stream_ok by simp_all
  have "adapters_ok [] new_stream" by (simp add: adapters_ok_def new_stream_def stream_adapters_def)
  then have G: "adapters_ok ?G s" using do_ops_adapters [of "[]" "(new_stream, w)" xs n env "(s, w')"] assms(1,2) by simp
  obtain s1 where s1: "stream_close env s = Inr s1" "in_state s1 SNone \<or> in_state s1 SClosed" "st_sources s1 = st_sources s"
    "st_processors s1 = st_processors s"
    using close_returns [OF ok(2)] assms(3) by blast
  have "adapters_ok ?G s1"
    using same_steps.P_close [OF _ s1(1), of "st_sources s" "st_processors s" "deletions (st_log s)"] adapters_same [of s s1] G
    by (simp add: same_adapters_def)
  from adapters_destroyed [OF this assms(2), of "s1\<lparr>st_sources := [], st_processors := []\<rparr>"] obtain s' where
    s': "drop_refs (stream_adapters s1) (s1\<lparr>st_sources := [], st_processors := []\<rparr>) = Inr s'"
      "mset (deletions (st_log s')) = mset (map fst (filter snd ?G))" "st_sources s' = []" "st_processors s' = []"
      "st_state s' = st_state s1"
    by (auto simp: stream_adapters_def)
  then have "destroy_stream env s = Inr s'"
    using s1(1,2) by (auto simp: destroy_stream_def stream_reset_def in_state_def)
  then show ?thesis using ok adapters_alive [OF G assms(2)] s' by blast
qed

subsection \<open>A stream is its chain of processors\<close>

text \<open>The processors of a running stream are connected in order, the last one to the stream.\<close>

fun connected :: "(nat \<Rightarrow> target list) \<Rightarrow> nat list \<Rightarrow> bool" where
  "connected ws [] \<longleftrightarrow> True"
| "connected ws [a] \<longleftrightarrow> ws a = [ToEmit]"
| "connected ws (a # b # as) \<longleftrightarrow> ws a = [ToProcessor b] \<and> connected ws (b # as)"

lemma connected_cong: "(\<And>a. a \<in> set as \<Longrightarrow> ws a = ws' a) \<Longrightarrow> connected ws as = connected ws' as"
  by (induction ws as rule: connected.induct) auto

text \<open>What the chain makes of a packet, depth first.\<close>

fun flow :: "(nat \<Rightarrow> 'p \<Rightarrow> 'p list) \<Rightarrow> nat list \<Rightarrow> 'p \<Rightarrow> 'p list" where
  "flow f [] p = [p]"
| "flow f (a # as) p = concat (map (flow f as) (f a p))"

definition chain_or_free :: "(nat \<Rightarrow> target list) \<Rightarrow> nat list \<Rightarrow> bool" where
  "chain_or_free ws as \<longleftrightarrow> distinct as \<and> (connected ws as \<or> (\<forall>a \<in> set as. ws a = []))"

lemma chain_or_free_tl:
  assumes "chain_or_free ws (a # b # as)" "\<And>x. x \<noteq> a \<Longrightarrow> ws' x = ws x"
  shows "chain_or_free ws' (b # as)"
proof -
  have e: "ws' x = ws x" if "x \<in> set (b # as)" for x
    using that assms(1) by (intro assms(2)) (auto simp: chain_or_free_def)
  then have "connected ws' (b # as) = connected ws (b # as)" by (rule connected_cong)
  with e show ?thesis using assms(1) by (auto simp: chain_or_free_def)
qed

lemma chain_attach:
  fixes r :: adapter_ref
  assumes "chain_or_free ws (ar_ptr r # map ar_ptr rs)"
  shows "connected (wire_chain wire_attach (Some (ar_ptr r)) rs ws) (ar_ptr r # map ar_ptr rs) \<and>
    (\<forall>a. a \<notin> set (ar_ptr r # map ar_ptr rs) \<longrightarrow> wire_chain wire_attach (Some (ar_ptr r)) rs ws a = ws a)"
  using assms
proof (induction rs arbitrary: r ws)
  case Nil
  then show ?case by (auto simp: chain_or_free_def rewire_def wire_attach_def)
next
  case (Cons q rs)
  define ws1 where "ws1 = rewire wire_attach (ar_ptr r) (ToProcessor (ar_ptr q)) ws"
  have 1: "ws1 (ar_ptr r) = [ToProcessor (ar_ptr q)]" "\<And>a. a \<noteq> ar_ptr r \<Longrightarrow> ws1 a = ws a"
    using Cons.prems by (auto simp: chain_or_free_def ws1_def rewire_def wire_attach_def)
  have "chain_or_free ws (ar_ptr r # ar_ptr q # map ar_ptr rs)" using Cons.prems by (simp only: list.map)
  then have "chain_or_free ws1 (ar_ptr q # map ar_ptr rs)" by (rule chain_or_free_tl) (rule 1(2))
  then have I: "connected (wire_chain wire_attach (Some (ar_ptr q)) rs ws1) (ar_ptr q # map ar_ptr rs)"
    "a \<notin> set (ar_ptr q # map ar_ptr rs) \<Longrightarrow> wire_chain wire_attach (Some (ar_ptr q)) rs ws1 a = ws1 a" for a
    using Cons.IH [of ws1 q] by blast+
  define W where "W = wire_chain wire_attach (Some (ar_ptr q)) rs ws1"
  have e: "wire_chain wire_attach (Some (ar_ptr r)) (q # rs) ws = W" by (simp add: W_def ws1_def)
  have "ar_ptr r \<notin> set (ar_ptr q # map ar_ptr rs)" using Cons.prems by (auto simp: chain_or_free_def)
  then have "W (ar_ptr r) = [ToProcessor (ar_ptr q)]" using I(2) 1(1) by (simp add: W_def)
  moreover have "W a = ws a" if "a \<notin> set (ar_ptr r # map ar_ptr (q # rs))" for a
    using that I(2) [of a] 1(2) [of a] by (simp add: W_def)
  ultimately show ?case unfolding e using I(1) by (simp add: W_def)
qed

lemma chain_detach:
  fixes r :: adapter_ref
  assumes "chain_or_free ws (ar_ptr r # map ar_ptr rs)"
  shows "\<forall>a \<in> set (ar_ptr r # map ar_ptr rs). wire_chain wire_detach (Some (ar_ptr r)) rs ws a = []"
    "\<forall>a. a \<notin> set (ar_ptr r # map ar_ptr rs) \<longrightarrow> wire_chain wire_detach (Some (ar_ptr r)) rs ws a = ws a"
proof -
  have "(\<forall>a \<in> set (ar_ptr r # map ar_ptr rs). wire_chain wire_detach (Some (ar_ptr r)) rs ws a = []) \<and>
    (\<forall>a. a \<notin> set (ar_ptr r # map ar_ptr rs) \<longrightarrow> wire_chain wire_detach (Some (ar_ptr r)) rs ws a = ws a)"
    using assms
  proof (induction rs arbitrary: r ws)
    case Nil
    then show ?case by (auto simp: chain_or_free_def rewire_def wire_detach_def)
  next
    case (Cons q rs)
    define ws1 where "ws1 = rewire wire_detach (ar_ptr r) (ToProcessor (ar_ptr q)) ws"
    have 1: "ws1 (ar_ptr r) = []" "\<And>a. a \<noteq> ar_ptr r \<Longrightarrow> ws1 a = ws a"
      using Cons.prems by (auto simp: chain_or_free_def ws1_def rewire_def wire_detach_def)
    have "chain_or_free ws (ar_ptr r # ar_ptr q # map ar_ptr rs)" using Cons.prems by (simp only: list.map)
    then have "chain_or_free ws1 (ar_ptr q # map ar_ptr rs)" by (rule chain_or_free_tl) (rule 1(2))
    then have I: "a \<in> set (ar_ptr q # map ar_ptr rs) \<Longrightarrow> wire_chain wire_detach (Some (ar_ptr q)) rs ws1 a = []"
      "a \<notin> set (ar_ptr q # map ar_ptr rs) \<Longrightarrow> wire_chain wire_detach (Some (ar_ptr q)) rs ws1 a = ws1 a" for a
      using Cons.IH [of ws1 q] by blast+
    define W where "W = wire_chain wire_detach (Some (ar_ptr q)) rs ws1"
    have e: "wire_chain wire_detach (Some (ar_ptr r)) (q # rs) ws = W" by (simp add: W_def ws1_def)
    have "ar_ptr r \<notin> set (ar_ptr q # map ar_ptr rs)" using Cons.prems by (auto simp: chain_or_free_def)
    then have "W (ar_ptr r) = []" using I(2) 1(1) by (simp add: W_def)
    moreover have "W a = ws a" if "a \<notin> set (ar_ptr r # map ar_ptr (q # rs))" for a
      using that I(2) [of a] 1(2) [of a] by (simp add: W_def)
    moreover have "W a = []" if "a \<in> set (map ar_ptr (q # rs))" for a
      using that I(1) [of a] by (simp add: W_def)
    ultimately show ?case unfolding e by simp
  qed
  then show "\<forall>a \<in> set (ar_ptr r # map ar_ptr rs). wire_chain wire_detach (Some (ar_ptr r)) rs ws a = []"
    "\<forall>a. a \<notin> set (ar_ptr r # map ar_ptr rs) \<longrightarrow> wire_chain wire_detach (Some (ar_ptr r)) rs ws a = ws a" by blast+
qed

lemma fold_rewire_other:
  "a \<notin> ar_ptr ` set rs \<Longrightarrow> fold (\<lambda>r. rewire f (ar_ptr r) t) rs ws a = ws a"
  by (induction rs arbitrary: ws) (auto simp: rewire_def)

text \<open>The processors of a stream, which are not its sources, connected or free.\<close>

definition chain_of :: "packet_stream \<Rightarrow> nat list" where
  "chain_of s = map ar_ptr (st_processors s)"

definition chain_ok :: "packet_stream \<Rightarrow> bool" where
  "chain_ok s \<longleftrightarrow> chain_or_free (st_wires s) (chain_of s) \<and> set (chain_of s) \<inter> ar_ptr ` set (st_sources s) = {}"

lemma setup_connects:
  assumes "chain_ok s"
  shows "connected (st_wires (stream_setup s)) (chain_of s)"
proof (cases "st_processors s")
  case (Cons r rs)
  have c: "chain_of s = ar_ptr r # map ar_ptr rs" by (simp add: chain_of_def Cons)
  have "connected (wire_chain wire_attach (Some (ar_ptr r)) rs (st_wires s)) (chain_of s)"
    using chain_attach [of "st_wires s" r rs] assms unfolding chain_ok_def c by blast
  moreover have "a \<in> set (chain_of s) \<Longrightarrow> a \<notin> ar_ptr ` set (st_sources s)" for a using assms by (auto simp: chain_ok_def)
  ultimately show ?thesis
    using connected_cong [of "chain_of s" "st_wires (stream_setup s)"] by (simp add: stream_setup_def wire_all_def Cons fold_rewire_other)
qed (simp add: chain_of_def)

lemma teardown_frees:
  assumes "chain_ok s" "a \<in> set (chain_of s)"
  shows "st_wires (stream_teardown s) a = []"
proof (cases "st_processors s")
  case (Cons r rs)
  have c: "chain_of s = ar_ptr r # map ar_ptr rs" by (simp add: chain_of_def Cons)
  have "wire_chain wire_detach (Some (ar_ptr r)) rs (st_wires s) a = []"
    using chain_detach(1) [of "st_wires s" r rs] assms unfolding chain_ok_def c by blast
  moreover have "a \<notin> ar_ptr ` set (st_sources s)" using assms by (auto simp: chain_ok_def)
  ultimately show ?thesis by (simp add: stream_teardown_def wire_all_def Cons fold_rewire_other)
qed (use assms in \<open>simp add: chain_of_def\<close>)

text \<open>Adapters that only work on packets: processors emit a function of the packet, and the rest is passive.\<close>

definition pure_adapters :: "(nat \<Rightarrow> stream_packet \<Rightarrow> stream_packet list) \<Rightarrow> 'w adapters \<Rightarrow> bool" where
  "pure_adapters f env \<longleftrightarrow>
     (\<forall>a p w. ad_process env a p w = (f a p, False, w)) \<and> (\<forall>a. ad_startable env a) \<and>
     (\<forall>a w. ad_started env a w = ([], w)) \<and> (\<forall>p w. ad_receive env p w = ([], False, w))"

lemma add_log_add [simp]: "add_log es (add_log fs s) = add_log (fs @ es) s" "add_log [] s = s"
  by (simp_all add: add_log_def)

text \<open>
  Processors that may also throw: \<open>t a p\<close> tells whether the processor \<open>a\<close> throws after it has emitted
  what it makes of the packet \<open>p\<close>. An exception ends the processors it passes through.
\<close>

definition throwing_adapters ::
    "(nat \<Rightarrow> stream_packet \<Rightarrow> stream_packet list) \<Rightarrow> (nat \<Rightarrow> stream_packet \<Rightarrow> bool) \<Rightarrow> 'w adapters \<Rightarrow> bool" where
  "throwing_adapters f t env \<longleftrightarrow>
     (\<forall>a p w. ad_process env a p w = (f a p, t a p, w)) \<and> (\<forall>a. ad_startable env a) \<and>
     (\<forall>a w. ad_started env a w = ([], w)) \<and> (\<forall>p w. ad_receive env p w = ([], False, w))"

lemma pure_throwing: "pure_adapters f env \<longleftrightarrow> throwing_adapters f (\<lambda>_ _. False) env"
  by (simp add: pure_adapters_def throwing_adapters_def)

fun until_throw :: "('p \<Rightarrow> 'q list \<times> bool) \<Rightarrow> 'p list \<Rightarrow> 'q list \<times> bool" where
  "until_throw g [] = ([], False)"
| "until_throw g (p # ps) =
     (if snd (g p) then (fst (g p), True) else (fst (g p) @ fst (until_throw g ps), snd (until_throw g ps)))"

primrec flow_until :: "(nat \<Rightarrow> 'p \<Rightarrow> 'p list) \<Rightarrow> (nat \<Rightarrow> 'p \<Rightarrow> bool) \<Rightarrow> nat list \<Rightarrow> 'p \<Rightarrow> 'p list \<times> bool" where
  "flow_until f t [] = (\<lambda>p. ([p], False))"
| "flow_until f t (a # as) =
     (\<lambda>p. apsnd (\<lambda>threw. threw \<or> t a p) (until_throw (flow_until f t as) (f a p)))"

lemma until_throw_none: "(\<And>p. p \<in> set ps \<Longrightarrow> \<not> snd (g p)) \<Longrightarrow> until_throw g ps = (concat (map (\<lambda>p. fst (g p)) ps), False)"
  by (induction ps) simp_all

lemma flow_until_none: "flow_until f (\<lambda>_ _. False) as p = (flow f as p, False)"
proof (induction as arbitrary: p)
  case (Cons a as)
  then show ?case by (simp add: until_throw_none)
qed simp

lemma each_until:
  assumes "\<And>x s. x \<in> set xs \<Longrightarrow> Q s \<Longrightarrow> f x (s, w) = Inr (snd (g x), add_log (map Output (fst (g x))) s, w)"
    and "\<And>es s. Q s \<Longrightarrow> deletions es = [] \<Longrightarrow> Q (add_log es s)" "Q s"
  shows "each f xs (s, w) = Inr (snd (until_throw g xs), add_log (map Output (fst (until_throw g xs))) s, w)"
  using assms(1,3)
proof (induction xs arbitrary: s)
  case (Cons x xs)
  then show ?case using assms(2) by simp
qed simp

lemma each_log:
  assumes "\<And>x s. x \<in> set xs \<Longrightarrow> f x (s, w) = Inr (False, add_log (g x) s, w)"
  shows "each f xs (s, w) = Inr (False, add_log (concat (map g xs)) s, w)"
  using assms by (induction xs arbitrary: s) simp_all

text \<open>A connected chain of processors that have not been deleted.\<close>

definition live_chain :: "packet_stream \<Rightarrow> nat list \<Rightarrow> bool" where
  "live_chain s as \<longleftrightarrow> connected (st_wires s) as \<and> in_state s SActive \<and> set as \<inter> set (deletions (st_log s)) = {}"

lemma live_chain_log: "live_chain s as \<Longrightarrow> deletions es = [] \<Longrightarrow> live_chain (add_log es s) as"
  by (simp add: live_chain_def)

lemma live_chain_tl: "live_chain s (a # b # as) \<Longrightarrow> live_chain s (b # as)"
  by (simp add: live_chain_def)

lemma emit_flow:
  assumes "throwing_adapters f t env"
  shows "live_chain s (a # as) \<Longrightarrow> length as \<le> n \<Longrightarrow>
    adapter_emit (run n env) env a p (s, w) =
      Inr (snd (flow_until f t as p), add_log (map Output (fst (flow_until f t as p))) s, w)"
proof (induction as arbitrary: a n p s)
  case Nil
  then show ?case using assms
    by (simp add: adapter_emit_def call_slot_def stream_emit_def throwing_adapters_def live_chain_def)
next
  case (Cons b as)
  then obtain k where n: "n = Suc k" by (cases n) simp_all
  have l: "live_chain s (b # as)" using Cons.prems(1) by (rule live_chain_tl)
  have "each (adapter_emit (run k env) env b) (f b p) (s, w) =
      Inr (snd (until_throw (flow_until f t as) (f b p)), add_log (map Output (fst (until_throw (flow_until f t as) (f b p)))) s, w)"
    by (rule each_until [where Q = "\<lambda>s. live_chain s (b # as)"])
      (use Cons n l live_chain_log in simp_all)
  then have "run_processor (run k env) env b p (s, w) =
      Inr (snd (flow_until f t (b # as) p), add_log (map Output (fst (flow_until f t (b # as) p))) s, w)"
    using assms by (simp add: run_processor_def throwing_adapters_def)
  then show ?case using Cons.prems by (simp add: n adapter_emit_def call_slot_def live_chain_def)
qed

lemma processor_flow:
  assumes "throwing_adapters f t env" "live_chain s (a # as)" "length as \<le> n"
  shows "run_processor (run n env) env a p (s, w) =
    Inr (snd (flow_until f t (a # as) p), add_log (map Output (fst (flow_until f t (a # as) p))) s, w)"
proof -
  have "each (adapter_emit (run n env) env a) (f a p) (s, w) =
      Inr (snd (until_throw (flow_until f t as) (f a p)), add_log (map Output (fst (until_throw (flow_until f t as) (f a p)))) s, w)"
    by (rule each_until [where Q = "\<lambda>s. live_chain s (a # as)"])
      (use assms emit_flow [OF assms(1)] live_chain_log in simp_all)
  then show ?thesis using assms(1) by (simp add: run_processor_def throwing_adapters_def)
qed

subsection \<open>The abstract stream\<close>

text \<open>
  A stream for its user: a state, whether the chain is connected, and the packets put out so far. A
  packet written to an active stream goes through the chain at once.
\<close>

record spec_stream =
  sp_state :: stream_state
  sp_connected :: bool
  sp_out :: "stream_packet list"

definition through :: "(nat \<Rightarrow> stream_packet \<Rightarrow> stream_packet list) \<Rightarrow> (nat \<Rightarrow> stream_packet \<Rightarrow> bool) \<Rightarrow> nat list \<Rightarrow> bool \<Rightarrow>
    stream_packet \<Rightarrow> stream_packet list" where
  "through f acc as conn p =
     (if has_flag (pkt_flags p) NoModify \<or> as = [] then [p]
      else if \<not> conn then []
      else if acc (hd as) p then flow f as p else flow f (tl as) p)"

fun spec_op :: "(nat \<Rightarrow> stream_packet \<Rightarrow> stream_packet list) \<Rightarrow> (nat \<Rightarrow> stream_packet \<Rightarrow> bool) \<Rightarrow> nat list \<Rightarrow>
    stream_op \<Rightarrow> spec_stream \<Rightarrow> spec_stream" where
  "spec_op f acc as OpStart x = (if sp_state x = SActive then x else x\<lparr>sp_state := SActive, sp_connected := True\<rparr>)"
| "spec_op f acc as OpStop x =
     (if sp_state x \<in> {SStopped, SStopping, SClosed} then x else x\<lparr>sp_state := SStopped\<rparr>)"
| "spec_op f acc as OpPause x = x\<lparr>sp_state := SPaused\<rparr>"
| "spec_op f acc as OpResume x = (if sp_state x = SPaused then x\<lparr>sp_state := SActive\<rparr> else x)"
| "spec_op f acc as OpClose x =
     (if sp_state x \<in> {SNone, SClosed} then x else x\<lparr>sp_state := SClosed, sp_connected := False\<rparr>)"
| "spec_op f acc as OpLock x = (if sp_state x = SNone then x\<lparr>sp_state := SLocked\<rparr> else x)"
| "spec_op f acc as (OpWrite p) x =
     (if sp_state x \<noteq> SActive then x
      else x\<lparr>sp_out := sp_out x @ through f acc as (sp_connected x) p,
             sp_state := (if has_flag (pkt_flags p) Final then SStopped else SActive)\<rparr>)"
| "spec_op f acc as _ x = x"

fun control_op :: "stream_op \<Rightarrow> bool" where
  "control_op OpStart = True"
| "control_op OpStop = True"
| "control_op OpPause = True"
| "control_op OpResume = True"
| "control_op OpClose = True"
| "control_op OpLock = True"
| "control_op (OpWrite p) = True"
| "control_op _ = False"

definition outputs :: "stream_event list \<Rightarrow> stream_packet list" where
  "outputs es = concat (map (\<lambda>e. case e of Output p \<Rightarrow> [p] | _ \<Rightarrow> []) es)"

lemma outputs_simps [simp]:
  "outputs [] = []" "outputs (es @ fs) = outputs es @ outputs fs" "outputs (map Output ps) = ps"
  "outputs (map (\<lambda>r. StateChange (g r) i) rs) = []" "outputs (map (\<lambda>r. SourceStopped (g r)) rs) = []"
  "outputs [CloseSignal] = []"
  by (simp_all add: outputs_def comp_def)

text \<open>How a stream stands for an abstract one.\<close>

definition sim :: "nat list \<Rightarrow> packet_stream \<Rightarrow> spec_stream \<Rightarrow> bool" where
  "sim as s x \<longleftrightarrow>
     st_state s = state_no (sp_state x) \<and> chain_ok s \<and> chain_of s = as \<and> \<not> st_procMutex s \<and> \<not> st_autoStart s \<and>
     (if sp_connected x then connected (st_wires s) as else \<forall>a \<in> set as. st_wires s a = []) \<and>
     deletions (st_log s) = [] \<and> outputs (st_log s) = sp_out x"

lemma in_state_state: "st_state s = state_no a \<Longrightarrow> in_state s b \<longleftrightarrow> a = b"
  by (simp add: in_state_def stateEquals_def)

lemma st_state_setState [simp]: "st_state (stream_setState a s) = state_no a"
  using in_state_setState [of a s a] by (simp add: in_state_def stateEquals_def)

lemma chain_parts [simp]:
  "chain_of (stream_setState st s) = chain_of s" "chain_of (add_log es s) = chain_of s" "chain_of (unlock_proc s) = chain_of s"
  "chain_of (sync_loop q s) = chain_of s" "chain_of (wire_all g s) = chain_of s"
  "chain_of (s\<lparr>st_procMutex := b\<rparr>) = chain_of s"
  by (simp_all add: chain_of_def wire_all_def)

lemma wire_all_parts [simp]:
  "st_state (wire_all g s) = st_state s" "st_log (wire_all g s) = st_log s" "st_procMutex (wire_all g s) = st_procMutex s"
  "st_autoStart (wire_all g s) = st_autoStart s" "st_sources (wire_all g s) = st_sources s"
  "st_processors (wire_all g s) = st_processors s"
  by (simp_all add: wire_all_def)

lemma chain_ok_parts [simp]:
  "chain_ok (stream_setState st s) = chain_ok s" "chain_ok (add_log es s) = chain_ok s" "chain_ok (unlock_proc s) = chain_ok s"
  "chain_ok (sync_loop q s) = chain_ok s" "chain_ok (s\<lparr>st_procMutex := b\<rparr>) = chain_ok s"
  by (simp_all add: chain_ok_def)

lemma sync_loop_outputs [simp]: "outputs (st_log (sync_loop q s)) = outputs (st_log s)"
  by (induction q s rule: sync_loop.induct) simp_all

lemma sync_loop_deletions [simp]: "deletions (st_log (sync_loop q s)) = deletions (st_log s)"
  by (induction q s rule: sync_loop.induct) simp_all

lemma stopSources_log:
  "(\<And>a. ad_startable env a) \<Longrightarrow>
   stopSources env rs s = Inr (add_log (map (\<lambda>r. SourceStopped (ar_ptr r)) (filter ar_syncState rs)) s)"
  by (induction env rs s rule: stopSources.induct) (simp_all add: assert_r_def)

lemma sim_stop:
  assumes "\<And>a. ad_startable env a" "sim as s x"
  shows "\<exists>s'. stream_stop env s = Inr s' \<and> sim as s' (spec_op f acc as OpStop x)"
proof -
  note i = in_state_state [of s "sp_state x"]
  show ?thesis using assms
    by (auto simp: stream_stop_def i sim_def lock_proc_def stopSources_log)
qed

lemma sim_closing:
  assumes "sim as s x" "in_state s SStopped \<or> in_state s SStopping"
  shows "\<exists>s'. stream_close env s = Inr s' \<and> sim as s' (x\<lparr>sp_state := SClosed, sp_connected := False\<rparr>)"
proof -
  define s1 where "s1 = (stream_setState SClosed s)\<lparr>st_procMutex := True\<rparr>"
  have ok: "chain_ok s1" using assms(1) by (simp add: s1_def sim_def)
  have c: "chain_of s1 = as" using assms(1) by (simp add: s1_def sim_def)
  have free: "st_wires (wire_all wire_detach s1) a = []" if "a \<in> set as" for a
    using teardown_frees [OF ok, of a] that c by (simp add: stream_teardown_def)
  have "chain_ok (add_log [CloseSignal] (unlock_proc (synchronizeStates (stream_teardown s1))))"
    using ok c free by (simp add: chain_ok_def chain_or_free_def synchronizeStates_def stream_teardown_def)
  moreover have "stream_close env s = Inr (add_log [CloseSignal] (unlock_proc (synchronizeStates (stream_teardown s1))))"
    using assms by (auto simp: stream_close_def lock_proc_def s1_def sim_def in_state_state)
  ultimately show ?thesis using assms(1) c free
    by (simp add: sim_def synchronizeStates_def stream_teardown_def) (simp add: s1_def)
qed

lemma sim_close:
  assumes "\<And>a. ad_startable env a" "sim as s x"
  shows "\<exists>s'. stream_close env s = Inr s' \<and> sim as s' (spec_op f acc as OpClose x)"
proof (cases "in_state s SNone \<or> in_state s SClosed")
  case True
  then show ?thesis using assms(2) by (auto simp: stream_close_def sim_def in_state_state)
next
  case False
  then have n: "sp_state x \<noteq> SNone" "sp_state x \<noteq> SClosed" using assms(2) by (auto simp: sim_def in_state_state)
  show ?thesis
  proof (cases "in_state s SStopped \<or> in_state s SStopping")
    case True
    then show ?thesis using sim_closing [OF assms(2) True] n by simp
  next
    case go: False
    obtain s1 where s1: "stream_stop env s = Inr s1" "sim as s1 (spec_op f acc as OpStop x)"
      using sim_stop [OF assms] by blast
    have "sp_state x \<noteq> SStopped" "sp_state x \<noteq> SStopping" using go assms(2) by (auto simp: sim_def in_state_state)
    then have x1: "spec_op f acc as OpStop x = x\<lparr>sp_state := SStopped\<rparr>" using n by simp
    have st: "in_state s1 SStopped" using s1(2) unfolding x1 by (simp add: sim_def in_state_def stateEquals_def)
    have "stream_close env s = stream_close env s1"
      using False go s1(1) st in_state_unique [OF st] by (simp add: stream_close_def)
    then show ?thesis using sim_closing [OF s1(2) [unfolded x1], of env] st n by simp
  qed
qed

lemma sim_start:
  assumes env: "pure_adapters f env" and "sim as s x" and c: "\<not> in_state s SActive"
  shows "\<exists>s'. stream_start rec env (s, w) = Inr (False, s', w) \<and> sim as s' (x\<lparr>sp_state := SActive, sp_connected := True\<rparr>)"
proof -
  define s1 where "s1 = (stream_setState SActive (stream_setup s))\<lparr>st_procMutex := True\<rparr>"
  define es where "es = concat (map (\<lambda>r. if ar_syncState r then [SourceStarted (ar_ptr r)] else []) (st_sources s))"
  have ok: "chain_ok s" "chain_of s = as" using assms(2) by (simp_all add: sim_def)
  have con: "connected (st_wires s1) as" using setup_connects [OF ok(1)] ok(2) by (simp add: s1_def)
  have "each (start_source rec env) (st_sources s) (s1, w) = Inr (False, add_log es s1, w)"
    unfolding es_def by (rule each_log)
      (use env in \<open>simp_all add: start_source_def pure_adapters_def assert_r_def\<close>)
  then have "stream_start rec env (s, w) = Inr (False, unlock_proc (add_log es s1), w)"
    using c assms(2) by (simp add: stream_start_def lock_proc_def s1_def [symmetric] sim_def stream_setup_def)
      (simp add: s1_def stream_setup_def)
  moreover have "outputs es = []" by (simp add: es_def outputs_def map_concat comp_def)
  moreover have "deletions es = []" by (simp add: es_def deletions_def map_concat comp_def)
  moreover have "chain_ok s1" using ok con by (simp add: chain_ok_def s1_def stream_setup_def chain_or_free_def)
  ultimately show ?thesis using con assms(2)
    by (simp add: sim_def) (simp add: s1_def stream_setup_def)
qed

lemma sim_emit:
  assumes env: "pure_adapters f env" and "in_state s SActive"
  shows "stream_emit rec env p (s, w) = Inr (False, add_log [Output p] s, w)"
  using assms by (simp add: stream_emit_def pure_adapters_def)

lemma sim_active:
  assumes env: "pure_adapters f env" and s: "sim as s x" "in_state s SActive" and n: "length as \<le> n"
  shows "\<exists>s'. process_active (run n env) env p (s, w) = Inr (False, s', w) \<and>
    sim as s' (x\<lparr>sp_out := sp_out x @ through f (ad_accepts env) as (sp_connected x) p\<rparr>)"
proof (cases "has_flag (pkt_flags p) NoModify \<or> st_processors s = []")
  case True
  then have "as = [] \<or> has_flag (pkt_flags p) NoModify" using s(1) by (auto simp: sim_def chain_of_def)
  then have "through f (ad_accepts env) as (sp_connected x) p = [p]" by (auto simp: through_def)
  moreover have "process_active (run n env) env p (s, w) = Inr (False, add_log [Output p] s, w)"
    using True sim_emit [OF env s(2)] by (auto simp: process_active_def)
  ultimately show ?thesis using s by (simp add: sim_def outputs_def)
next
  case False
  then obtain r rs where r: "st_processors s = r # rs" by (cases "st_processors s") auto
  define a as' where "a = ar_ptr r" and "as' = map ar_ptr rs"
  have as: "as = a # as'" using s(1) r by (simp add: sim_def chain_of_def a_def as'_def)
  define s2 where "s2 = synchronizeStates (s\<lparr>st_procMutex := True\<rparr>)"
  define call where "call = (if ad_accepts env a p then run_processor (run n env) env a p (s2, w)
    else adapter_emit (run n env) env a p (s2, w))"
  define ps where "ps = through f (ad_accepts env) as (sp_connected x) p"
  have s2: "in_state s2 SActive" "st_wires s2 = st_wires s" using s(2) by (simp_all add: s2_def synchronizeStates_def)
  have "call = Inr (False, add_log (map Output ps) s2, w)"
  proof (cases "sp_connected x")
    case True
    then have "live_chain s2 (a # as')" using s s2 by (simp add: live_chain_def sim_def as s2_def synchronizeStates_def)
    then show ?thesis using emit_flow [OF env [unfolded pure_throwing], of s2 a as' n p w] n False True
        processor_flow [OF env [unfolded pure_throwing], of s2 a as' n p w]
      by (simp add: call_def ps_def through_def as flow_until_none del: flow_until.simps)
  next
    case unwired: False
    then have w: "st_wires s2 a = []" using s(1) s2(2) by (simp add: sim_def as)
    then have "adapter_emit (run n env) env a q (s2, w) = Inr (False, s2, w)" for q by (simp add: adapter_emit_def)
    then have "each (adapter_emit (run n env) env a) qs (s2, w) = Inr (False, s2, w)" for qs by (induction qs) simp_all
    then show ?thesis using env w False unwired
      by (auto simp: call_def ps_def through_def as run_processor_def pure_adapters_def adapter_emit_def)
  qed
  moreover have "process_active (run n env) env p (s, w) = bind_r call (\<lambda>(threw, s3, w3). Inr (threw, unlock_proc s3, w3))"
    using False s s2(1) r
    by (simp add: process_active_def lock_proc_def s2_def [symmetric] a_def [symmetric] call_def sim_def)
  ultimately have "process_active (run n env) env p (s, w) = Inr (False, unlock_proc (add_log (map Output ps) s2), w)"
    by simp
  then show ?thesis unfolding ps_def [symmetric] using s(1)
    by (simp add: sim_def s2_def synchronizeStates_def)
qed

text \<open>One operation of the interface, within a depth of more than the number of processors.\<close>

lemma sim_op:
  assumes env: "pure_adapters f env" and s: "sim as s x" and n: "length as < n" and "control_op y"
  shows "\<exists>s'. do_op n env y (s, w) = Inr (False, s', w) \<and> sim as s' (spec_op f (ad_accepts env) as y x)"
proof -
  obtain k where k: "n = Suc k" "length as \<le> k" using n by (cases n) auto
  have st: "\<And>a. ad_startable env a" using env by (simp add: pure_adapters_def)
  have i: "in_state s a \<longleftrightarrow> sp_state x = a" for a using s by (simp add: sim_def in_state_state)
  show ?thesis
  proof (cases y)
    case OpStart
    have "sp_state x = SActive \<Longrightarrow> stream_start (run k env) env (s, w) = Inr (False, s, w)"
      by (simp add: stream_start_def i)
    then show ?thesis using sim_start [OF env s, of "run k env" w] s k i by (cases "sp_state x = SActive") (simp_all add: OpStart)
  next
    case OpStop
    then show ?thesis using sim_stop [OF st s, of f "ad_accepts env"] by fastforce
  next
    case OpClose
    then show ?thesis using sim_close [OF st s, of f "ad_accepts env"] by fastforce
  next
    case (OpWrite p)
    show ?thesis
    proof (cases "sp_state x = SActive")
      case False
      then show ?thesis using s k i
        by (simp add: OpWrite stream_process_def process_active_def stream_emit_def process_final_def) (simp add: sim_def)
    next
      case True
      obtain s1 where s1: "process_active (run k env) env p (s, w) = Inr (False, s1, w)"
        "sim as s1 (x\<lparr>sp_out := sp_out x @ through f (ad_accepts env) as (sp_connected x) p\<rparr>)"
        using sim_active [OF env s _ k(2)] True i by blast
      have i1: "in_state s1 SActive" using s1(2) True by (simp add: sim_def in_state_def stateEquals_def)
      obtain s2 where s2: "stream_stop env s1 = Inr s2"
        "sim as s2 (x\<lparr>sp_out := sp_out x @ through f (ad_accepts env) as (sp_connected x) p, sp_state := SStopped\<rparr>)"
        using sim_stop [OF st s1(2), of f "ad_accepts env"] True by auto
      have "\<not> st_autoStart s" using s by (simp add: sim_def)
      then have "do_op n env y (s, w) = (if has_flag (pkt_flags p) Final then Inr (False, s2, w) else Inr (False, s1, w))"
        using s1(1) s2(1) i1 by (simp add: OpWrite k stream_process_def process_final_def)
      then show ?thesis using s1(2) s2(2) True by (cases x) (simp add: OpWrite)
    qed
  qed (use s i assms(4) in \<open>auto simp: stream_pause_def stream_resume_def stream_lock_def\<close>, auto simp: sim_def)
qed

text \<open>A stream before it is started: processors and sources attached, nothing connected.\<close>

definition fresh_stream :: "packet_stream \<Rightarrow> bool" where
  "fresh_stream s \<longleftrightarrow> st_state s = state_no SNone \<and> distinct (chain_of s) \<and>
     set (chain_of s) \<inter> ar_ptr ` set (st_sources s) = {} \<and> (\<forall>a \<in> set (chain_of s). st_wires s a = []) \<and>
     \<not> st_procMutex s \<and> \<not> st_autoStart s \<and> st_log s = []"

text \<open>
  C11 (refinement). A stream is its chain of processors. A stream that was not started yet, without
  \<^verbatim>\<open>autoStart\<close>, has any number of distinct processors that only transform packets: none throws, its
  sources emit nothing when they are started, and its receivers are passive. Then every sequence of
  starts, stops, pauses, resumes, closes and packets written returns, the stream is in the state of
  the abstract stream, and its output is what the chain made of the packets written while it was
  active, except that the chain passes nothing on before the first start (after a pause and a
  resume) and after a close until the next start. Stopping and starting again changes nothing in
  the chain.
\<close>
theorem stream_refines_chain:
  assumes "pure_adapters f env" "fresh_stream s" "list_all control_op ys" "length (st_processors s) < n"
  shows "\<exists>s' x. do_ops n env ys (s, w) = Inr (s', w) \<and>
    x = fold (spec_op f (ad_accepts env) (chain_of s)) ys \<lparr>sp_state = SNone, sp_connected = False, sp_out = []\<rparr> \<and>
    in_state s' (sp_state x) \<and> outputs (st_log s') = sp_out x"
proof -
  define as where "as = chain_of s"
  have "\<exists>s'. do_ops n env ys (s, w) = Inr (s', w) \<and> sim as s' (fold (spec_op f (ad_accepts env) as) ys x)"
    if "list_all control_op ys" "sim as s x" for s x ys
    using that
  proof (induction ys arbitrary: s x)
    case (Cons y ys)
    obtain s1 where s1: "do_op n env y (s, w) = Inr (False, s1, w)" "sim as s1 (spec_op f (ad_accepts env) as y x)"
      using sim_op [OF assms(1) Cons.prems(2), of n y w] Cons.prems(1) assms(4) unfolding as_def chain_of_def by auto
    then show ?case using Cons.IH [OF _ s1(2)] Cons.prems(1) by simp
  qed simp
  moreover have "sim as s \<lparr>sp_state = SNone, sp_connected = False, sp_out = []\<rparr>"
    using assms(2) by (simp add: sim_def fresh_stream_def as_def chain_ok_def chain_or_free_def)
  ultimately show ?thesis using assms(3) unfolding as_def sim_def in_state_def stateEquals_def by blast
qed

subsection \<open>A sample chain\<close>

text \<open>Every processor adds its number to the packet.\<close>

definition tagging :: "nat \<Rightarrow> stream_packet \<Rightarrow> stream_packet list" where
  "tagging a p = [p\<lparr>pkt_data := pkt_data p @ [of_nat a]\<rparr>]"

definition tagging_env :: "unit adapters" where
  "tagging_env = \<lparr>ad_accepts = (\<lambda>_ _. True), ad_process = (\<lambda>a p w. (tagging a p, False, w)), ad_startable = (\<lambda>_. True),
     ad_started = (\<lambda>_ w. ([], w)), ad_receive = (\<lambda>_ w. ([], False, w))\<rparr>"

definition sample_packet :: stream_packet where
  "sample_packet = \<lparr>pkt_data = [7], pkt_flags = 0\<rparr>"

definition ref :: "nat \<Rightarrow> adapter_ref" where
  "ref a = \<lparr>ar_ptr = a, ar_owned = True, ar_order = int a, ar_syncState = False\<rparr>"

definition sample_stream :: packet_stream where
  "sample_stream = new_stream\<lparr>st_processors := [ref 1, ref 2]\<rparr>"

lemma sample_pure: "pure_adapters tagging tagging_env"
  by (simp add: pure_adapters_def tagging_env_def)

lemma sample_attached:
  "do_ops 1 tagging_env [OpAttach 2 2 True, OpAttach 1 1 True] (new_stream, ()) = Inr (sample_stream, ())"
  by (simp add: attach_processor_def assertCanModify_def new_stream_def in_state_def stateEquals_def sort_refs_def
      sample_stream_def ref_def assert_r_def)

definition busy_ops :: "stream_op list" where
  "busy_ops = [OpAttach 1 1 True, OpAttach 2 2 True, OpAttachSource 3 False True, OpStart, OpWrite sample_packet, OpStop, OpDetach 2]"

lemma busy_ops_run:
  "(case do_ops 3 tagging_env busy_ops (new_stream, ()) of Inr (s, w) \<Rightarrow> (chain_of s, deletions (st_log s)) | Inl e \<Rightarrow> ([], [])) = ([1], [2])"
  by code_simp

theorem stream_invariant_witness:
  "\<exists>s s'. do_ops 3 tagging_env busy_ops (new_stream, ()) = Inr (s, ()) \<and> stream_ok s \<and> deletions (st_log s) = [2] \<and>
    destroy_stream tagging_env s = Inr s' \<and> mset (deletions (st_log s')) = mset [1, 2]"
proof -
  obtain s where s: "do_ops 3 tagging_env busy_ops (new_stream, ()) = Inr (s, ())" "deletions (st_log s) = [2]"
    using busy_ops_run by (auto split: sum.splits)
  then show ?thesis using stream_invariant [OF s(1)] by (auto simp: busy_ops_def tagging_env_def)
qed

theorem stream_refines_chain_witness:
  "\<exists>s' x. do_ops 3 tagging_env [OpStart, OpWrite sample_packet, OpStop, OpWrite sample_packet, OpStart, OpWrite sample_packet]
      (sample_stream, ()) = Inr (s', ()) \<and>
    x = fold (spec_op tagging (ad_accepts tagging_env) (chain_of sample_stream))
      [OpStart, OpWrite sample_packet, OpStop, OpWrite sample_packet, OpStart, OpWrite sample_packet]
      \<lparr>sp_state = SNone, sp_connected = False, sp_out = []\<rparr> \<and>
    in_state s' (sp_state x) \<and> outputs (st_log s') = sp_out x"
  by (rule stream_refines_chain [OF sample_pure])
    (simp_all add: fresh_stream_def sample_stream_def new_stream_def chain_of_def ref_def)

subsection \<open>Exceptions\<close>

text \<open>The states that the adapters are told of.\<close>

definition state_events :: "adapter_ref list \<Rightarrow> state_id list \<Rightarrow> stream_event list" where
  "state_events rs sts = concat (map (\<lambda>i. map (\<lambda>r. StateChange (ar_ptr r) i) rs) sts)"

lemma state_events_append: "state_events rs (is @ js) = state_events rs is @ state_events rs js"
  by (simp add: state_events_def)

lemma state_events_deletions [simp]: "deletions (state_events rs is) = []"
  by (simp add: state_events_def deletions_def comp_def map_concat)

lemma stream_adapters_parts [simp]:
  "stream_adapters (add_log es s) = stream_adapters s" "stream_adapters (stream_setState st s) = stream_adapters s"
  "stream_adapters (unlock_proc s) = stream_adapters s" "stream_adapters (s\<lparr>st_procMutex := b\<rparr>) = stream_adapters s"
  "stream_adapters (s\<lparr>st_states := q\<rparr>) = stream_adapters s" "stream_adapters (s\<lparr>st_error := b\<rparr>) = stream_adapters s"
  "stream_adapters (wire_all g s) = stream_adapters s" "stream_adapters (sync_loop q s) = stream_adapters s"
  by (simp_all add: stream_adapters_def)

lemma sync_loop_log: "st_log (sync_loop q s) = st_log s @ state_events (stream_adapters s) q"
  by (induction q s rule: sync_loop.induct) (simp_all add: state_events_def)

lemma sync_loop_states: "st_states s = q \<Longrightarrow> st_states (sync_loop q s) = []"
  by (induction q s rule: sync_loop.induct) simp_all

lemma sync_loop_error [simp]: "st_error (sync_loop q s) = st_error s"
  by (induction q s rule: sync_loop.induct) (simp_all add: add_log_def)

lemma setState_states: "st_states (stream_setState st s) = (if in_state s st then st_states s else st_states s @ [state_no st])"
  using setState_cases [of st s]
  by (auto simp: stream_setState_def setState_def beforeStateChange_def stream_onStateChange_def in_state_def stateEquals_def Let_def)

lemma exception_closes:
  assumes "\<And>a. ad_startable env a" "chain_ok s" "\<not> st_procMutex s" "st_closeOnError s" "in_state s SActive"
  shows "\<exists>s'. handleException env s = Inr s' \<and> in_state s' SClosed \<and> st_error s' \<and>
    (\<forall>a \<in> set (chain_of s). st_wires s' a = []) \<and>
    st_log s' = st_log s @ ErrorSignal # map (\<lambda>r. SourceStopped (ar_ptr r)) (filter ar_syncState (st_sources s)) @
      state_events (stream_adapters s) (st_states s @ map state_no [SError, SStopping, SStopped, SClosed]) @ [CloseSignal]"
proof -
  define s1 where "s1 = add_log [ErrorSignal] ((stream_setState SError s)\<lparr>st_error := True\<rparr>)"
  define s2 where "s2 = unlock_proc (add_log (map (\<lambda>r. SourceStopped (ar_ptr r)) (filter ar_syncState (st_sources s)))
    ((stream_setState SStopped (stream_setState SStopping s1))\<lparr>st_procMutex := True\<rparr>))"
  define s3 where "s3 = (stream_setState SClosed s2)\<lparr>st_procMutex := True\<rparr>"
  define s4 where "s4 = add_log [CloseSignal] (unlock_proc (synchronizeStates (stream_teardown s3)))"
  have i: "in_state s1 x \<longleftrightarrow> SError = x" "in_state s2 x \<longleftrightarrow> SStopped = x" for x
    by (simp_all add: s1_def s2_def)
  have "stream_stop env s1 = Inr s2"
    using assms i by (simp add: stream_stop_def lock_proc_def stopSources_log s2_def) (simp add: s1_def)
  then have "handleException env s = Inr s4"
    using assms i by (simp add: handleException_def s1_def [symmetric] stream_close_def lock_proc_def s4_def s3_def)
      (simp add: s1_def s2_def)
  moreover have "chain_ok s3" "chain_of s3 = chain_of s"
    using assms(2) by (simp_all add: s3_def s2_def s1_def chain_ok_def chain_of_def)
  moreover from this have "\<forall>a \<in> set (chain_of s). st_wires s4 a = []"
    using teardown_frees [of s3] by (simp add: s4_def synchronizeStates_def)
  moreover have "st_log s3 = st_log s @ ErrorSignal # map (\<lambda>r. SourceStopped (ar_ptr r)) (filter ar_syncState (st_sources s))"
    by (simp add: s3_def s2_def s1_def)
  moreover have "\<not> in_state s SError" using in_state_unique [OF assms(5)] by simp
  then have "st_states s1 = st_states s @ [state_no SError]" by (simp add: s1_def setState_states)
  then have "st_states s2 = st_states s @ map state_no [SError, SStopping, SStopped]"
    by (simp add: s2_def setState_states i)
  then have "st_states s3 = st_states s @ map state_no [SError, SStopping, SStopped, SClosed]"
    by (simp add: s3_def setState_states i)
  moreover have "stream_adapters s3 = stream_adapters s" by (simp add: s3_def s2_def s1_def)
  moreover have "in_state s4 SClosed" "st_error s4"
    by (simp_all add: s4_def synchronizeStates_def stream_teardown_def in_state_def stateEquals_def s3_def)
      (simp add: s2_def s1_def unlock_proc_def add_log_def wire_all_def)
  moreover have "st_states (stream_teardown s3) = st_states s3" by (simp add: stream_teardown_def wire_all_def)
  ultimately show ?thesis
    by (intro exI [of _ s4]) (simp add: s4_def synchronizeStates_def sync_loop_log stream_teardown_def)
qed

text \<open>An active stream about to hand a packet to its first processor.\<close>

definition serving :: "packet_stream \<Rightarrow> adapter_ref \<Rightarrow> stream_packet \<Rightarrow> bool" where
  "serving s r p \<longleftrightarrow> in_state s SActive \<and> chain_ok s \<and> \<not> st_procMutex s \<and> st_closeOnError s \<and>
     \<not> has_flag (pkt_flags p) NoModify \<and> st_processors s \<noteq> [] \<and> hd (st_processors s) = r"

lemma serving_process:
  assumes "serving s r p" "ad_accepts env (ar_ptr r) p"
  shows "process_active rec env p (s, w) =
    bind_r (run_processor rec env (ar_ptr r) p (synchronizeStates (s\<lparr>st_procMutex := True\<rparr>), w))
      (\<lambda>(threw, s3, w3). Inr (threw, unlock_proc s3, w3))"
  using assms by (auto simp: serving_def process_active_def lock_proc_def synchronizeStates_def Let_def)

text \<open>
  C39 (error). An exception thrown by any processor of an active stream that closes on errors, whatever the
  processors have put out before (the receivers being passive), closes the stream in this order:
  the waiting states are delivered, the packets made before the exception come out and none after
  it, the error is signalled, every source synchronised with the stream is stopped, the adapters are
  told the states Error, Stopping, Stopped and Closed, and the closing is signalled. The stream is
  then closed, keeps the error, and its chain is disconnected.
\<close>
theorem processor_exception_closes:
  assumes "throwing_adapters f t env" "serving s r p" "live_chain s (chain_of s)" "ad_accepts env (ar_ptr r) p"
    and "length (st_processors s) \<le> n" "flow_until f t (chain_of s) p = (out, True)"
  shows "\<exists>s'. run (Suc n) env (Process p) (s, w) = Inr (False, s', w) \<and> in_state s' SClosed \<and> st_error s' \<and>
    (\<forall>a \<in> set (chain_of s). st_wires s' a = []) \<and>
    st_log s' = st_log s @ state_events (stream_adapters s) (st_states s) @ map Output out @
      ErrorSignal # map (\<lambda>r. SourceStopped (ar_ptr r)) (filter ar_syncState (st_sources s)) @
      state_events (stream_adapters s) (map state_no [SError, SStopping, SStopped, SClosed]) @ [CloseSignal]"
proof -
  define s1 where "s1 = synchronizeStates (s\<lparr>st_procMutex := True\<rparr>)"
  define s2 where "s2 = unlock_proc (add_log (map Output out) s1)"
  obtain rs where rs: "st_processors s = r # rs" using assms(2) by (cases "st_processors s") (auto simp: serving_def)
  then have c: "chain_of s = ar_ptr r # map ar_ptr rs" by (simp add: chain_of_def)
  have 1: "in_state s1 SActive" "st_wires s1 = st_wires s" "deletions (st_log s1) = deletions (st_log s)"
    "st_log s1 = st_log s @ state_events (stream_adapters s) (st_states s)" "st_states s1 = []"
    "st_sources s1 = st_sources s" "stream_adapters s1 = stream_adapters s" "chain_ok s1" "chain_of s1 = chain_of s"
    "st_closeOnError s1"
    using assms(2) by (simp_all add: s1_def synchronizeStates_def sync_loop_log sync_loop_states serving_def)
  have "live_chain s1 (ar_ptr r # map ar_ptr rs)" using assms(3) 1 by (simp add: live_chain_def c)
  then have "run_processor (run n env) env (ar_ptr r) p (s1, w) = Inr (True, add_log (map Output out) s1, w)"
    using processor_flow [OF assms(1), of s1 "ar_ptr r" "map ar_ptr rs" n p w] assms(5,6) by (simp add: rs c del: flow_until.simps)
  then have a: "process_active (run n env) env p (s, w) = Inr (True, s2, w)"
    by (simp add: serving_process [OF assms(2,4)] s1_def s2_def)
  have 2: "in_state s2 SActive" "st_states s2 = []" "st_sources s2 = st_sources s" "stream_adapters s2 = stream_adapters s"
    "chain_ok s2" "chain_of s2 = chain_of s" "st_closeOnError s2" "\<not> st_procMutex s2"
    "st_log s2 = st_log s @ state_events (stream_adapters s) (st_states s) @ map Output out"
    using 1 by (simp_all add: s2_def)
  have "\<not> in_state s SNone" using assms(2) in_state_unique [of s SActive SNone] by (auto simp: serving_def)
  then have "run (Suc n) env (Process p) (s, w) = bind_r (handleException env s2) (\<lambda>s. Inr (False, s, w))"
    using a by (simp add: stream_process_def)
  moreover have "\<And>a. ad_startable env a" using assms(1) by (simp add: throwing_adapters_def)
  ultimately show ?thesis using exception_closes [OF _ 2(5,8,7,1), of env] 2 by auto
qed

text \<open>
  C40 (error). An exception thrown by a receiver is caught in \<^verbatim>\<open>emit\<close>, below the processors and with
  \<^verbatim>\<open>_procMutex\<close> held; the handler closes the stream, and \<^verbatim>\<open>stop\<close> locks the mutex a second time
  in the same thread, which is undefined for a \<^verbatim>\<open>std::mutex\<close> (a deadlock in practice).
\<close>
theorem receiver_exception_relocks:
  assumes "serving s r p" "ad_accepts env (ar_ptr r) p" "ad_process env (ar_ptr r) p w = (q # qs, False, w1)"
    and "ad_receive env q w1 = ([], True, w2)" "st_wires s (ar_ptr r) = [ToEmit]"
  shows "run (Suc n) env (Process p) (s, w) = Inl Undefined"
proof -
  define s1 where "s1 = synchronizeStates (s\<lparr>st_procMutex := True\<rparr>)"
  have 1: "in_state s1 SActive" "st_wires s1 = st_wires s" "st_procMutex s1" "st_closeOnError s1"
    using assms(1) by (simp_all add: s1_def synchronizeStates_def serving_def)
  define s2 where "s2 = add_log [ErrorSignal] ((stream_setState SError (add_log [Output q] s1))\<lparr>st_error := True\<rparr>)"
  have 2: "in_state s2 x \<longleftrightarrow> SError = x" "st_procMutex s2" "st_closeOnError s2" for x
    using 1 by (simp_all add: s2_def)
  have "stream_close env s2 = Inl Undefined"
    using 2 by (simp add: stream_close_def stream_stop_def lock_proc_def)
  then have "handleException env (add_log [Output q] s1) = Inl Undefined"
    using 2 by (simp add: handleException_def s2_def [symmetric])
  then have "stream_emit (run n env) env q (s1, w1) = Inl Undefined"
    using 1 assms(4) by (simp add: stream_emit_def)
  then have "run_processor (run n env) env (ar_ptr r) p (s1, w) = Inl Undefined"
    using 1 assms(3,5) by (simp add: run_processor_def adapter_emit_def call_slot_def)
  then have "process_active (run n env) env p (s, w) = Inl Undefined"
    by (simp add: serving_process [OF assms(1,2)] s1_def)
  moreover have "\<not> in_state s SNone" using assms(1) in_state_unique [of s SActive SNone] by (auto simp: serving_def)
  ultimately show ?thesis by (simp add: stream_process_def)
qed

text \<open>A sample: the first of two processors throws, or the receiver does.\<close>

definition throwing_env :: "unit adapters" where
  "throwing_env = tagging_env\<lparr>ad_process := (\<lambda>a p w. ([], True, w))\<rparr>"

definition refusing_env :: "unit adapters" where
  "refusing_env = tagging_env\<lparr>ad_receive := (\<lambda>p w. ([], True, w))\<rparr>"

definition serving_stream :: packet_stream where
  "serving_stream = new_stream\<lparr>st_state := 2, st_processors := [ref 1], st_wires := (\<lambda>a. if a = 1 then [ToEmit] else [])\<rparr>"

lemma serving_sample: "serving serving_stream (ref 1) sample_packet"
  by (simp add: serving_def serving_stream_def new_stream_def in_state_def stateEquals_def chain_ok_def chain_or_free_def
      chain_of_def ref_def has_flag_def sample_packet_def NoModify_def)

text \<open>The first processor emits two packets, the second one throws after the second of them.\<close>

definition faulty :: "nat \<Rightarrow> stream_packet \<Rightarrow> stream_packet list" where
  "faulty a p = (if a = 1 then tagging 1 p @ tagging 9 p else tagging a p)"

definition fails :: "nat \<Rightarrow> stream_packet \<Rightarrow> bool" where
  "fails a p \<longleftrightarrow> a = 2 \<and> 9 \<in> set (pkt_data p)"

definition faulty_env :: "unit adapters" where
  "faulty_env = tagging_env\<lparr>ad_process := (\<lambda>a p w. (faulty a p, fails a p, w))\<rparr>"

definition serving_two :: packet_stream where
  "serving_two = new_stream\<lparr>st_state := 2, st_processors := [ref 1, ref 2],
     st_sources := [\<lparr>ar_ptr = 3, ar_owned = False, ar_order = 0, ar_syncState = True\<rparr>], st_states := [2],
     st_wires := (\<lambda>a. if a = 1 then [ToProcessor 2] else if a = 2 then [ToEmit] else [])\<rparr>"

theorem processor_exception_closes_witness:
  "\<exists>s'. run 3 faulty_env (Process sample_packet) (serving_two, ()) = Inr (False, s', ()) \<and> in_state s' SClosed \<and>
    st_log s' = [StateChange 3 2, StateChange 1 2, StateChange 2 2, Output \<lparr>pkt_data = [7, 1, 2], pkt_flags = 0\<rparr>,
      Output \<lparr>pkt_data = [7, 9, 2], pkt_flags = 0\<rparr>, ErrorSignal, SourceStopped 3,
      StateChange 3 7, StateChange 1 7, StateChange 2 7, StateChange 3 4, StateChange 1 4, StateChange 2 4,
      StateChange 3 5, StateChange 1 5, StateChange 2 5, StateChange 3 6, StateChange 1 6, StateChange 2 6, CloseSignal]"
proof -
  have "serving serving_two (ref 1) sample_packet" "live_chain serving_two (chain_of serving_two)"
    by (simp_all add: serving_def live_chain_def serving_two_def new_stream_def in_state_def stateEquals_def chain_ok_def
        chain_or_free_def chain_of_def ref_def has_flag_def sample_packet_def NoModify_def)
  moreover have "throwing_adapters faulty fails faulty_env"
    by (simp add: throwing_adapters_def faulty_env_def tagging_env_def)
  moreover have "flow_until faulty fails (chain_of serving_two) sample_packet =
      ([\<lparr>pkt_data = [7, 1, 2], pkt_flags = 0\<rparr>, \<lparr>pkt_data = [7, 9, 2], pkt_flags = 0\<rparr>], True)"
    by code_simp
  moreover have "length (st_processors serving_two) \<le> 2" by (simp add: serving_two_def)
  moreover have "ad_accepts faulty_env (ar_ptr (ref 1)) sample_packet" by (simp add: faulty_env_def tagging_env_def)
  ultimately obtain s' where "run (Suc 2) faulty_env (Process sample_packet) (serving_two, ()) = Inr (False, s', ())"
    "in_state s' SClosed" "st_log s' = st_log serving_two @ state_events (stream_adapters serving_two) (st_states serving_two) @
      map Output [\<lparr>pkt_data = [7, 1, 2], pkt_flags = 0\<rparr>, \<lparr>pkt_data = [7, 9, 2], pkt_flags = 0\<rparr>] @
      ErrorSignal # map (\<lambda>r. SourceStopped (ar_ptr r)) (filter ar_syncState (st_sources serving_two)) @
      state_events (stream_adapters serving_two) (map state_no [SError, SStopping, SStopped, SClosed]) @ [CloseSignal]"
    using processor_exception_closes [of faulty fails faulty_env serving_two "ref 1" sample_packet 2] by blast
  then show ?thesis
    by (simp add: numeral_3_eq_3 serving_two_def new_stream_def state_events_def stream_adapters_def ref_def)
qed

theorem receiver_exception_relocks_witness:
  "run 1 refusing_env (Process sample_packet) (serving_stream, ()) = Inl Undefined"
  using receiver_exception_relocks [OF serving_sample, of refusing_env "()" "hd (tagging 1 sample_packet)" "[]" "()" "()" 0]
  by (simp add: refusing_env_def tagging_env_def tagging_def ref_def serving_stream_def)

subsection \<open>Where the stream fails\<close>

definition output_of :: "'w config result \<Rightarrow> stream_packet list" where
  "output_of r = (case r of Inr (s, w) \<Rightarrow> outputs (st_log s) | Inl e \<Rightarrow> [])"

text \<open>
  A processor attached after the first start: \<^verbatim>\<open>start\<close> connects the last processor to the new one
  but does not take back its connection to the stream, so every packet comes out twice, once
  without the new processor.
\<close>

lemma late_processor_doubles:
  "output_of (do_ops 4 tagging_env
     [OpAttach 1 1 True, OpStart, OpStop, OpAttach 2 2 True, OpStart, OpWrite sample_packet] (new_stream, ())) =
   [\<lparr>pkt_data = [7, 1], pkt_flags = 0\<rparr>, \<lparr>pkt_data = [7, 1, 2], pkt_flags = 0\<rparr>]"
  by code_simp

text \<open>A detached processor keeps its place in the chain; one that the stream owns is deleted and still called.\<close>

lemma detached_processor_works:
  "output_of (do_ops 4 tagging_env
     [OpAttach 1 1 True, OpAttach 2 2 False, OpStart, OpStop, OpDetach 2, OpStart, OpWrite sample_packet] (new_stream, ())) =
   [\<lparr>pkt_data = [7, 1, 2], pkt_flags = 0\<rparr>, \<lparr>pkt_data = [7, 1], pkt_flags = 0\<rparr>]"
  by code_simp

definition error_of :: "'a result \<Rightarrow> err option" where
  "error_of r = (case r of Inl e \<Rightarrow> Some e | Inr _ \<Rightarrow> None)"

lemma detached_processor_dangles:
  "error_of (do_ops 4 tagging_env
     [OpAttach 1 1 True, OpAttach 2 2 True, OpStart, OpStop, OpDetach 2, OpStart, OpWrite sample_packet] (new_stream, ())) =
   Some Undefined"
  by code_simp

text \<open>An owned adapter that was attached twice is deleted twice.\<close>

lemma attached_twice_deleted_twice:
  "error_of (bind_r (do_ops 4 tagging_env [OpAttach 1 1 True, OpAttach 1 2 True] (new_stream, ()))
     (\<lambda>(s, w). destroy_stream tagging_env s)) = Some Undefined"
  by code_simp

text \<open>Pausing and resuming a stream that was never started makes it active without connecting it.\<close>

lemma resumed_unconnected:
  "output_of (do_ops 4 tagging_env [OpAttach 1 1 True, OpPause, OpResume, OpWrite sample_packet] (new_stream, ())) = []"
  by code_simp

text \<open>Only the first processor is asked whether it accepts a packet.\<close>

lemma only_first_asked:
  "output_of (do_ops 4 (tagging_env\<lparr>ad_accepts := (\<lambda>a p. a = 1)\<rparr>)
     [OpAttach 1 1 True, OpAttach 2 2 True, OpStart, OpWrite sample_packet] (new_stream, ())) =
   [\<lparr>pkt_data = [7, 1, 2], pkt_flags = 0\<rparr>]"
  by code_simp

text \<open>The states of a stream without processors reach its sources only when it is closed.\<close>

lemma states_wait_for_close:
  "(case do_ops 4 tagging_env [OpAttachSource 5 True False, OpStart, OpWrite sample_packet, OpStop] (new_stream, ()) of
      Inr (s, w) \<Rightarrow> (st_states s, filter (\<lambda>e. case e of StateChange a i \<Rightarrow> True | _ \<Rightarrow> False) (st_log s)) | Inl e \<Rightarrow> ([], [])) =
   ([2, 4, 5], [])"
  by code_simp

end
