(* ===== verification/Packet_Queue.thy ===== *)
theory Packet_Queue
  imports Stream_Flow "HOL-Library.Multiset" "HOL-Library.Sublist"
begin

text \<open>
  The queues of \<^verbatim>\<open>src/base/include/scy/queue.h\<close> and \<^verbatim>\<open>packetqueue.h\<close>. Items are the numbers of
  heap objects; deleting one twice is \<open>Undefined\<close>. What the consumer (\<^verbatim>\<open>ondispatch\<close>, the emitter
  of a packet queue) does with an item is the parameter \<open>consumer\<close>: the items it pushes onto the
  queue meanwhile. The virtual method \<^verbatim>\<open>dispatch\<close> is an argument of the operations that call it.
  Three fields record what happened: the items pushed, dispatched and deleted, oldest first. The
  operations of the queues themselves are taken one at a time. The closing of an \<^verbatim>\<open>AsyncPacketQueue\<close>
  is modelled step by step, interleaved with the steps of the queue's own thread.
\<close>

subsection \<open>RunnableQueue\<close>

record runnable_queue =
  rq_items :: "nat list"
  rq_limit :: int
  rq_timeout :: int
  rq_exit :: bool
  rq_pushed :: "nat list"
  rq_dispatched :: "nat list"
  rq_deleted :: "nat list"

definition new_queue :: "int \<Rightarrow> int \<Rightarrow> runnable_queue" where
  "new_queue limit timeout = \<lparr>rq_items = [], rq_limit = limit, rq_timeout = timeout, rq_exit = False,
     rq_pushed = [], rq_dispatched = [], rq_deleted = []\<rparr>"

definition delete_item :: "nat \<Rightarrow> runnable_queue \<Rightarrow> runnable_queue result" where
  "delete_item p q = (if p \<in> set (rq_deleted q) then Inl Undefined else Inr (q\<lparr>rq_deleted := rq_deleted q @ [p]\<rparr>))"

definition pop_item :: "runnable_queue \<Rightarrow> runnable_queue" where
  "pop_item q = q\<lparr>rq_items := tl (rq_items q)\<rparr>"

text \<open>The loop of \<^verbatim>\<open>push\<close>: the oldest items make room.\<close>

function purge :: "runnable_queue \<Rightarrow> runnable_queue result" where
  "purge q =
     (if 0 < rq_limit q \<and> rq_limit q \<le> int (length (rq_items q))
      then bind_r (delete_item (hd (rq_items q)) q) (\<lambda>q1. purge (pop_item q1))
      else Inr q)"
  by pat_completeness auto
termination
  by (relation "measure (\<lambda>q. length (rq_items q))") (auto simp: pop_item_def delete_item_def split: if_splits)

declare purge.simps [simp del]

definition rq_push :: "nat \<Rightarrow> runnable_queue \<Rightarrow> runnable_queue result" where
  "rq_push item q = bind_r (purge q) (\<lambda>q1. Inr (q1\<lparr>rq_items := rq_items q1 @ [item], rq_pushed := rq_pushed q1 @ [item]\<rparr>))"

text \<open>\<^verbatim>\<open>dispatch\<close>, with the items its consumer pushes.\<close>

type_synonym consumer = "nat \<Rightarrow> nat list"
type_synonym dispatcher = "nat \<Rightarrow> runnable_queue \<Rightarrow> runnable_queue result"

fun push_all :: "nat list \<Rightarrow> runnable_queue \<Rightarrow> runnable_queue result" where
  "push_all [] q = Inr q"
| "push_all (x # xs) q = bind_r (rq_push x q) (push_all xs)"

definition rq_dispatch :: "consumer \<Rightarrow> dispatcher" where
  "rq_dispatch con item q = push_all (con item) (q\<lparr>rq_dispatched := rq_dispatched q @ [item]\<rparr>)"

text \<open>\<^verbatim>\<open>flush\<close> dispatches the front item before it takes it off the queue.\<close>

fun rq_flush :: "nat \<Rightarrow> dispatcher \<Rightarrow> runnable_queue \<Rightarrow> runnable_queue result" where
  "rq_flush n disp q =
     (if rq_items q = [] then Inr q
      else (case n of
              0 \<Rightarrow> Inl Diverges
            | Suc k \<Rightarrow>
                (let next_item = hd (rq_items q)
                 in bind_r (disp next_item q) (\<lambda>q1.
                    bind_r (delete_item next_item (pop_item q1)) (rq_flush k disp)))))"

declare rq_flush.simps [simp del]

function rq_clear :: "runnable_queue \<Rightarrow> runnable_queue result" where
  "rq_clear q =
     (if rq_items q \<noteq> [] then bind_r (delete_item (hd (rq_items q)) q) (\<lambda>q1. rq_clear (pop_item q1)) else Inr q)"
  by pat_completeness auto
termination
  by (relation "measure (\<lambda>q. length (rq_items q))") (auto simp: pop_item_def delete_item_def split: if_splits)

declare rq_clear.simps [simp del]

definition popNext :: "runnable_queue \<Rightarrow> nat option \<times> runnable_queue" where
  "popNext q = (if rq_items q = [] then (None, q) else (Some (hd (rq_items q)), pop_item q))"

definition dispatchNext :: "dispatcher \<Rightarrow> runnable_queue \<Rightarrow> (bool \<times> runnable_queue) result" where
  "dispatchNext disp q =
     (case popNext q of
        (None, q1) \<Rightarrow> Inr (False, q1)
      | (Some item, q1) \<Rightarrow>
          bind_r (disp item q1) (\<lambda>q2.
          bind_r (delete_item item q2) (\<lambda>q3. Inr (True, q3))))"

text \<open>\<^verbatim>\<open>runTimeout\<close>: the list holds what the stopwatch shows at every test of the loop.\<close>

fun runTimeout :: "dispatcher \<Rightarrow> int list \<Rightarrow> runnable_queue \<Rightarrow> runnable_queue result" where
  "runTimeout disp [] q = Inl Diverges"
| "runTimeout disp (t # ts) q =
     (if \<not> rq_exit q \<and> t < rq_timeout q
      then bind_r (dispatchNext disp q) (\<lambda>(more, q1). if more then runTimeout disp ts q1 else Inr q1)
      else Inr q)"

definition rq_cancel :: "runnable_queue \<Rightarrow> runnable_queue" where
  "rq_cancel q = q\<lparr>rq_exit := True\<rparr>"

definition rq_setTimeout :: "int \<Rightarrow> runnable_queue \<Rightarrow> runnable_queue result" where
  "rq_setTimeout ms q = assert_r (rq_items q = []) (Inr (q\<lparr>rq_timeout := ms\<rparr>))"

subsection \<open>The packet queues\<close>

text \<open>\<^verbatim>\<open>SyncPacketQueue\<close>: \<^verbatim>\<open>process\<close> pushes a copy of the packet, the object \<open>copy\<close>.\<close>

definition spq_process :: "nat \<Rightarrow> runnable_queue \<Rightarrow> runnable_queue result" where
  "spq_process copy q = assert_r (\<not> rq_exit q) (rq_push copy q)"

definition spq_dispatch :: "consumer \<Rightarrow> dispatcher" where
  "spq_dispatch con item q = assert_r (\<not> rq_exit q) (rq_dispatch con item q)"

definition spq_onStreamStateChange :: "state_id \<Rightarrow> runnable_queue \<Rightarrow> runnable_queue" where
  "spq_onStreamStateChange st q = (if st = state_no SClosed \<or> st = state_no SError then rq_cancel q else q)"

text \<open>\<^verbatim>\<open>AsyncPacketQueue\<close>\<close>

definition apq_process :: "nat \<Rightarrow> runnable_queue \<Rightarrow> runnable_queue result" where
  "apq_process copy q = assert_r (\<not> rq_exit q) (rq_push copy q)"

definition apq_dispatch :: "consumer \<Rightarrow> dispatcher" where
  "apq_dispatch con item q = assert_r (\<not> rq_exit q) (rq_dispatch con item q)"

text \<open>
  The thread of the queue runs \<^verbatim>\<open>run\<close>: it tests \<^verbatim>\<open>cancelled\<close>, takes the next item under the lock,
  dispatches it, deletes it, and begins again. Taking an item is one step here; its three calls on
  the list only add to the interleavings when items are waiting. The thread that calls \<^verbatim>\<open>close\<close> runs \<^verbatim>\<open>flush\<close>, which
  locks the queue only within \<^verbatim>\<open>front\<close> and \<^verbatim>\<open>pop\<close>, then cancels and joins.
\<close>

datatype worker = WTest | WPop | WDispatch nat | WDelete nat | WEnded
datatype closer = CTest | CFront | CDispatch nat | CPop nat | CDelete nat | CCancel | CJoin | CClosed

record async_queue =
  aq_queue :: runnable_queue
  aq_worker :: worker
  aq_closer :: closer
  aq_joinable :: bool

definition new_async :: "runnable_queue \<Rightarrow> async_queue" where
  "new_async q = \<lparr>aq_queue = q, aq_worker = WTest, aq_closer = CClosed, aq_joinable = True\<rparr>"

definition dispatch_live :: "consumer \<Rightarrow> dispatcher" where
  "dispatch_live con x q = (if x \<in> set (rq_deleted q) then Inl Undefined else apq_dispatch con x q)"

definition worker_step :: "consumer \<Rightarrow> async_queue \<Rightarrow> async_queue result" where
  "worker_step con a =
     (case aq_worker a of
        WTest \<Rightarrow> Inr (a\<lparr>aq_worker := (if rq_exit (aq_queue a) then WEnded else WPop)\<rparr>)
      | WPop \<Rightarrow>
          (case popNext (aq_queue a) of
             (None, q1) \<Rightarrow> Inr (a\<lparr>aq_worker := WTest\<rparr>)
           | (Some x, q1) \<Rightarrow> Inr (a\<lparr>aq_queue := q1, aq_worker := WDispatch x\<rparr>))
      | WDispatch x \<Rightarrow>
          bind_r (dispatch_live con x (aq_queue a)) (\<lambda>q1. Inr (a\<lparr>aq_queue := q1, aq_worker := WDelete x\<rparr>))
      | WDelete x \<Rightarrow>
          bind_r (delete_item x (aq_queue a)) (\<lambda>q1. Inr (a\<lparr>aq_queue := q1, aq_worker := WTest\<rparr>))
      | WEnded \<Rightarrow> Inr a)"

text \<open>\<^verbatim>\<open>Thread::join\<close> waits for the thread; a thread that was joined cannot be joined again.\<close>

definition thread_join :: "async_queue \<Rightarrow> async_queue result" where
  "thread_join a =
     (if \<not> aq_joinable a then Inl RuntimeError
      else if aq_worker a = WEnded then Inr (a\<lparr>aq_joinable := False, aq_closer := CClosed\<rparr>) else Inr a)"

definition closer_step :: "consumer \<Rightarrow> async_queue \<Rightarrow> async_queue result" where
  "closer_step con a =
     (case aq_closer a of
        CTest \<Rightarrow> Inr (a\<lparr>aq_closer := (if rq_items (aq_queue a) = [] then CCancel else CFront)\<rparr>)
      | CFront \<Rightarrow>
          if rq_items (aq_queue a) = [] then Inl Undefined
          else Inr (a\<lparr>aq_closer := CDispatch (hd (rq_items (aq_queue a)))\<rparr>)
      | CDispatch x \<Rightarrow>
          bind_r (dispatch_live con x (aq_queue a)) (\<lambda>q1. Inr (a\<lparr>aq_queue := q1, aq_closer := CPop x\<rparr>))
      | CPop x \<Rightarrow>
          if rq_items (aq_queue a) = [] then Inl Undefined
          else Inr (a\<lparr>aq_queue := pop_item (aq_queue a), aq_closer := CDelete x\<rparr>)
      | CDelete x \<Rightarrow>
          bind_r (delete_item x (aq_queue a)) (\<lambda>q1. Inr (a\<lparr>aq_queue := q1, aq_closer := CTest\<rparr>))
      | CCancel \<Rightarrow>
          assert_r (rq_items (aq_queue a) = []) (Inr (a\<lparr>aq_queue := rq_cancel (aq_queue a), aq_closer := CJoin\<rparr>))
      | CJoin \<Rightarrow> thread_join a
      | CClosed \<Rightarrow> Inr a)"

text \<open>\<^verbatim>\<open>close\<close> begins; a schedule tells which thread takes the next step, \<open>True\<close> for the queue's own.\<close>

definition apq_close :: "async_queue \<Rightarrow> async_queue" where
  "apq_close a = a\<lparr>aq_closer := CTest\<rparr>"

definition apq_onStreamStateChange :: "state_id \<Rightarrow> async_queue \<Rightarrow> async_queue" where
  "apq_onStreamStateChange st a = (if st = state_no SError \<or> st = state_no SClosed then apq_close a else a)"

fun async_run :: "consumer \<Rightarrow> bool list \<Rightarrow> async_queue \<Rightarrow> async_queue result" where
  "async_run con [] a = Inr a"
| "async_run con (b # bs) a = bind_r (if b then worker_step con a else closer_step con a) (async_run con bs)"

subsection \<open>The invariant\<close>

text \<open>
  Every item pushed is waiting, held by the consumer or deleted, and only one of these; the items
  dispatched and those waiting are in the order in which they were pushed.
\<close>

definition queue_ok :: "nat list \<Rightarrow> runnable_queue \<Rightarrow> bool" where
  "queue_ok held q \<longleftrightarrow>
     distinct (rq_pushed q) \<and> mset (rq_deleted q) + mset (rq_items q) + mset held = mset (rq_pushed q) \<and>
     subseq (rq_dispatched q @ rq_items q) (rq_pushed q) \<and>
     set (rq_dispatched q) \<subseteq> set (rq_deleted q) \<union> set held \<and>
     (0 < rq_limit q \<longrightarrow> int (length (rq_items q)) \<le> rq_limit q)"

lemma new_queue_ok: "queue_ok [] (new_queue l t)"
  by (simp add: queue_ok_def new_queue_def)

lemma subseq_drop_mid: "subseq (xs @ y # ys) zs \<Longrightarrow> subseq (xs @ ys) zs"
  by (rule subseq_order.trans [of _ "xs @ y # ys"]) (auto intro: list_emb_append_mono)

lemma queue_ok_distinct:
  assumes "queue_ok held q"
  shows "distinct (rq_deleted q @ rq_items q @ held)"
proof -
  have "mset (rq_deleted q @ rq_items q @ held) = mset (rq_pushed q)" and "distinct (rq_pushed q)"
    using assms by (simp_all add: queue_ok_def add.assoc)
  then show ?thesis by (metis mset_eq_imp_distinct_iff)
qed

text \<open>An item that is waiting, or held, can be deleted.\<close>

lemma drop_front_ok:
  assumes "queue_ok held q" "rq_items q = x # xs"
  shows "\<exists>q'. delete_item x q = Inr q' \<and> rq_items q' = x # xs \<and> queue_ok held (pop_item q') \<and>
     rq_limit q' = rq_limit q \<and> rq_dispatched q' = rq_dispatched q \<and> rq_exit q' = rq_exit q \<and> rq_pushed q' = rq_pushed q"
  using queue_ok_distinct [OF assms(1)] assms subseq_drop_mid [of "rq_dispatched q" x xs "rq_pushed q"]
  by (auto simp: delete_item_def queue_ok_def pop_item_def)

lemma delete_held_ok:
  assumes "queue_ok [x] q"
  shows "\<exists>q'. delete_item x q = Inr q' \<and> queue_ok [] q' \<and> rq_items q' = rq_items q \<and> rq_dispatched q' = rq_dispatched q \<and>
     rq_exit q' = rq_exit q \<and> rq_pushed q' = rq_pushed q \<and> rq_limit q' = rq_limit q"
  using queue_ok_distinct [OF assms] assms by (auto simp: delete_item_def queue_ok_def)

text \<open>Taking the front item and handing it to the consumer.\<close>

lemma take_front_ok:
  assumes "queue_ok [] q" "rq_items q = x # xs"
  shows "queue_ok [x] (q\<lparr>rq_items := xs, rq_dispatched := rq_dispatched q @ [x]\<rparr>)"
  using assms by (auto simp: queue_ok_def)

lemma purge_ok:
  "queue_ok held q \<Longrightarrow> \<exists>q'. purge q = Inr q' \<and> queue_ok held q' \<and> rq_limit q' = rq_limit q \<and> rq_pushed q' = rq_pushed q \<and>
     (0 < rq_limit q \<longrightarrow> int (length (rq_items q')) < rq_limit q)"
proof (induction q rule: purge.induct)
  case (1 q)
  show ?case
  proof (cases "0 < rq_limit q \<and> rq_limit q \<le> int (length (rq_items q))")
    case True
    then obtain x xs where x: "rq_items q = x # xs" by (cases "rq_items q") auto
    from drop_front_ok [OF 1(2) x] obtain q1 where q1: "delete_item x q = Inr q1" "queue_ok held (pop_item q1)"
      "rq_limit q1 = rq_limit q" "rq_pushed q1 = rq_pushed q"
      by blast
    have "\<exists>q'. purge (pop_item q1) = Inr q' \<and> queue_ok held q' \<and> rq_limit q' = rq_limit q \<and> rq_pushed q' = rq_pushed q \<and>
      (0 < rq_limit q \<longrightarrow> int (length (rq_items q')) < rq_limit q)"
      using 1(1) [OF True, of q1] q1 x by (simp add: pop_item_def)
    then show ?thesis using True q1 x by (subst purge.simps) simp
  qed (use 1(2) in \<open>subst purge.simps, auto\<close>)
qed

lemma push_ok:
  assumes "queue_ok held q" "x \<notin> set (rq_pushed q)"
  shows "\<exists>q'. rq_push x q = Inr q' \<and> queue_ok held q' \<and> rq_pushed q' = rq_pushed q @ [x] \<and> rq_limit q' = rq_limit q"
proof -
  obtain q' where q: "purge q = Inr q'" "queue_ok held q'" "0 < rq_limit q \<longrightarrow> int (length (rq_items q')) < rq_limit q"
    "rq_limit q' = rq_limit q" "rq_pushed q' = rq_pushed q"
    using purge_ok [OF assms(1)] by blast
  have "subseq ((rq_dispatched q' @ rq_items q') @ [x]) (rq_pushed q' @ [x])"
    using q(2) by (subst subseq_append) (simp add: queue_ok_def)
  then show ?thesis using q assms(2) by (auto simp: rq_push_def queue_ok_def)
qed

lemma push_all_ok:
  "queue_ok held q \<Longrightarrow> distinct (rq_pushed q @ xs) \<Longrightarrow>
   \<exists>q'. push_all xs q = Inr q' \<and> queue_ok held q' \<and> rq_pushed q' = rq_pushed q @ xs \<and> rq_limit q' = rq_limit q"
proof (induction xs arbitrary: q)
  case (Cons x xs)
  then obtain q1 where q1: "rq_push x q = Inr q1" "queue_ok held q1" "rq_pushed q1 = rq_pushed q @ [x]" "rq_limit q1 = rq_limit q"
    using push_ok [of held q x] by auto
  then show ?case using Cons.IH [of q1] Cons.prems(2) by simp
qed simp

text \<open>\<^verbatim>\<open>dispatchNext\<close> is safe whatever the consumer pushes: the item is off the queue.\<close>

lemma dispatchNext_ok:
  assumes "queue_ok [] q" "rq_items q \<noteq> [] \<Longrightarrow> distinct (rq_pushed q @ con (hd (rq_items q)))"
  shows "\<exists>q'. dispatchNext (rq_dispatch con) q = Inr (rq_items q \<noteq> [], q') \<and> queue_ok [] q' \<and> rq_limit q' = rq_limit q \<and>
     rq_pushed q' = rq_pushed q @ (if rq_items q = [] then [] else con (hd (rq_items q)))"
proof (cases "rq_items q")
  case Nil
  then show ?thesis using assms(1) by (simp add: dispatchNext_def popNext_def)
next
  case (Cons x xs)
  let ?q1 = "q\<lparr>rq_items := xs, rq_dispatched := rq_dispatched q @ [x]\<rparr>"
  obtain q2 where q2: "push_all (con x) ?q1 = Inr q2" "queue_ok [x] q2" "rq_pushed q2 = rq_pushed q @ con x" "rq_limit q2 = rq_limit q"
    using push_all_ok [OF take_front_ok [OF assms(1) Cons], of "con x"] assms(2) Cons by auto
  from delete_held_ok [OF q2(2)] show ?thesis
    using Cons q2 by (auto simp: dispatchNext_def popNext_def rq_dispatch_def pop_item_def)
qed

lemma clear_ok:
  "queue_ok [] q \<Longrightarrow> \<exists>q'. rq_clear q = Inr q' \<and> queue_ok [] q' \<and> rq_items q' = [] \<and> rq_limit q' = rq_limit q \<and> rq_pushed q' = rq_pushed q"
proof (induction q rule: rq_clear.induct)
  case (1 q)
  show ?case
  proof (cases "rq_items q")
    case (Cons x xs)
    from drop_front_ok [OF 1(2) Cons] obtain q1 where q1: "delete_item x q = Inr q1" "queue_ok [] (pop_item q1)"
      "rq_limit q1 = rq_limit q" "rq_pushed q1 = rq_pushed q"
      by blast
    have "\<exists>q'. rq_clear (pop_item q1) = Inr q' \<and> queue_ok [] q' \<and> rq_items q' = [] \<and> rq_limit q' = rq_limit q \<and> rq_pushed q' = rq_pushed q"
      using 1(1) [of q1] Cons q1 by (simp add: pop_item_def)
    then show ?thesis using Cons q1 by (subst rq_clear.simps) simp
  qed (use 1(2) in \<open>subst rq_clear.simps, auto\<close>)
qed

text \<open>
  What \<^verbatim>\<open>flush\<close> relies on: a dispatch that leaves the waiting items alone. The two dispatch
  methods keep this contract, that of the packet queues while the queue is not cancelled.
\<close>

locale quiet_dispatch =
  fixes ready :: "bool \<Rightarrow> bool" and disp :: dispatcher
  assumes quiet: "ready (rq_exit q) \<Longrightarrow> disp x q = Inr (q\<lparr>rq_dispatched := rq_dispatched q @ [x]\<rparr>)"
begin

lemma flush_front:
  assumes "queue_ok [] q" "rq_items q = x # xs" "ready (rq_exit q)"
  shows "\<exists>q'. rq_flush (Suc n) disp q = rq_flush n disp q' \<and> queue_ok [] q' \<and> rq_items q' = xs \<and> rq_limit q' = rq_limit q \<and>
     rq_dispatched q' = rq_dispatched q @ [x] \<and> rq_exit q' = rq_exit q \<and> rq_pushed q' = rq_pushed q"
proof -
  let ?q1 = "q\<lparr>rq_items := xs, rq_dispatched := rq_dispatched q @ [x]\<rparr>"
  have "pop_item (q\<lparr>rq_dispatched := rq_dispatched q @ [x]\<rparr>) = ?q1" using assms(2) by (simp add: pop_item_def)
  moreover obtain q' where "delete_item x ?q1 = Inr q'" "queue_ok [] q'" "rq_items q' = xs" "rq_limit q' = rq_limit q"
    "rq_dispatched q' = rq_dispatched q @ [x]" "rq_exit q' = rq_exit q" "rq_pushed q' = rq_pushed q"
    using delete_held_ok [OF take_front_ok [OF assms(1,2)]] by auto
  ultimately show ?thesis using assms(2,3) by (auto simp: rq_flush.simps [of "Suc n"] quiet)
qed

lemma flush_all:
  "queue_ok [] q \<Longrightarrow> ready (rq_exit q) \<Longrightarrow> length (rq_items q) \<le> n \<Longrightarrow>
   \<exists>q'. rq_flush n disp q = Inr q' \<and> queue_ok [] q' \<and> rq_items q' = [] \<and> rq_dispatched q' = rq_dispatched q @ rq_items q \<and>
     rq_exit q' = rq_exit q \<and> rq_limit q' = rq_limit q \<and> rq_pushed q' = rq_pushed q"
proof (induction n arbitrary: q)
  case 0
  then show ?case by (simp add: rq_flush.simps)
next
  case (Suc n)
  show ?case
  proof (cases "rq_items q")
    case Nil
    then show ?thesis using Suc.prems by (simp add: rq_flush.simps)
  next
    case (Cons x xs)
    then obtain q1 where q1: "rq_flush (Suc n) disp q = rq_flush n disp q1" "queue_ok [] q1" "rq_items q1 = xs"
      "rq_dispatched q1 = rq_dispatched q @ [x]" "rq_exit q1 = rq_exit q" "rq_limit q1 = rq_limit q" "rq_pushed q1 = rq_pushed q"
      using flush_front [OF Suc.prems(1) Cons Suc.prems(2), of n] by blast
    show ?thesis using Suc.IH [OF q1(2)] q1 Cons Suc.prems(2,3) by simp
  qed
qed

end

interpretation plain: quiet_dispatch "\<lambda>_. True" "rq_dispatch (\<lambda>_. [])"
  by unfold_locales (simp add: rq_dispatch_def)

interpretation open_sync: quiet_dispatch Not "spq_dispatch (\<lambda>_. [])"
  by unfold_locales (simp add: rq_dispatch_def spq_dispatch_def)

interpretation open_async: quiet_dispatch Not "apq_dispatch (\<lambda>_. [])"
  by unfold_locales (simp add: rq_dispatch_def apq_dispatch_def)

text \<open>
  A user of the queue: the operations in any order, with one consumer, \<^verbatim>\<open>ondispatch\<close>. The depth \<open>n\<close>
  bounds the rounds of a \<^verbatim>\<open>flush\<close>.
\<close>

datatype queue_op = QPush nat | QNext | QFlush | QClear | QCancel

fun queue_do :: "nat \<Rightarrow> consumer \<Rightarrow> queue_op \<Rightarrow> runnable_queue \<Rightarrow> runnable_queue result" where
  "queue_do n con (QPush x) q = rq_push x q"
| "queue_do n con QNext q = bind_r (dispatchNext (rq_dispatch con) q) (\<lambda>(more, q1). Inr q1)"
| "queue_do n con QFlush q = rq_flush n (rq_dispatch con) q"
| "queue_do n con QClear q = rq_clear q"
| "queue_do n con QCancel q = Inr (rq_cancel q)"

fun queue_run :: "nat \<Rightarrow> consumer \<Rightarrow> queue_op list \<Rightarrow> runnable_queue \<Rightarrow> runnable_queue result" where
  "queue_run n con [] q = Inr q"
| "queue_run n con (c # cs) q = bind_r (queue_do n con c q) (queue_run n con cs)"

text \<open>Every item pushed is a new object.\<close>

definition op_fresh :: "consumer \<Rightarrow> queue_op \<Rightarrow> runnable_queue \<Rightarrow> bool" where
  "op_fresh con c q = (case c of QPush x \<Rightarrow> x \<notin> set (rq_pushed q)
     | QNext \<Rightarrow> (rq_items q \<noteq> [] \<longrightarrow> distinct (rq_pushed q @ con (hd (rq_items q)))) | _ \<Rightarrow> True)"

fun run_fresh :: "nat \<Rightarrow> consumer \<Rightarrow> queue_op list \<Rightarrow> runnable_queue \<Rightarrow> bool" where
  "run_fresh n con [] q = True"
| "run_fresh n con (c # cs) q =
     (op_fresh con c q \<and> (case queue_do n con c q of Inl _ \<Rightarrow> True | Inr q1 \<Rightarrow> run_fresh n con cs q1))"

definition silent :: "consumer \<Rightarrow> bool" where
  "silent con \<longleftrightarrow> con = (\<lambda>_. [])"

lemma items_pushed: "queue_ok [] q \<Longrightarrow> length (rq_items q) \<le> length (rq_pushed q)"
  unfolding queue_ok_def by (metis add.commute le_add1 size_mset size_union add.right_neutral mset.simps(1))

lemma queue_do_ok:
  assumes "queue_ok [] q" "op_fresh con c q" "c = QFlush \<longrightarrow> silent con \<and> length (rq_pushed q) \<le> n"
  shows "\<exists>q'. queue_do n con c q = Inr q' \<and> queue_ok [] q' \<and> rq_limit q' = rq_limit q \<and>
    (silent con \<longrightarrow> length (rq_pushed q') \<le> Suc (length (rq_pushed q)))"
proof (cases c)
  case (QPush x)
  then show ?thesis using push_ok [OF assms(1), of x] assms(2) by (auto simp: op_fresh_def)
next
  case QNext
  have "\<exists>q'. dispatchNext (rq_dispatch con) q = Inr (rq_items q \<noteq> [], q') \<and> queue_ok [] q' \<and> rq_limit q' = rq_limit q \<and>
      rq_pushed q' = rq_pushed q @ (if rq_items q = [] then [] else con (hd (rq_items q)))"
    using dispatchNext_ok [OF assms(1), of con] assms(2) QNext by (simp add: op_fresh_def)
  then show ?thesis using QNext by (auto simp: silent_def)
next
  case QFlush
  then show ?thesis using plain.flush_all [OF assms(1), of n] assms(3) items_pushed [OF assms(1)] by (auto simp: silent_def)
next
  case QClear
  then show ?thesis using clear_ok [OF assms(1)] by auto
next
  case QCancel
  then show ?thesis using assms(1) by (simp add: rq_cancel_def queue_ok_def)
qed

lemma queue_run_ok:
  "queue_ok [] q \<Longrightarrow> run_fresh n con cs q \<Longrightarrow> QFlush \<in> set cs \<longrightarrow> silent con \<and> length (rq_pushed q) + length cs \<le> n \<Longrightarrow>
   \<exists>q'. queue_run n con cs q = Inr q' \<and> queue_ok [] q' \<and> rq_limit q' = rq_limit q"
proof (induction cs arbitrary: q)
  case (Cons c cs)
  have "c = QFlush \<longrightarrow> silent con \<and> length (rq_pushed q) \<le> n" using Cons.prems(3) by auto
  then obtain q1 where q1: "queue_do n con c q = Inr q1" "queue_ok [] q1" "rq_limit q1 = rq_limit q"
    "silent con \<longrightarrow> length (rq_pushed q1) \<le> Suc (length (rq_pushed q))"
    using queue_do_ok [OF Cons.prems(1), of con c n] Cons.prems(2) by auto
  have "QFlush \<in> set cs \<longrightarrow> silent con \<and> length (rq_pushed q1) + length cs \<le> n" using Cons.prems(3) q1(4) by auto
  then show ?case using Cons.IH [OF q1(2)] Cons.prems(2) q1 by simp
qed simp

subsection \<open>Closing an asynchronous queue\<close>











subsection \<open>Properties\<close>

text \<open>
  C13 (invariant). A queue has one consumer, which may push new items while it is given one; in runs that
  use \<^verbatim>\<open>flush\<close> it pushes nothing (otherwise see \<open>flush_double_delete\<close>). Whatever is pushed, dispatched
  one by one, flushed and cleared in whatever order: every operation returns, and none deletes an object
  twice; the queue holds no more items than its limit, each item pushed is either waiting or
  deleted, and what was dispatched and what is waiting is in the order of the pushes.
\<close>

theorem queue_conserves:
  assumes "run_fresh n con cs (new_queue limit timeout)" "QFlush \<in> set cs \<longrightarrow> silent con \<and> length cs \<le> n"
  shows "\<exists>q. queue_run n con cs (new_queue limit timeout) = Inr q \<and>
     (0 < limit \<longrightarrow> int (length (rq_items q)) \<le> limit) \<and>
     mset (rq_deleted q) + mset (rq_items q) = mset (rq_pushed q) \<and> distinct (rq_deleted q @ rq_items q) \<and>
     subseq (rq_dispatched q @ rq_items q) (rq_pushed q) \<and> set (rq_dispatched q) \<subseteq> set (rq_deleted q)"
proof -
  have "QFlush \<in> set cs \<longrightarrow> silent con \<and> length (rq_pushed (new_queue limit timeout)) + length cs \<le> n"
    using assms(2) by (simp add: new_queue_def)
  then obtain q where q: "queue_run n con cs (new_queue limit timeout) = Inr q" "queue_ok [] q" "rq_limit q = limit"
    using queue_run_ok [OF new_queue_ok assms(1)] by (auto simp: new_queue_def)
  then show ?thesis using queue_ok_distinct [OF q(2)] by (auto simp: queue_ok_def)
qed


subsection \<open>Witnesses\<close>

definition queue_sample :: "queue_op list" where
  "queue_sample = [QPush 1, QPush 2, QPush 3, QNext, QPush 4, QClear, QPush 5, QNext, QCancel]"

theorem queue_conserves_witness:
  "(\<exists>q. queue_run 0 (\<lambda>x. [x + 10]) queue_sample (new_queue 2 0) = Inr q \<and>
     int (length (rq_items q)) \<le> 2 \<and> mset (rq_deleted q) + mset (rq_items q) = mset (rq_pushed q)) \<and>
   (\<exists>q. queue_run 3 (\<lambda>_. []) [QPush 1, QPush 2, QFlush] (new_queue 2 0) = Inr q \<and> distinct (rq_deleted q @ rq_items q))"
proof
  have "run_fresh 0 (\<lambda>x. [x + 10]) queue_sample (new_queue 2 0)" by code_simp
  moreover have "QFlush \<notin> set queue_sample" by code_simp
  ultimately show "\<exists>q. queue_run 0 (\<lambda>x. [x + 10]) queue_sample (new_queue 2 0) = Inr q \<and>
     int (length (rq_items q)) \<le> 2 \<and> mset (rq_deleted q) + mset (rq_items q) = mset (rq_pushed q)"
    using queue_conserves [of 0 "\<lambda>x. [x + 10]" queue_sample 2 0] by auto
  have "run_fresh 3 (\<lambda>_. []) [QPush 1, QPush 2, QFlush] (new_queue 2 0)" by code_simp
  then show "\<exists>q. queue_run 3 (\<lambda>_. []) [QPush 1, QPush 2, QFlush] (new_queue 2 0) = Inr q \<and> distinct (rq_deleted q @ rq_items q)"
    using queue_conserves [of 3 "\<lambda>_. []" "[QPush 1, QPush 2, QFlush]" 2 0] by (auto simp: silent_def)
qed

lemma queue_sample_result:
  "map_sum id (\<lambda>q. (rq_dispatched q, rq_items q, rq_deleted q)) (queue_run 0 (\<lambda>x. [x + 10]) queue_sample (new_queue 2 0)) =
   Inr ([2, 5], [15], [1, 2, 3, 12, 4, 5])"
  by code_simp



subsection \<open>Where the queues fail\<close>

text \<open>
  \<^verbatim>\<open>flush\<close> leaves the item it dispatches at the front of the queue: a consumer that pushes while the
  queue is at its limit has \<^verbatim>\<open>push\<close> delete that item, and \<^verbatim>\<open>flush\<close> deletes it again.
\<close>

lemma flush_double_delete:
  "bind_r (queue_run 0 con [QPush 1, QPush 2] (new_queue 2 0)) (rq_flush n (rq_dispatch (\<lambda>x. [x + 10]))) =
   Inl (if n = 0 then Diverges else Undefined)"
  by (cases n) (simp_all add: new_queue_def rq_push_def purge.simps rq_flush.simps rq_dispatch_def
      delete_item_def pop_item_def)

text \<open>The same items through \<^verbatim>\<open>dispatchNext\<close>, which takes the item off first.\<close>

lemma dispatchNext_no_double_delete:
  "map_sum id (\<lambda>(m, q). (m, rq_dispatched q, rq_items q, rq_deleted q))
     (bind_r (queue_run 0 (\<lambda>_. []) [QPush 1, QPush 2] (new_queue 2 0)) (dispatchNext (rq_dispatch (\<lambda>x. [x + 10])))) =
   Inr (True, [1], [2, 11], [1])"
  by code_simp

text \<open>
  A stream that fails reports the error and, when it has closed, the closing: an asynchronous
  packet queue attached to it closes at both, and joins its thread twice.
\<close>

definition states_seen :: "nat \<Rightarrow> stream_event list \<Rightarrow> state_id list" where
  "states_seen a es = List.map_filter (\<lambda>e. case e of StateChange b st \<Rightarrow> if a = b then Some st else None | _ \<Rightarrow> None) es"

lemma failing_stream_states:
  "(case run 1 throwing_env (Process sample_packet) (serving_stream, ()) of
      Inr (_, s, _) \<Rightarrow> states_seen 1 (st_log s) | Inl _ \<Rightarrow> []) = [7, 4, 5, 6]"
  by code_simp

lemma failing_stream_joins_twice:
  assumes "\<not> rq_exit q" "rq_items q = []"
  shows "bind_r (async_run con [False, False, True, False] (apq_onStreamStateChange 7 (new_async q)))
    (\<lambda>a. async_run con [False, False, False] (apq_onStreamStateChange 6 a)) = Inl RuntimeError"
  using assms by (simp add: apq_onStreamStateChange_def apq_close_def new_async_def closer_step_def worker_step_def
      thread_join_def rq_cancel_def)

end
