(* ===== verification/Spec2Isabelle.thy ===== *)
theory Spec2Isabelle
  imports Packet_Transaction Signal_Slot Hex Web_Socket Turn_Relay Local_Date Packet_Queue
begin

text \<open>
  \<^bold>\<open>A verification library for LibSourcey.\<close>

  LibSourcey is a C++ toolkit for real-time networking: a base library (buffers, text and binary
  encodings, signals, timers, state machines), a network layer on libuv and OpenSSL, the STUN and
  TURN protocols, HTTP and WebSockets, and modules for scheduling, messaging and media. This
  library models the parts whose behaviour is decided by the code of the repository itself, in
  the order in which they build on each other, and proves what they promise. All paths below are
  relative to \<^verbatim>\<open>src/\<close> in the repository.

  \<^bold>\<open>Conventions.\<close> \<open>Scy_Prelude\<close> fixes how C++ is read. Fixed-width integers are words, \<^verbatim>\<open>char\<close>
  buffers are byte lists, \<^verbatim>\<open>size_t\<close> values are natural numbers with the wrap-around written
  out, \<^verbatim>\<open>std::string\<close> is \<open>string\<close> or a byte list, classes are records, and functions that
  change an object return the changed record. The type \<open>'a result\<close> has as errors the exceptions
  the code throws, a failed \<^verbatim>\<open>assert\<close>, and \<open>Undefined\<close> for an access outside of an object, so that
  memory safety is the statement that a call never returns \<open>Inl Undefined\<close>. What the
  code takes from the platform and from third-party libraries (byte order of the host, HMAC,
  CRC32, SHA-1, the order in which an unstable sort leaves equal elements, the answers of sockets)
  is an argument of the definitions.

  \<^bold>\<open>Components.\<close>
    \<^item> \<open>Byte_Order\<close> models \<^verbatim>\<open>base/include/scy/byteorder.h\<close>; \<open>Bit_Buffer\<close> models the readers and
      writers of \<^verbatim>\<open>base/src/buffer.cpp\<close>. The lemmas on \<open>holds\<close> in the locale of writers carry
      every serialisation proof; the properties are the round trip of typed fields over hosts of
      different byte order and the bounds of every read.
    \<^item> \<open>Text_Util\<close>, \<open>String_Util\<close> model \<^verbatim>\<open>base/include/scy/util.h\<close> and \<^verbatim>\<open>base/src/util.cpp\<close>.
    \<^item> \<open>Stream_Coder\<close> is the interface of \<^verbatim>\<open>base/include/scy/interface.h\<close>: a locale of
      incremental coders with the theorem that coding in blocks equals coding at once, interpreted
      by \<open>Base64\<close> (\<^verbatim>\<open>base64.h\<close>, \<^verbatim>\<open>base64.cpp\<close>) and \<open>Hex\<close> (\<^verbatim>\<open>hex.h\<close>), which prove equality with the
      RFC 4648 encoding and the round trips.
    \<^item> \<open>NV_Collection\<close> models \<^verbatim>\<open>base/src/collection.cpp\<close> as a sorted multimap and proves that it
      refines a function from names up to case to lists of values.
    \<^item> \<open>Signal_Slot\<close> models \<^verbatim>\<open>base/include/scy/signal.h\<close>: a heap of slots, and emission with callbacks
      that may change the signal; the invariant holds through every sequence of operations.
    \<^item> \<open>Stateful\<close> and \<open>Packet_Transaction\<close> model \<^verbatim>\<open>stateful.h\<close>, \<^verbatim>\<open>packettransaction.h\<close>,
      \<^verbatim>\<open>net/transaction.h\<close> and \<^verbatim>\<open>stun/src/transaction.cpp\<close> as one state machine over events
      (send, cancel, timer, packet, dispose), with its invariant, its response check and its
      bounded retransmission.
    \<^item> \<open>Net_Address\<close> models \<^verbatim>\<open>net/src/address.cpp\<close> with the IPv4 text conversions of libuv.
    \<^item> \<open>Stun_Attributes\<close> and \<open>Stun_Message\<close> model \<^verbatim>\<open>stun/src/attributes.cpp\<close> and
      \<^verbatim>\<open>stun/src/message.cpp\<close>: the round trip of messages, message integrity end to end, memory
      safety of parsing arbitrary datagrams up to the two situations the code misses.
    \<^item> \<open>Http_Util\<close>, \<open>Http_Message\<close> and \<open>Web_Socket\<close> model \<^verbatim>\<open>http/src/util.cpp\<close>, the encodings of
      \<^verbatim>\<open>url.cpp\<close>, \<^verbatim>\<open>message.cpp\<close>, \<^verbatim>\<open>request.cpp\<close>, \<^verbatim>\<open>response.cpp\<close> and \<^verbatim>\<open>websocket.cpp\<close>: parameters, cookies
      and headers, frames, the handshake and the adapter that joins them.
    \<^item> \<open>Key_Collection\<close> models the maps of \<^verbatim>\<open>base/include/scy/collection.h\<close> over any strict weak ordering
      (the locale \<open>weak_order\<close>, interpreted for \<^verbatim>\<open>ILT\<close>, for linear orders and for five-tuples) and
      proves that they refine partial functions.
    \<^item> \<open>Turn_Allocation\<close>, \<open>Turn_Server\<close> model \<^verbatim>\<open>turn/src/iallocation.cpp\<close>, \<^verbatim>\<open>fivetuple.cpp\<close> and
      \<^verbatim>\<open>turn/src/server\<close>: the TURN server as a state machine over the callbacks of the event loop, on top of the
      STUN messages. \<open>Turn_Invariant\<close> proves that every callback keeps the server's invariant;
      \<open>Turn_Relay\<close> proves what must hold when data is relayed (a permission or a local host, the quota,
      the maximum lifetime), that the timer collects expired allocations, and shows what happens to
      Allocate, Refresh and foreign requests.
    \<^item> \<open>Numeric\<close> models the integer formatting of \<^verbatim>\<open>base/src/numeric.cpp\<close>.
    \<^item> \<open>Fp_Double\<close> is the arithmetic of \<^verbatim>\<open>double\<close> (rational numbers rounded to 53 bits; the locale \<open>rounding\<close>
      states what its clients need and is interpreted for the rounding to nearest). \<open>Date_Time\<close> models
      \<^verbatim>\<open>Timestamp\<close>, \<^verbatim>\<open>Timespan\<close>, \<^verbatim>\<open>Stopwatch\<close> and \<^verbatim>\<open>DateTime\<close> of \<^verbatim>\<open>base/src/datetime.cpp\<close>;
      \<open>Date_Calendar\<close> and \<open>Date_Exact\<close> prove that the computation of dates in doubles gives the
      Gregorian calendar exactly; \<open>Date_Fields\<close> holds the properties of the classes.
    \<^item> \<open>Date_Format\<close> models \<^verbatim>\<open>DateTimeFormat\<close>, \<^verbatim>\<open>DateTimeFormatter\<close> and \<^verbatim>\<open>DateTimeParser\<close>, and
      \<open>Date_Text\<close> proves that the parser recognises and reads back what the formatter prints.
      \<open>Local_Date\<close> models \<^verbatim>\<open>LocalDateTime\<close> and \<^verbatim>\<open>Timezone\<close> over a parameter for the C library's zone.
    \<^item> \<open>Packet_Stream\<close> models \<^verbatim>\<open>PacketStream\<close> of \<^verbatim>\<open>base/src/packetstream.cpp\<close>, with what its adapters and
      receivers do as a parameter; the recursion through the signals is closed by \<open>run\<close>, whose depth of more
      than the number of processors is proved enough. \<open>Stream_Flow\<close> proves the invariant of streams (locale
      \<open>stream_steps\<close>), that a stream refines its chain of processors, and what exceptions do to it.
    \<^item> \<open>Packet_Queue\<close> models \<^verbatim>\<open>RunnableQueue\<close> of \<^verbatim>\<open>base/include/scy/queue.h\<close> and the packet queues of
      \<^verbatim>\<open>packetqueue.h\<close>: every item is waiting, with the consumer or deleted, and only one of these, and
      the locale \<open>quiet_dispatch\<close> is what \<^verbatim>\<open>flush\<close> needs of \<^verbatim>\<open>dispatch\<close>. The closing of an
      \<^verbatim>\<open>AsyncPacketQueue\<close> is interleaved with its thread, and the theorem says when no schedule goes wrong.

  \<^bold>\<open>Termination.\<close> Most loops are total functions: structural recursion over the bytes, or a measure
  (the bytes left, the characters left, the retries left). Fuel stands where callbacks can make
  the code run forever, in streams and in the \<^verbatim>\<open>flush\<close> of a queue, and where random numbers are drawn;
  running out of it is the error \<open>Diverges\<close>, and the properties show with which fuel it is not reached.

  \<^bold>\<open>Not modelled.\<close> The event loop, sockets, threads, files and processes (libuv and the operating
  system), OpenSSL, FFmpeg, WebRTC, JSON and \<^verbatim>\<open>http_parser\<close> (third-party), and the modules that
  only connect these; the clients of TURN, HTTP, Socket.IO and Symple and the scheduler, which act
  in callbacks of these. Locks are not modelled, except for the processor mutex of packet streams,
  which is held over callbacks: calls on an object are sequential, and callbacks are explicit. Two
  threads are modelled where the code itself runs them against each other, in the closing of an
  \<^verbatim>\<open>AsyncPacketQueue\<close>.
\<close>

end
